(* ===== verification/Prelude.thy ===== *)
theory Prelude
  imports Main "HOL-Library.Word" "HOL-Library.AList" "HOL-Library.Sublist"
    "HOL-Library.Multiset" "HOL-Library.Char_ord" "HOL-Library.List_Lexorder"
begin

text \<open>
  What every component shares: the machine integers of the Go code, Go maps, loops over a map
  that return at the first error, and reachable states of a step relation with the interface of
  an inductive invariant.
\<close>

named_theorems go_simps \<open>evaluation of the modelled Go library functions\<close>
named_theorems inv_intros \<open>operations keep the well-formedness of their component\<close>

section \<open>Integers\<close>

text \<open>Go's \<open>int64\<close>: 64 bits, wrapping addition, read as two's complement.\<close>

type_synonym int64 = "64 word"

definition i64_gt :: "int64 \<Rightarrow> int64 \<Rightarrow> bool" where
  "i64_gt a b \<longleftrightarrow> sint b < sint a"

definition in_int64 :: "int \<Rightarrow> bool" where
  "in_int64 i \<longleftrightarrow> - (2 ^ 63) \<le> i \<and> i < 2 ^ 63"

lemma sint_in_int64 [simp]: "in_int64 (sint (a :: int64))"
  using sint_range_size [of a] by (simp add: in_int64_def word_size)

lemma sint_of_int_int64: "in_int64 i \<Longrightarrow> sint (word_of_int i :: int64) = i"
  by (simp add: in_int64_def sint_sbintrunc' signed_take_bit_int_eq_self)

lemma sint_add_int64:
  "in_int64 (sint a + sint b) \<Longrightarrow> sint (a + b :: int64) = sint a + sint b"
proof -
  assume r: "in_int64 (sint a + sint b)"
  have "a + b = word_of_int (sint a + sint b)" by simp
  with r show ?thesis by (simp add: sint_of_int_int64 del: of_int_add)
qed

lemma sint_inject: "sint (a :: int64) = sint b \<longleftrightarrow> a = b"
  by (auto intro: signed_word_eqI)

section \<open>Go maps\<close>

text \<open>
  A Go map is an association list with distinct keys. The order of the list is the order in which
  a \<open>range\<close> loop over that map happens to run (Go leaves it unspecified), so a theorem that does
  not mention the order holds for every run, and order independence is stated with permutations.
\<close>

type_synonym ('k, 'v) gomap = "('k \<times> 'v) list"

abbreviation gmap_ok :: "('k, 'v) gomap \<Rightarrow> bool" where
  "gmap_ok m \<equiv> distinct (map fst m)"

declare map_of_eq_Some_iff [simp del] Some_eq_map_of_iff [simp del]

lemma map_of_update [simp]: "map_of (AList.update k v m) = (map_of m)(k \<mapsto> v)"
  by (rule update_conv')

lemma map_of_delete [simp]: "map_of (AList.delete k m) = (map_of m)(k := None)"
  by (rule delete_conv')

lemma gmap_ok_update [simp]: "gmap_ok m \<Longrightarrow> gmap_ok (AList.update k v m)"
  by (rule distinct_update)

lemma gmap_ok_delete [simp]: "gmap_ok m \<Longrightarrow> gmap_ok (AList.delete k m)"
  by (rule distinct_delete)

lemma update_fresh: "map_of m k = None \<Longrightarrow> AList.update k v m = m @ [(k, v)]"
  by (induction m) (auto split: if_splits)

lemma gmap_mem_iff: "gmap_ok m \<Longrightarrow> (k, v) \<in> set m \<longleftrightarrow> map_of m k = Some v"
  by (auto simp: map_of_is_SomeI dest: map_of_SomeD)

lemma gmap_all_values:
  "gmap_ok m \<Longrightarrow> (\<forall>r \<in> snd ` set m. P r) \<longleftrightarrow> (\<forall>k r. map_of m k = Some r \<longrightarrow> P r)"
  by (auto simp flip: gmap_mem_iff)

section \<open>Loops that return at the first error\<close>

fun first_error :: "('a \<Rightarrow> 'e option) \<Rightarrow> 'a list \<Rightarrow> 'e option" where
  "first_error chk [] = None"
| "first_error chk (x # xs) =
     (case chk x of Some e \<Rightarrow> Some e | None \<Rightarrow> first_error chk xs)"

lemma first_error_None_iff [simp]:
  "first_error chk xs = None \<longleftrightarrow> (\<forall>x \<in> set xs. chk x = None)"
  by (induction xs) (auto split: option.splits)

lemma first_error_SomeD:
  "first_error chk xs = Some e \<Longrightarrow> \<exists>x \<in> set xs. chk x = Some e"
  by (induction xs) (auto split: option.splits)

text \<open>Checks one after the other, the first error wins.\<close>

lemma error_chain_None [simp]:
  "(case a of Some e \<Rightarrow> Some e | None \<Rightarrow> b) = None \<longleftrightarrow> a = None \<and> b = None"
  by (cases a) auto

lemma map_filter_append:
  "List.map_filter f (xs @ ys) = List.map_filter f xs @ List.map_filter f ys"
  by (simp add: List.map_filter_def)

section \<open>Reachable states\<close>

inductive reach :: "('s \<Rightarrow> bool) \<Rightarrow> ('s \<Rightarrow> 's \<Rightarrow> bool) \<Rightarrow> 's \<Rightarrow> bool"
  for init step where
  reach_init: "init s \<Longrightarrow> reach init step s"
| reach_step: "reach init step s \<Longrightarrow> step s t \<Longrightarrow> reach init step t"

locale inductive_invariant =
  fixes init :: "'s \<Rightarrow> bool"
    and step :: "'s \<Rightarrow> 's \<Rightarrow> bool"
    and inv :: "'s \<Rightarrow> bool"
  assumes inv_init: "init s \<Longrightarrow> inv s"
    and inv_step: "inv s \<Longrightarrow> step s t \<Longrightarrow> inv t"
begin

lemma reach_inv: "reach init step s \<Longrightarrow> inv s"
  by (induction rule: reach.induct) (auto intro: inv_init inv_step)

lemma steps_inv: "step\<^sup>*\<^sup>* s t \<Longrightarrow> inv s \<Longrightarrow> inv t"
  by (induction rule: rtranclp_induct) (auto intro: inv_step)

end

section \<open>Progress\<close>

text \<open>
  A goal is reached on an infinite run when a measure never grows before it and, as long as the goal
  is missed, shrinks again and again.
\<close>

lemma eventually_by_measure:
  fixes m :: "nat \<Rightarrow> nat"
  assumes mono: "\<And>j. i \<le> j \<Longrightarrow> \<not> goal j \<Longrightarrow> m (Suc j) \<le> m j"
    and progress: "\<And>j. i \<le> j \<Longrightarrow> \<forall>k\<ge>j. \<not> goal k \<Longrightarrow> \<exists>k\<ge>j. m (Suc k) < m k"
  shows "\<exists>j\<ge>i. goal j"
proof (rule ccontr)
  assume "\<not> (\<exists>j\<ge>i. goal j)"
  then have missed: "\<not> goal j" if "i \<le> j" for j using that by blast
  have anti: "m k \<le> m j" if "i \<le> j" "j \<le> k" for j k
    using that(2) by (induction k rule: dec_induct) (use that(1) mono missed in \<open>auto intro: order_trans\<close>)
  have "i \<le> j \<Longrightarrow> False" for j
  proof (induction "m j" arbitrary: j rule: less_induct)
    case less
    from progress [OF less.prems] missed less.prems obtain k where k: "j \<le> k" "m (Suc k) < m k"
      by (meson order_trans)
    then have "m (Suc k) < m j" using anti [OF less.prems k(1)] by simp
    then show False using less.hyps less.prems k(1) by fastforce
  qed
  then show False by blast
qed

end
