(* ===== verification/GoStrings.thy ===== *)
theory GoStrings
  imports Prelude
begin

text \<open>
  The part of Go's \<open>strings\<close>, \<open>fmt\<close>, \<open>encoding/hex\<close> and \<open>net/textproto\<close> packages that the
  gateway uses. A Go string is its list of bytes (\<open>char\<close> is 8 bits). White space follows
  \<open>unicode.IsSpace\<close> on UTF-8: the ASCII spaces and the two and three byte encodings of the other
  space characters; those encodings start with a byte that is never a continuation byte, so
  scanning byte by byte finds exactly the space runes.
\<close>

definition LF :: char where "LF = CHR 0x0A"

definition CR :: char where "CR = CHR 0x0D"

section \<open>Prefixes\<close>

definition has_prefix :: "string \<Rightarrow> string \<Rightarrow> bool" where
  "has_prefix s p \<longleftrightarrow> take (length p) s = p"

lemma has_prefix_iff: "has_prefix s p \<longleftrightarrow> (\<exists>t. s = p @ t)"
  unfolding has_prefix_def by (metis append_eq_conv_conj append_take_drop_id)

lemma has_prefix_append [simp]: "has_prefix (p @ t) p"
  by (simp add: has_prefix_def)

definition trim_prefix :: "string \<Rightarrow> string \<Rightarrow> string" where
  "trim_prefix s p = (if has_prefix s p then drop (length p) s else s)"

lemma trim_prefix_append [simp]: "trim_prefix (p @ t) p = t"
  by (simp add: trim_prefix_def)

section \<open>White space\<close>

definition ascii_space :: "char \<Rightarrow> bool" where
  "ascii_space c \<longleftrightarrow> c = CHR '' '' \<or> c = CHR 0x09 \<or> c = CHR 0x0A \<or> c = CHR 0x0B
     \<or> c = CHR 0x0C \<or> c = CHR 0x0D"

definition wide_space :: "char \<Rightarrow> char \<Rightarrow> char \<Rightarrow> bool" where
  "wide_space a b c \<longleftrightarrow>
     a = CHR 0xE1 \<and> b = CHR 0x9A \<and> c = CHR 0x80
     \<or> a = CHR 0xE2 \<and> b = CHR 0x80 \<and>
         (128 \<le> (of_char c :: nat) \<and> (of_char c :: nat) \<le> 138
          \<or> c = CHR 0xA8 \<or> c = CHR 0xA9 \<or> c = CHR 0xAF)
     \<or> a = CHR 0xE2 \<and> b = CHR 0x81 \<and> c = CHR 0x9F
     \<or> a = CHR 0xE3 \<and> b = CHR 0x80 \<and> c = CHR 0x80"

text \<open>The number of bytes of the space rune at the start of a string, 0 when there is none.\<close>

fun space_width :: "string \<Rightarrow> nat" where
  "space_width [] = 0"
| "space_width [a] = (if ascii_space a then 1 else 0)"
| "space_width [a, b] =
     (if ascii_space a then 1
      else if a = CHR 0xC2 \<and> (b = CHR 0x85 \<or> b = CHR 0xA0) then 2 else 0)"
| "space_width (a # b # c # r) =
     (if ascii_space a then 1
      else if a = CHR 0xC2 \<and> (b = CHR 0x85 \<or> b = CHR 0xA0) then 2
      else if wide_space a b c then 3 else 0)"

datatype unit_of_text = Blank string | Byte char

function units :: "string \<Rightarrow> unit_of_text list" where
  "units [] = []"
| "units (c # cs) =
     (case space_width (c # cs) of
        0 \<Rightarrow> Byte c # units cs
      | Suc w \<Rightarrow> Blank (take (Suc w) (c # cs)) # units (drop w cs))"
  by pat_completeness auto
termination by (relation "measure length") auto

fun unit_text :: "unit_of_text \<Rightarrow> string" where
  "unit_text (Blank s) = s"
| "unit_text (Byte c) = [c]"

fun is_blank :: "unit_of_text \<Rightarrow> bool" where
  "is_blank (Blank s) = True"
| "is_blank (Byte c) = False"

definition text_of :: "unit_of_text list \<Rightarrow> string" where
  "text_of us = concat (map unit_text us)"

lemma text_of_units [simp]: "text_of (units s) = s"
proof (induction s rule: units.induct)
  case 1
  show ?case by (simp add: text_of_def)
next
  case (2 c cs)
  show ?case
  proof (cases "space_width (c # cs)")
    case 0
    then show ?thesis using "2.IH"(1) by (simp add: units.simps text_of_def)
  next
    case (Suc w)
    then show ?thesis using "2.IH"(2) by (simp add: units.simps text_of_def)
  qed
qed

text \<open>\<open>strings.TrimSpace\<close> and \<open>strings.Fields\<close>.\<close>

definition trim_space :: "string \<Rightarrow> string" where
  "trim_space s =
     text_of (rev (dropWhile is_blank (rev (dropWhile is_blank (units s)))))"

fun fields_from :: "string \<Rightarrow> unit_of_text list \<Rightarrow> string list" where
  "fields_from acc [] = (if acc = [] then [] else [rev acc])"
| "fields_from acc (Byte c # us) = fields_from (c # acc) us"
| "fields_from acc (Blank s # us) =
     (if acc = [] then fields_from [] us else rev acc # fields_from [] us)"

definition string_fields :: "string \<Rightarrow> string list" where
  "string_fields s = fields_from [] (units s)"

subsection \<open>Texts of visible ASCII characters\<close>

definition visible :: "char \<Rightarrow> bool" where
  "visible c \<longleftrightarrow> 32 < (of_char c :: nat) \<and> (of_char c :: nat) < 127"

lemma visible_not_space:
  assumes "visible c"
  shows "\<not> ascii_space c" "c \<noteq> CHR 0xC2" "\<not> wide_space c b d"
  using assms by (auto simp: visible_def ascii_space_def wide_space_def)

lemma visible_space_width: "visible c \<Longrightarrow> space_width (c # cs) = 0"
  by (cases "(c # cs)" rule: space_width.cases) (simp_all add: visible_not_space)

declare units.simps(2) [simp del]

lemma units_byte: "space_width (c # cs) = 0 \<Longrightarrow> units (c # cs) = Byte c # units cs"
  by (simp add: units.simps)

lemma units_visible_append:
  "list_all visible s \<Longrightarrow> units (s @ t) = map Byte s @ units t"
  by (induction s) (simp_all add: units_byte visible_space_width)

lemma units_visible: "list_all visible s \<Longrightarrow> units s = map Byte s"
  using units_visible_append [of s "[]"] by simp

lemma units_ascii_space: "ascii_space c \<Longrightarrow> units (c # cs) = Blank [c] # units cs"
proof -
  assume a: "ascii_space c"
  then have "space_width (c # cs) = 1"
    by (cases "(c # cs)" rule: space_width.cases) auto
  then show ?thesis by (simp add: units.simps)
qed

lemma fields_from_bytes:
  "fields_from acc (map Byte s @ us) = fields_from (rev s @ acc) us"
  by (induction s arbitrary: acc) auto

lemma fields_visible: "list_all visible s \<Longrightarrow> s \<noteq> [] \<Longrightarrow> string_fields s = [s]"
  using fields_from_bytes [of "[]" s "[]"] by (simp add: string_fields_def units_visible)

lemma fields_two:
  assumes "list_all visible s" "s \<noteq> []" "list_all visible t" "t \<noteq> []"
  shows "string_fields (s @ CHR '' '' # t) = [s, t]"
  using assms fields_from_bytes [of "[]" t "[]"]
  by (simp add: string_fields_def units_visible_append units_ascii_space ascii_space_def
      fields_from_bytes units_visible)

lemma dropWhile_bytes [simp]: "dropWhile is_blank (map Byte s) = map Byte s"
  by (cases s) auto

lemma text_of_bytes [simp]: "text_of (map Byte s) = s"
  by (induction s) (auto simp: text_of_def)

lemma trim_space_visible [simp]: "list_all visible s \<Longrightarrow> trim_space s = s"
  by (simp add: trim_space_def units_visible rev_map)

section \<open>Letter case\<close>

definition ascii_upper_letter :: "char \<Rightarrow> bool" where
  "ascii_upper_letter c \<longleftrightarrow> 65 \<le> (of_char c :: nat) \<and> (of_char c :: nat) \<le> 90"

definition ascii_lower_letter :: "char \<Rightarrow> bool" where
  "ascii_lower_letter c \<longleftrightarrow> 97 \<le> (of_char c :: nat) \<and> (of_char c :: nat) \<le> 122"

definition ascii_digit :: "char \<Rightarrow> bool" where
  "ascii_digit c \<longleftrightarrow> 48 \<le> (of_char c :: nat) \<and> (of_char c :: nat) \<le> 57"

definition ascii_lower :: "char \<Rightarrow> char" where
  "ascii_lower c = (if ascii_upper_letter c then char_of ((of_char c :: nat) + 32) else c)"

definition ascii_upper :: "char \<Rightarrow> char" where
  "ascii_upper c = (if ascii_lower_letter c then char_of ((of_char c :: nat) - 32) else c)"

text \<open>
  \<open>strings.ToLower\<close>, exact where its result is compared with an ASCII text: the only runes
  outside ASCII whose lower case is an ASCII letter are U+0130 (to \<open>i\<close>) and the Kelvin sign
  U+212A (to \<open>k\<close>); every other rune outside ASCII maps to a rune outside ASCII, kept as is here.
\<close>

fun to_lower :: "string \<Rightarrow> string" where
  "to_lower [] = []"
| "to_lower [a] = [ascii_lower a]"
| "to_lower [a, b] =
     (if a = CHR 0xC4 \<and> b = CHR 0xB0 then ''i'' else ascii_lower a # to_lower [b])"
| "to_lower (a # b # c # r) =
     (if a = CHR 0xC4 \<and> b = CHR 0xB0 then CHR ''i'' # to_lower (c # r)
      else if a = CHR 0xE2 \<and> b = CHR 0x84 \<and> c = CHR 0xAA then CHR ''k'' # to_lower r
      else ascii_lower a # to_lower (b # c # r))"

text \<open>
  \<open>strings.EqualFold\<close> on ASCII texts. The operands are names of HTTP headers, which \<open>net/http\<close>
  restricts to ASCII, and the scheme \<open>bearer\<close>, none of whose letters folds to a rune outside ASCII.
\<close>

definition equal_fold :: "string \<Rightarrow> string \<Rightarrow> bool" where
  "equal_fold s t \<longleftrightarrow> map ascii_lower s = map ascii_lower t"

lemma equal_fold_refl [simp]: "equal_fold s s"
  by (simp add: equal_fold_def)

lemma equal_fold_sym: "equal_fold s t \<longleftrightarrow> equal_fold t s"
  by (auto simp: equal_fold_def)

lemma equal_fold_trans: "equal_fold s t \<Longrightarrow> equal_fold t u \<Longrightarrow> equal_fold s u"
  by (simp add: equal_fold_def)

lemma ascii_lower_idem [simp]: "ascii_lower (ascii_lower c) = ascii_lower c"
  by (auto simp: ascii_lower_def ascii_upper_letter_def)

lemma ascii_upper_idem [simp]: "ascii_upper (ascii_upper c) = ascii_upper c"
  by (auto simp: ascii_upper_def ascii_lower_letter_def)

lemma ascii_lower_upper [simp]: "ascii_lower (ascii_upper c) = ascii_lower c"
  by (auto simp: ascii_upper_def ascii_lower_def ascii_lower_letter_def ascii_upper_letter_def)

lemma ascii_upper_lower [simp]: "ascii_upper (ascii_lower c) = ascii_upper c"
  by (auto simp: ascii_upper_def ascii_lower_def ascii_lower_letter_def ascii_upper_letter_def)

section \<open>Canonical header names\<close>

text \<open>
  \<open>textproto.CanonicalMIMEHeaderKey\<close>: a name with a byte that is no header token character is
  returned unchanged; otherwise the first letter and each letter after a hyphen is upper case and
  the others are lower case.
\<close>

definition header_token_char :: "char \<Rightarrow> bool" where
  "header_token_char c \<longleftrightarrow> ascii_upper_letter c \<or> ascii_lower_letter c \<or> ascii_digit c
     \<or> c \<in> set ''!#$%&*+-.^_|~'' \<or> c = CHR 0x27 \<or> c = CHR 0x60"

definition valid_header_name :: "string \<Rightarrow> bool" where
  "valid_header_name s \<longleftrightarrow> s \<noteq> [] \<and> list_all header_token_char s"

fun canonical_from :: "bool \<Rightarrow> string \<Rightarrow> string" where
  "canonical_from up [] = []"
| "canonical_from up (c # cs) =
     (if up then ascii_upper c else ascii_lower c) # canonical_from (c = CHR ''-'') cs"

definition canonical_header :: "string \<Rightarrow> string" where
  "canonical_header s = (if list_all header_token_char s then canonical_from True s else s)"

lemma ascii_case_hyphen [simp]:
  "ascii_upper c = CHR ''-'' \<longleftrightarrow> c = CHR ''-''" "ascii_lower c = CHR ''-'' \<longleftrightarrow> c = CHR ''-''"
proof -
  have "\<not> ascii_lower_letter c" if "c = CHR ''-''" using that by (simp add: ascii_lower_letter_def)
  moreover have "char_of ((of_char c :: nat) - 32) \<noteq> CHR ''-''" if "ascii_lower_letter c"
  proof
    assume "char_of ((of_char c :: nat) - 32) = CHR ''-''"
    then have "of_char (char_of ((of_char c :: nat) - 32) :: char) = (45 :: nat)" by simp
    with that show False by (auto simp: ascii_lower_letter_def)
  qed
  ultimately show "ascii_upper c = CHR ''-'' \<longleftrightarrow> c = CHR ''-''"
    by (auto simp: ascii_upper_def)
  have "\<not> ascii_upper_letter c" if "c = CHR ''-''" using that by (simp add: ascii_upper_letter_def)
  moreover have "char_of ((of_char c :: nat) + 32) \<noteq> CHR ''-''" if "ascii_upper_letter c"
  proof
    assume "char_of ((of_char c :: nat) + 32) = CHR ''-''"
    then have "of_char (char_of ((of_char c :: nat) + 32) :: char) = (45 :: nat)" by simp
    with that show False by (auto simp: ascii_upper_letter_def)
  qed
  ultimately show "ascii_lower c = CHR ''-'' \<longleftrightarrow> c = CHR ''-''"
    by (auto simp: ascii_lower_def)
qed

lemma canonical_from_fold:
  "map ascii_lower s = map ascii_lower t \<Longrightarrow> canonical_from up s = canonical_from up t"
proof (induction s arbitrary: t up)
  case (Cons c s)
  then obtain d t' where t: "t = d # t'" "ascii_lower c = ascii_lower d"
      "map ascii_lower s = map ascii_lower t'"
    by auto
  then have "ascii_upper c = ascii_upper d" "c = CHR ''-'' \<longleftrightarrow> d = CHR ''-''"
    by (metis ascii_upper_lower, metis ascii_case_hyphen(2))
  with t show ?case by (simp add: Cons.IH [OF t(3)])
qed simp

lemma header_token_char_lower [simp]:
  "header_token_char (ascii_lower c) \<longleftrightarrow> header_token_char c"
  by (auto simp: header_token_char_def ascii_lower_def ascii_upper_letter_def
      ascii_lower_letter_def)

lemma header_token_char_upper [simp]:
  "header_token_char (ascii_upper c) \<longleftrightarrow> header_token_char c"
  by (metis ascii_lower_upper header_token_char_lower)

lemma list_all_token_lower:
  "list_all header_token_char (map ascii_lower s) \<longleftrightarrow> list_all header_token_char s"
  by (simp add: list.pred_map comp_def)

lemma canonical_header_fold:
  assumes "equal_fold s t" "list_all header_token_char s"
  shows "canonical_header s = canonical_header t"
proof -
  have "list_all header_token_char t"
    using assms by (metis equal_fold_def list_all_token_lower)
  with assms canonical_from_fold [of s t True] show ?thesis
    by (simp add: canonical_header_def equal_fold_def)
qed

lemma lower_canonical_from [simp]: "map ascii_lower (canonical_from up s) = map ascii_lower s"
  by (induction s arbitrary: up) auto

lemma equal_fold_canonical: "equal_fold (canonical_header s) s"
  by (simp add: canonical_header_def equal_fold_def)

lemma canonical_header_idem [simp]: "canonical_header (canonical_header s) = canonical_header s"
proof (cases "list_all header_token_char s")
  case True
  then show ?thesis
    by (metis canonical_header_fold equal_fold_canonical equal_fold_sym)
next
  case False
  then show ?thesis by (simp add: canonical_header_def)
qed

section \<open>Replacing\<close>

text \<open>
  \<open>strings.NewReplacer\<close> with the old/new pairs in argument order: at each position the first pair
  whose old text matches is replaced, without overlap.
\<close>

fun match_pair :: "(string \<times> string) list \<Rightarrow> string \<Rightarrow> (string \<times> string) option" where
  "match_pair [] s = None"
| "match_pair ((old, new) # ps) s =
     (if old \<noteq> [] \<and> has_prefix s old then Some (new, drop (length old) s) else match_pair ps s)"

lemma match_pair_shorter:
  "match_pair ps s = Some (new, rest) \<Longrightarrow> length rest < length s"
  by (induction ps) (auto simp: has_prefix_iff split: if_splits)

function replace_pairs :: "(string \<times> string) list \<Rightarrow> string \<Rightarrow> string" where
  "replace_pairs ps [] = []"
| "replace_pairs ps (c # cs) =
     (case match_pair ps (c # cs) of
        Some (new, rest) \<Rightarrow> new @ replace_pairs ps rest
      | None \<Rightarrow> c # replace_pairs ps cs)"
  by pat_completeness auto
termination
  by (relation "measure (\<lambda>(ps, s). length s)") (auto dest: match_pair_shorter)

lemma match_pair_single:
  "match_pair ps (c # cs) = None \<Longrightarrow> ([c], new) \<notin> set ps"
  by (induction ps) (auto simp: has_prefix_def split: if_splits)

lemma match_pair_new:
  "match_pair ps s = Some (new, rest) \<Longrightarrow> \<exists>old. (old, new) \<in> set ps"
  by (induction ps) (auto split: if_splits)

text \<open>A byte that is replaced on its own, and is in no replacement, is gone from the result.\<close>

lemma replace_pairs_removes:
  assumes "([c], new) \<in> set ps" "\<And>old new. (old, new) \<in> set ps \<Longrightarrow> c \<notin> set new"
  shows "c \<notin> set (replace_pairs ps s)"
  using assms
proof (induction ps s rule: replace_pairs.induct)
  case (2 ps d cs)
  show ?case
  proof (cases "match_pair ps (d # cs)")
    case None
    with 2 match_pair_single [OF None, of new] show ?thesis by auto
  next
    case (Some p)
    then obtain new' rest where p: "match_pair ps (d # cs) = Some (new', rest)" by (cases p) auto
    with match_pair_new [OF p] 2 show ?thesis by auto
  qed
qed simp

end
