(* ===== verification/GoFormat.thy ===== *)
theory GoFormat
  imports GoStrings
begin

text \<open>
  Numbers and times as text: \<open>hex.EncodeToString\<close>, the verbs \<open>%d\<close> and \<open>%04d\<close> of \<open>fmt\<close>, and the
  part of \<open>time.Time\<close> the gateway uses (its wall clock fields, \<open>IsZero\<close> and \<open>Format\<close> with the
  layouts of the usage tables).
\<close>

section \<open>Hexadecimal\<close>

definition hex_digit :: "nat \<Rightarrow> char" where
  "hex_digit n = (if n < 10 then char_of (48 + n) else char_of (87 + n))"

fun hex_encode :: "string \<Rightarrow> string" where
  "hex_encode [] = []"
| "hex_encode (b # bs) =
     hex_digit ((of_char b :: nat) div 16) # hex_digit ((of_char b :: nat) mod 16)
       # hex_encode bs"

lemma hex_digit_code: "n < 16 \<Longrightarrow>
  (of_char (hex_digit n) :: nat) = (if n < 10 then 48 + n else 87 + n)"
  by (simp add: hex_digit_def)

lemma hex_digit_inject: "m < 16 \<Longrightarrow> n < 16 \<Longrightarrow> hex_digit m = hex_digit n \<longleftrightarrow> m = n"
  by (auto dest!: arg_cong [where f = "of_char :: char \<Rightarrow> nat"]
      simp: hex_digit_code split: if_splits)

lemma visible_hex_digit: "n < 16 \<Longrightarrow> visible (hex_digit n)"
  by (simp add: visible_def hex_digit_code)

lemma byte_below: "(of_char (b :: char) :: nat) < 256"
  by (rule nat_of_char_less_256)

lemma hex_encode_inject: "hex_encode s = hex_encode t \<longleftrightarrow> s = t"
proof (induction s arbitrary: t)
  case Nil
  show ?case by (cases t) auto
next
  case (Cons b s)
  show ?case
  proof (cases t)
    case (Cons c t')
    have "(of_char b :: nat) = of_char c
      \<longleftrightarrow> (of_char b :: nat) div 16 = of_char c div 16
        \<and> (of_char b :: nat) mod 16 = of_char c mod 16"
      by (metis div_mult_mod_eq)
    then show ?thesis
      using byte_below [of b] byte_below [of c] Cons.IH
      by (simp add: Cons hex_digit_inject less_mult_imp_div_less)
  qed simp
qed

lemma length_hex_encode [simp]: "length (hex_encode s) = 2 * length s"
  by (induction s) auto

lemma visible_hex_encode: "list_all visible (hex_encode s)"
  by (induction s)
     (auto intro!: visible_hex_digit simp: less_mult_imp_div_less nat_of_char_less_256)

section \<open>Decimals\<close>

fun show_nat :: "nat \<Rightarrow> string" where
  "show_nat n = (if n < 10 then [char_of (48 + n)]
                 else show_nat (n div 10) @ [char_of (48 + n mod 10)])"

declare show_nat.simps [simp del]

definition show_int :: "int \<Rightarrow> string" where
  "show_int i = (if i < 0 then CHR ''-'' # show_nat (nat (- i)) else show_nat (nat i))"

definition pad_zeros :: "nat \<Rightarrow> string \<Rightarrow> string" where
  "pad_zeros w s = replicate (w - length s) (CHR ''0'') @ s"

text \<open>\<open>%04d\<close> counts the sign in the width; the year of a time layout does not.\<close>

definition sprintf_04d :: "int \<Rightarrow> string" where
  "sprintf_04d i =
     (if i < 0 then CHR ''-'' # pad_zeros 3 (show_nat (nat (- i)))
      else pad_zeros 4 (show_nat (nat i)))"

definition append_int :: "int \<Rightarrow> nat \<Rightarrow> string" where
  "append_int i w =
     (if i < 0 then CHR ''-'' # pad_zeros w (show_nat (nat (- i)))
      else pad_zeros w (show_nat (nat i)))"

section \<open>Times\<close>

record go_time =
  t_year :: int
  t_month :: nat
  t_day :: nat
  t_hour :: nat
  t_minute :: nat
  t_second :: nat
  t_nsec :: nat
  t_offset :: int  \<comment> \<open>seconds east of UTC\<close>

definition days_from_civil :: "int \<Rightarrow> nat \<Rightarrow> nat \<Rightarrow> int" where
  "days_from_civil y0 m d =
     (let y = (if m \<le> 2 then y0 - 1 else y0);
          era = y div 400;
          yoe = y - era * 400;
          doy = (153 * (int m + (if m > 2 then -3 else 9)) + 2) div 5 + int d - 1;
          doe = yoe * 365 + yoe div 4 - yoe div 100 + doy
      in era * 146097 + doe - 719468)"

text \<open>Seconds since the instant of the zero \<open>time.Time\<close>, 1 January of year 1 at 00:00 UTC.\<close>

definition abs_seconds :: "go_time \<Rightarrow> int" where
  "abs_seconds t =
     (days_from_civil (t_year t) (t_month t) (t_day t) + 719162) * 86400
     + int (t_hour t) * 3600 + int (t_minute t) * 60 + int (t_second t) - t_offset t"

definition time_is_zero :: "go_time \<Rightarrow> bool" where
  "time_is_zero t \<longleftrightarrow> abs_seconds t = 0 \<and> t_nsec t = 0"

definition zero_time :: go_time where
  "zero_time = \<lparr>t_year = 1, t_month = 1, t_day = 1, t_hour = 0, t_minute = 0, t_second = 0,
     t_nsec = 0, t_offset = 0\<rparr>"

lemma zero_time_is_zero [simp]: "time_is_zero zero_time"
  by (simp add: time_is_zero_def abs_seconds_def zero_time_def days_from_civil_def)

text \<open>The layouts \<open>2006-01-02\<close> and \<open>2006-01\<close>.\<close>

definition format_month :: "go_time \<Rightarrow> string" where
  "format_month t = append_int (t_year t) 4 @ ''-'' @ append_int (int (t_month t)) 2"

definition format_date :: "go_time \<Rightarrow> string" where
  "format_date t = format_month t @ ''-'' @ append_int (int (t_day t)) 2"

definition date_month :: "string \<Rightarrow> string" where
  "date_month d = take (length d - 3) d"

text \<open>The layout \<open>02/Jan/2006:15:04:05 -0700\<close>; the minutes of the zone truncate towards zero.\<close>

definition short_months :: "string list" where
  "short_months = [''Jan'', ''Feb'', ''Mar'', ''Apr'', ''May'', ''Jun'', ''Jul'', ''Aug'', ''Sep'',
     ''Oct'', ''Nov'', ''Dec'']"

definition short_month :: "nat \<Rightarrow> string" where
  "short_month m = (if 1 \<le> m \<and> m \<le> 12 then short_months ! (m - 1) else [])"

definition format_zone :: "int \<Rightarrow> string" where
  "format_zone offset =
     (let zone = \<bar>offset\<bar> div 60
      in (if offset \<le> -60 then ''-'' else ''+'') @ append_int (zone div 60) 2 @ append_int (zone mod 60) 2)"

definition format_access :: "go_time \<Rightarrow> string" where
  "format_access t =
     append_int (int (t_day t)) 2 @ ''/'' @ short_month (t_month t) @ ''/'' @ append_int (t_year t) 4
       @ '':'' @ append_int (int (t_hour t)) 2 @ '':'' @ append_int (int (t_minute t)) 2
       @ '':'' @ append_int (int (t_second t)) 2 @ '' '' @ format_zone (t_offset t)"

lemma append_int_2: "n < 100 \<Longrightarrow> length (append_int (int n) 2) = 2"
  by (auto simp: append_int_def pad_zeros_def show_nat.simps [of n] show_nat.simps [of "n div 10"])

text \<open>The month of a usage row is determined by its date.\<close>

lemma date_month_format: "t_day t < 100 \<Longrightarrow> date_month (format_date t) = format_month t"
  by (simp add: format_date_def date_month_def append_int_2)

end
