(* ===== verification/KeyStore.thy ===== *)
theory KeyStore
  imports GoFormat
begin

text \<open>
  The in-memory credential store of \<open>internal/keystore/store.go\<close>: two Go maps over the same
  records, one by UUID for the administrator and one by key hash for the proxy. SHA-256 is the
  argument \<open>sha\<close> of the operations (every theorem holds for any digest function) and the draws of
  \<open>uuid.NewRandom\<close> and \<open>rand.Read\<close> are inputs of \<open>AddKey\<close>, with their errors. Each method holds
  the store's mutex for its whole body, so a method is one atomic step on the state (\<open>StoreLock\<close>
  proves that this is so; the log lines are in \<open>AuditLog\<close>). Records are
  never written after \<open>AddKey\<close> built them, so the two maps hold the same values for good.
\<close>

section \<open>State and operations\<close>

record key_record =
  kr_UUID :: string
  kr_Alias :: string
  kr_Route :: string
  kr_RealKey :: string
  kr_InternalKey :: string
  kr_KeyHash :: string

record key_store =
  ks_keys :: "(string, key_record) gomap"
  ks_byHash :: "(string, key_record) gomap"

datatype keystore_error =
    DuplicateCredential string  \<comment> \<open>the alias it is registered under\<close>
  | IdentityFailed string
  | EntropyFailed string

definition NewStore :: key_store where
  "NewStore = \<lparr>ks_keys = [], ks_byHash = []\<rparr>"

definition hashInternalKey :: "(string \<Rightarrow> string) \<Rightarrow> string \<Rightarrow> string" where
  "hashInternalKey sha internalKey = hex_encode (sha internalKey)"

definition duplicate_check ::
  "string \<Rightarrow> string \<Rightarrow> key_record \<Rightarrow> keystore_error option" where
  "duplicate_check route realKey r =
     (if kr_Route r = route \<and> kr_RealKey r = realKey
      then Some (DuplicateCredential (kr_Alias r)) else None)"

definition internal_key_of :: "string \<Rightarrow> string" where
  "internal_key_of bytes = ''sk-local-'' @ hex_encode bytes"

definition new_record ::
  "(string \<Rightarrow> string) \<Rightarrow> string \<Rightarrow> string \<Rightarrow> string \<Rightarrow> string \<Rightarrow> string \<Rightarrow> key_record" where
  "new_record sha route realKey al uid bytes =
     \<lparr>kr_UUID = uid, kr_Alias = al, kr_Route = route, kr_RealKey = realKey,
      kr_InternalKey = internal_key_of bytes,
      kr_KeyHash = hashInternalKey sha (internal_key_of bytes)\<rparr>"

definition AddKey ::
  "(string \<Rightarrow> string) \<Rightarrow> string \<Rightarrow> string \<Rightarrow> string \<Rightarrow> string + string \<Rightarrow> string + string
     \<Rightarrow> key_store \<Rightarrow> (keystore_error + key_record) \<times> key_store" where
  "AddKey sha route realKey al uuid_draw rand_draw s =
     (case first_error (duplicate_check route realKey) (map snd (ks_keys s)) of
        Some e \<Rightarrow> (Inl e, s)
      | None \<Rightarrow>
          (case uuid_draw of
             Inl m \<Rightarrow> (Inl (IdentityFailed m), s)
           | Inr uid \<Rightarrow>
               (case rand_draw of
                  Inl m \<Rightarrow> (Inl (EntropyFailed m), s)
                | Inr bytes \<Rightarrow>
                    (let record = new_record sha route realKey al uid bytes
                     in (Inr record,
                         s\<lparr>ks_keys := AList.update (kr_UUID record) record (ks_keys s),
                           ks_byHash := AList.update (kr_KeyHash record) record (ks_byHash s)\<rparr>)))))"

definition DeleteKey :: "string \<Rightarrow> key_store \<Rightarrow> bool \<times> key_store" where
  "DeleteKey uid s =
     (case map_of (ks_keys s) uid of
        None \<Rightarrow> (False, s)
      | Some record \<Rightarrow>
          (True, s\<lparr>ks_keys := AList.delete uid (ks_keys s),
                   ks_byHash := AList.delete (kr_KeyHash record) (ks_byHash s)\<rparr>))"

definition ListKeys :: "key_store \<Rightarrow> key_record list" where
  "ListKeys s = map snd (ks_keys s)"

definition GetKeyByInternal ::
  "(string \<Rightarrow> string) \<Rightarrow> key_store \<Rightarrow> string \<Rightarrow> key_record option" where
  "GetKeyByInternal sha s internalKey = map_of (ks_byHash s) (hashInternalKey sha internalKey)"

definition MaskKey :: "string \<Rightarrow> string" where
  "MaskKey key =
     (let n = length key
      in if n < 4 then ''******''
         else if n \<le> 12 then take 4 key @ ''******''
         else if n > 30 then take 12 key @ ''******''
         else take 8 key @ ''******'')"

section \<open>Well-formed stores\<close>

definition records :: "key_store \<Rightarrow> key_record set" where
  "records s = snd ` set (ks_keys s)"

definition store_ok :: "(string \<Rightarrow> string) \<Rightarrow> key_store \<Rightarrow> bool" where
  "store_ok sha s \<longleftrightarrow>
     gmap_ok (ks_keys s) \<and> gmap_ok (ks_byHash s)
     \<and> (\<forall>u r. map_of (ks_keys s) u = Some r \<longrightarrow>
          kr_UUID r = u \<and> kr_KeyHash r = hashInternalKey sha (kr_InternalKey r)
          \<and> map_of (ks_byHash s) (kr_KeyHash r) = Some r)
     \<and> (\<forall>h r. map_of (ks_byHash s) h = Some r \<longrightarrow>
          kr_KeyHash r = h \<and> map_of (ks_keys s) (kr_UUID r) = Some r)
     \<and> (\<forall>u v r q. map_of (ks_keys s) u = Some r \<longrightarrow> map_of (ks_keys s) v = Some q \<longrightarrow>
          kr_Route r = kr_Route q \<longrightarrow> kr_RealKey r = kr_RealKey q \<longrightarrow> u = v)"

lemma store_okD:
  assumes "store_ok sha s"
  shows "gmap_ok (ks_keys s)" "gmap_ok (ks_byHash s)"
    and "map_of (ks_keys s) u = Some r \<Longrightarrow> kr_UUID r = u"
    and "map_of (ks_keys s) u = Some r \<Longrightarrow>
      kr_KeyHash r = hashInternalKey sha (kr_InternalKey r)"
    and "map_of (ks_keys s) u = Some r \<Longrightarrow> map_of (ks_byHash s) (kr_KeyHash r) = Some r"
    and "map_of (ks_byHash s) h = Some r \<Longrightarrow> kr_KeyHash r = h"
    and "map_of (ks_byHash s) h = Some r \<Longrightarrow> map_of (ks_keys s) (kr_UUID r) = Some r"
    and "map_of (ks_keys s) u = Some r \<Longrightarrow> map_of (ks_keys s) v = Some q \<Longrightarrow>
      kr_Route r = kr_Route q \<Longrightarrow> kr_RealKey r = kr_RealKey q \<Longrightarrow> u = v"
  using assms unfolding store_ok_def by blast+

lemma store_okI:
  assumes "gmap_ok (ks_keys s)" "gmap_ok (ks_byHash s)"
    and "\<And>u r. map_of (ks_keys s) u = Some r \<Longrightarrow>
      kr_UUID r = u \<and> kr_KeyHash r = hashInternalKey sha (kr_InternalKey r)
      \<and> map_of (ks_byHash s) (kr_KeyHash r) = Some r"
    and "\<And>h r. map_of (ks_byHash s) h = Some r \<Longrightarrow>
      kr_KeyHash r = h \<and> map_of (ks_keys s) (kr_UUID r) = Some r"
    and "\<And>u v r q. map_of (ks_keys s) u = Some r \<Longrightarrow> map_of (ks_keys s) v = Some q \<Longrightarrow>
      kr_Route r = kr_Route q \<Longrightarrow> kr_RealKey r = kr_RealKey q \<Longrightarrow> u = v"
  shows "store_ok sha s"
  using assms unfolding store_ok_def by blast

lemma records_ex: "gmap_ok (ks_keys s) \<Longrightarrow> r \<in> records s \<longleftrightarrow> (\<exists>u. map_of (ks_keys s) u = Some r)"
  unfolding records_def by (force simp flip: gmap_mem_iff)

lemma records_iff:
  "store_ok sha s \<Longrightarrow> r \<in> records s \<longleftrightarrow> map_of (ks_keys s) (kr_UUID r) = Some r"
  using store_okD(1) store_okD(3) records_ex by metis

lemma NewStore_ok [inv_intros]: "store_ok sha NewStore"
  by (simp add: store_ok_def NewStore_def)

lemma no_duplicate_iff:
  "first_error (duplicate_check route realKey) (map snd (ks_keys s)) = None
   \<longleftrightarrow> (\<forall>r \<in> records s. \<not> (kr_Route r = route \<and> kr_RealKey r = realKey))"
  by (auto simp: records_def duplicate_check_def split: if_splits)

text \<open>\<open>AddKey\<close> has three errors, which change nothing, and one success.\<close>

lemma AddKey_cases:
  obtains (err) e where "AddKey sha route realKey al ud rd s = (Inl e, s)"
  | (ok) uid bytes r where "ud = Inr uid" "rd = Inr bytes"
      "r = new_record sha route realKey al uid bytes"
      "\<forall>q \<in> records s. \<not> (kr_Route q = route \<and> kr_RealKey q = realKey)"
      "AddKey sha route realKey al ud rd s =
        (Inr r, s\<lparr>ks_keys := AList.update uid r (ks_keys s),
                  ks_byHash := AList.update (kr_KeyHash r) r (ks_byHash s)\<rparr>)"
  by (cases "first_error (duplicate_check route realKey) (map snd (ks_keys s))"; cases ud; cases rd)
     (simp_all add: AddKey_def new_record_def Let_def no_duplicate_iff del: first_error_None_iff)

definition fresh_for :: "(string \<Rightarrow> string) \<Rightarrow> string \<Rightarrow> string \<Rightarrow> key_store \<Rightarrow> bool" where
  "fresh_for sha uid bytes s \<longleftrightarrow>
     map_of (ks_keys s) uid = None
     \<and> map_of (ks_byHash s) (hashInternalKey sha (internal_key_of bytes)) = None"

lemma new_record_sel [simp]:
  "kr_UUID (new_record sha route realKey al uid bytes) = uid"
  "kr_Alias (new_record sha route realKey al uid bytes) = al"
  "kr_Route (new_record sha route realKey al uid bytes) = route"
  "kr_RealKey (new_record sha route realKey al uid bytes) = realKey"
  "kr_InternalKey (new_record sha route realKey al uid bytes) = internal_key_of bytes"
  "kr_KeyHash (new_record sha route realKey al uid bytes)
     = hashInternalKey sha (internal_key_of bytes)"
  by (simp_all add: new_record_def)

lemma insert_record_ok:
  assumes ok: "store_ok sha s" and fr: "fresh_for sha uid bytes s"
    and r: "r = new_record sha route realKey al uid bytes"
    and new: "\<forall>q \<in> records s. \<not> (kr_Route q = route \<and> kr_RealKey q = realKey)"
  shows "store_ok sha (s\<lparr>ks_keys := AList.update uid r (ks_keys s),
                        ks_byHash := AList.update (kr_KeyHash r) r (ks_byHash s)\<rparr>)"
proof -
  have keys_new: "kr_Route q \<noteq> route \<or> kr_RealKey q \<noteq> realKey"
    if "map_of (ks_keys s) v = Some q" for v q
    using that new records_ex [OF store_okD(1) [OF ok]] by blast
  have hash_new: "kr_KeyHash q \<noteq> kr_KeyHash r" if "map_of (ks_keys s) v = Some q" for v q
    using store_okD(5) [OF ok that] fr by (auto simp: fresh_for_def r)
  have uid_new: "kr_UUID q \<noteq> uid" if "map_of (ks_byHash s) h = Some q" for h q
    using store_okD(7) [OF ok that] fr by (auto simp: fresh_for_def)
  show ?thesis
  proof (rule store_okI, goal_cases)
    case (3 u q)
    then show ?case
      using hash_new store_okD(3-5) [OF ok] by (auto simp: r split: if_splits)
  next
    case (4 h q)
    then show ?case
      using uid_new store_okD(6,7) [OF ok] by (auto simp: r split: if_splits)
  next
    case (5 u v p q)
    then show ?case
      using keys_new store_okD(8) [OF ok] by (fastforce simp: r split: if_splits)
  qed (use store_okD(1,2) [OF ok] in simp_all)
qed

lemma AddKey_ok [inv_intros]:
  assumes "store_ok sha s"
    and "\<And>uid bytes. ud = Inr uid \<Longrightarrow> rd = Inr bytes \<Longrightarrow> fresh_for sha uid bytes s"
  shows "store_ok sha (snd (AddKey sha route realKey al ud rd s))"
proof (cases rule: AddKey_cases [of sha route realKey al ud rd s])
  case (err e)
  with assms show ?thesis by simp
next
  case (ok uid bytes r)
  then show ?thesis
    using insert_record_ok [OF assms(1) assms(2) [OF ok(1,2)] ok(3,4)] by simp
qed

lemma DeleteKey_ok [inv_intros]:
  assumes ok: "store_ok sha s"
  shows "store_ok sha (snd (DeleteKey uid s))"
proof (cases "map_of (ks_keys s) uid")
  case None
  with ok show ?thesis by (simp add: DeleteKey_def)
next
  case (Some r)
  have hash: "kr_KeyHash q \<noteq> kr_KeyHash r" if "map_of (ks_keys s) v = Some q" "v \<noteq> uid" for v q
  proof
    assume "kr_KeyHash q = kr_KeyHash r"
    then have "q = r"
      using store_okD(5) [OF ok that(1)] store_okD(5) [OF ok Some] by (metis option.inject)
    then show False
      using store_okD(3) [OF ok that(1)] store_okD(3) [OF ok Some] that(2) by simp
  qed
  have uid: "kr_UUID q \<noteq> uid" if "map_of (ks_byHash s) h = Some q" "h \<noteq> kr_KeyHash r" for h q
    using that store_okD(6,7) [OF ok that(1)] Some by auto
  show ?thesis
  proof (rule store_okI, goal_cases)
    case (3 u q)
    then show ?case
      using hash store_okD(3-5) [OF ok] by (auto simp: DeleteKey_def Some split: if_splits)
  next
    case (4 h q)
    then show ?case
      using uid store_okD(6,7) [OF ok] by (auto simp: DeleteKey_def Some split: if_splits)
  next
    case (5 u v p q)
    then show ?case
      using store_okD(8) [OF ok] by (fastforce simp: DeleteKey_def Some split: if_splits)
  qed (use store_okD(1,2) [OF ok] in \<open>simp_all add: DeleteKey_def Some\<close>)
qed

section \<open>What the operations do to the pool of records\<close>

lemma records_AddKey:
  assumes "AddKey sha route realKey al (Inr uid) (Inr bytes) s = (Inr r, s')"
    and fr: "fresh_for sha uid bytes s"
  shows "r = new_record sha route realKey al uid bytes" "records s' = insert r (records s)"
proof -
  show r: "r = new_record sha route realKey al uid bytes"
    using assms(1) by (cases rule: AddKey_cases [of sha route realKey al "Inr uid" "Inr bytes" s])
      simp_all
  have "ks_keys s' = AList.update uid r (ks_keys s)"
    using assms(1) by (cases rule: AddKey_cases [of sha route realKey al "Inr uid" "Inr bytes" s])
      auto
  then have "ks_keys s' = ks_keys s @ [(uid, r)]"
    using fr by (simp add: fresh_for_def update_fresh)
  then show "records s' = insert r (records s)" by (simp add: records_def)
qed

lemma keys_DeleteKey:
  "map_of (ks_keys (snd (DeleteKey uid s))) = (map_of (ks_keys s))(uid := None)"
  by (cases "map_of (ks_keys s) uid") (auto simp: DeleteKey_def fun_eq_iff)

lemma records_DeleteKey:
  assumes ok: "store_ok sha s"
  shows "records (snd (DeleteKey uid s)) = {r \<in> records s. kr_UUID r \<noteq> uid}"
  by (auto simp: records_iff [OF DeleteKey_ok [OF ok]] records_iff [OF ok] keys_DeleteKey
      split: if_splits)

lemma DeleteKey_found:
  assumes ok: "store_ok sha s"
  shows "fst (DeleteKey uid s) \<longleftrightarrow> (\<exists>r \<in> records s. kr_UUID r = uid)"
proof (cases "map_of (ks_keys s) uid")
  case None
  then show ?thesis using records_iff [OF ok] by (auto simp: DeleteKey_def)
next
  case (Some r)
  with store_okD(3) [OF ok Some] have "r \<in> records s" by (simp add: records_iff [OF ok])
  with Some store_okD(3) [OF ok Some] show ?thesis by (auto simp: DeleteKey_def)
qed

lemma GetKey_sound:
  assumes ok: "store_ok sha s" and get: "GetKeyByInternal sha s k = Some r"
  shows "r \<in> records s"
    and "hashInternalKey sha (kr_InternalKey r) = hashInternalKey sha k"
proof -
  have m: "map_of (ks_byHash s) (hashInternalKey sha k) = Some r"
    using get by (simp add: GetKeyByInternal_def)
  note keys = store_okD(7) [OF ok m]
  show "r \<in> records s" using keys by (simp add: records_iff [OF ok])
  show "hashInternalKey sha (kr_InternalKey r) = hashInternalKey sha k"
    using store_okD(6) [OF ok m] store_okD(4) [OF ok keys] by simp
qed

lemma GetKey_complete:
  assumes "store_ok sha s" "r \<in> records s"
  shows "GetKeyByInternal sha s (kr_InternalKey r) = Some r"
  using assms store_okD(4,5) [OF assms(1)] records_iff [OF assms(1)]
  by (auto simp: GetKeyByInternal_def)

section \<open>The interface of a credential pool\<close>

text \<open>
  What the proxy and the administrator rely on: looking a presented key up finds exactly the
  registered records whose digest it has, and revoking by UUID removes exactly that record.
\<close>

locale credential_pool =
  fixes pool :: "'s \<Rightarrow> key_record set"
    and lookup :: "'s \<Rightarrow> string \<Rightarrow> key_record option"
    and revoke :: "string \<Rightarrow> 's \<Rightarrow> 's"
    and digest :: "string \<Rightarrow> string"
    and valid :: "'s \<Rightarrow> bool"
  assumes lookup_sound: "valid s \<Longrightarrow> lookup s k = Some r \<Longrightarrow>
      r \<in> pool s \<and> digest (kr_InternalKey r) = digest k"
    and lookup_complete: "valid s \<Longrightarrow> r \<in> pool s \<Longrightarrow> digest (kr_InternalKey r) = digest k \<Longrightarrow>
      lookup s k = Some r"
    and pool_uuid: "valid s \<Longrightarrow> r \<in> pool s \<Longrightarrow> q \<in> pool s \<Longrightarrow> kr_UUID r = kr_UUID q \<Longrightarrow> r = q"
    and revoke_pool: "valid s \<Longrightarrow> pool (revoke uid s) = {r \<in> pool s. kr_UUID r \<noteq> uid}"
    and revoke_valid: "valid s \<Longrightarrow> valid (revoke uid s)"
begin

lemma lookup_iff:
  "valid s \<Longrightarrow> lookup s k = Some r \<longleftrightarrow> r \<in> pool s \<and> digest (kr_InternalKey r) = digest k"
  using lookup_sound lookup_complete by blast

lemma lookup_None:
  "valid s \<Longrightarrow> lookup s k = None \<longleftrightarrow> (\<forall>r \<in> pool s. digest (kr_InternalKey r) \<noteq> digest k)"
  using lookup_iff [of s k] by (cases "lookup s k") auto

lemma pool_digest:
  "valid s \<Longrightarrow> r \<in> pool s \<Longrightarrow> q \<in> pool s \<Longrightarrow>
    digest (kr_InternalKey r) = digest (kr_InternalKey q) \<Longrightarrow> r = q"
  by (metis lookup_complete option.inject)

lemma revoked_not_found:
  assumes "valid s" "r \<in> pool s"
  shows "lookup (revoke (kr_UUID r) s) (kr_InternalKey r) = None"
  using assms by (auto simp: lookup_None revoke_pool revoke_valid dest: pool_digest)

lemma revoke_frame:
  assumes "valid s" "lookup s k = Some r" "kr_UUID r \<noteq> uid"
  shows "lookup (revoke uid s) k = Some r"
  using assms by (simp add: lookup_iff revoke_pool revoke_valid)

lemma revoke_only_shrinks:
  "valid s \<Longrightarrow> lookup (revoke uid s) k = Some r \<Longrightarrow> lookup s k = Some r"
  by (simp add: lookup_iff revoke_pool revoke_valid)

end

interpretation ks: credential_pool records "GetKeyByInternal sha" "\<lambda>uid s. snd (DeleteKey uid s)"
    "hashInternalKey sha" "store_ok sha"
  for sha
proof (unfold_locales, goal_cases)
  case (1 s k r)
  then show ?case using GetKey_sound by blast
next
  case (2 s r k)
  then show ?case using GetKey_complete [OF 2(1,2)] by (simp add: GetKeyByInternal_def)
next
  case (3 s r q)
  then show ?case by (metis option.inject records_iff)
qed (auto intro: inv_intros simp: records_DeleteKey)

lemma GetKey_AddKey:
  assumes ok: "store_ok sha s" and fr: "fresh_for sha uid bytes s"
    and add: "AddKey sha route realKey al (Inr uid) (Inr bytes) s = (Inr r, s')"
  shows "GetKeyByInternal sha s' k =
    (if hashInternalKey sha k = hashInternalKey sha (kr_InternalKey r) then Some r
     else GetKeyByInternal sha s k)"
proof -
  have "store_ok sha (snd (AddKey sha route realKey al (Inr uid) (Inr bytes) s))"
    by (rule AddKey_ok) (use ok fr in auto)
  then have ok': "store_ok sha s'" by (simp add: add)
  note pool = records_AddKey [OF add fr]
  show ?thesis
  proof (cases "hashInternalKey sha k = hashInternalKey sha (kr_InternalKey r)")
    case True
    then show ?thesis using pool by (simp add: ks.lookup_iff [OF ok'])
  next
    case False
    then have "GetKeyByInternal sha s' k = Some q \<longleftrightarrow> GetKeyByInternal sha s k = Some q" for q
      using pool by (auto simp: ks.lookup_iff [OF ok'] ks.lookup_iff [OF ok])
    with False show ?thesis by (metis option.exhaust)
  qed
qed

section \<open>Runs of the store\<close>

inductive ks_step :: "(string \<Rightarrow> string) \<Rightarrow> key_store \<Rightarrow> key_store \<Rightarrow> bool" for sha where
  ks_add: "(\<And>uid bytes. ud = Inr uid \<Longrightarrow> rd = Inr bytes \<Longrightarrow> fresh_for sha uid bytes s) \<Longrightarrow>
    ks_step sha s (snd (AddKey sha route realKey al ud rd s))"
| ks_delete: "ks_step sha s (snd (DeleteKey uid s))"

inductive_cases ks_stepE: "ks_step sha s t"

interpretation ks_run: inductive_invariant "\<lambda>s. s = NewStore" "ks_step sha" "store_ok sha"
  for sha
  by unfold_locales (auto elim!: ks_stepE intro: inv_intros)

section \<open>Properties\<close>

text \<open>The abstract pool: digests to records, with no second index.\<close>

definition pool_of :: "key_store \<Rightarrow> string \<Rightarrow> key_record option" where
  "pool_of s = map_of (ks_byHash s)"

lemma ran_pool_of:
  assumes "store_ok sha s"
  shows "ran (pool_of s) = records s"
  unfolding ran_def pool_of_def
  using store_okD(5,7) [OF assms] records_iff [OF assms] by blast

lemma pool_of_DeleteKey:
  assumes ok: "store_ok sha s"
  shows "pool_of (snd (DeleteKey uid s)) h
    = (case pool_of s h of None \<Rightarrow> None | Some r \<Rightarrow> if kr_UUID r = uid then None else Some r)"
proof (cases "map_of (ks_keys s) uid")
  case None
  then have "kr_UUID q \<noteq> uid" if "pool_of s h = Some q" for q
    using store_okD(7) [OF ok that [unfolded pool_of_def]] by auto
  with None show ?thesis
    by (auto simp: DeleteKey_def split: option.splits)
next
  case (Some r)
  have "kr_UUID q \<noteq> uid" if "map_of (ks_byHash s) h = Some q" "h \<noteq> kr_KeyHash r" for q
    using that store_okD(6,7) [OF ok that(1)] Some by auto
  with Some store_okD(3,5) [OF ok Some] show ?thesis
    by (auto simp: pool_of_def DeleteKey_def split: option.splits)
qed

lemma AddKey_success:
  assumes "\<forall>q \<in> records s. \<not> (kr_Route q = route \<and> kr_RealKey q = realKey)"
  shows "AddKey sha route realKey al (Inr uid) (Inr bytes) s =
    (Inr (new_record sha route realKey al uid bytes),
     s\<lparr>ks_keys := AList.update uid (new_record sha route realKey al uid bytes) (ks_keys s),
       ks_byHash := AList.update (hashInternalKey sha (internal_key_of bytes))
         (new_record sha route realKey al uid bytes) (ks_byHash s)\<rparr>)"
  using assms no_duplicate_iff [of route realKey s]
  by (simp add: AddKey_def Let_def del: first_error_None_iff)

lemma duplicate_found:
  assumes ok: "store_ok sha s" and r: "r \<in> records s" "kr_Route r = route" "kr_RealKey r = realKey"
  shows "AddKey sha route realKey al ud rd s = (Inl (DuplicateCredential (kr_Alias r)), s)"
proof -
  have "first_error (duplicate_check route realKey) (map snd (ks_keys s)) \<noteq> None"
    using r no_duplicate_iff [of route realKey s] by blast
  then obtain e where e: "first_error (duplicate_check route realKey) (map snd (ks_keys s)) = Some e"
    by blast
  then obtain q where q: "q \<in> records s" "duplicate_check route realKey q = Some e"
    unfolding records_def by (auto dest: first_error_SomeD)
  from q(2) have d: "kr_Route q = route" "kr_RealKey q = realKey"
      "e = DuplicateCredential (kr_Alias q)"
    unfolding duplicate_check_def by (auto split: if_splits)
  have m: "map_of (ks_keys s) (kr_UUID q) = Some q" "map_of (ks_keys s) (kr_UUID r) = Some r"
    using q(1) r(1) records_iff [OF ok] by blast+
  have "kr_UUID q = kr_UUID r"
    by (rule store_okD(8) [OF ok m]) (use r d in simp_all)
  then have "q = r" using m by (metis option.inject)
  with d(3) have "e = DuplicateCredential (kr_Alias r)" by simp
  with e show ?thesis by (simp add: AddKey_def)
qed

lemma internal_key_prefix: "has_prefix (internal_key_of bytes) ''sk-local-''"
  unfolding internal_key_of_def by (rule has_prefix_append)

text \<open>A store with one credential, for the instances below.\<close>

definition sample_store :: key_store where
  "sample_store = snd (AddKey id ''/a'' ''real'' ''al'' (Inr ''u'') (Inr ''xy'') NewStore)"

definition sample_record :: key_record where
  "sample_record = new_record id ''/a'' ''real'' ''al'' ''u'' ''xy''"

lemma sample_reach: "reach (\<lambda>s. s = NewStore) (ks_step id) sample_store"
  unfolding sample_store_def
  by (rule reach_step, rule reach_init, rule refl, rule ks_add)
     (simp add: fresh_for_def NewStore_def)

lemma sample_ok: "store_ok id sample_store"
  unfolding sample_store_def
  by (rule AddKey_ok [OF NewStore_ok]) (simp add: fresh_for_def NewStore_def)

lemma sample_keys:
  "ks_keys sample_store = [(''u'', sample_record)]"
  "ks_byHash sample_store = [(hashInternalKey id (internal_key_of ''xy''), sample_record)]"
  by (simp_all add: sample_store_def sample_record_def NewStore_def AddKey_success records_def)

lemma sample_records: "records sample_store = {sample_record}"
  by (simp add: records_def sample_keys)

lemma internal_key_inject: "internal_key_of a = internal_key_of b \<longleftrightarrow> a = b"
  by (simp add: internal_key_of_def hex_encode_inject)

lemma sample_fresh: "fresh_for id ''v'' ''ab'' sample_store"
  by (simp add: fresh_for_def sample_keys hashInternalKey_def hex_encode_inject
      internal_key_inject del: hex_encode.simps)

text \<open>
  Every store that \<open>NewStore\<close>, \<open>AddKey\<close> and \<open>DeleteKey\<close> can produce (with fresh draws) is well
  formed: the two indexes hold the same records, each under its own UUID and under the digest of
  its internal key, and no two records share route and upstream key.
\<close>

theorem keystore_invariant:
  "reach (\<lambda>s. s = NewStore) (ks_step sha) s \<Longrightarrow> store_ok sha s"
  by (rule ks_run.reach_inv)

lemma keystore_invariant_witness:
  "reach (\<lambda>s. s = NewStore) (ks_step id) sample_store \<and> store_ok id sample_store"
  using keystore_invariant [OF sample_reach] sample_reach by simp

text \<open>
  Round trip of issuing a key: for a new credential \<open>AddKey\<close> succeeds and the key it returns
  finds exactly the record just stored, while every other key is looked up as before.
\<close>

theorem AddKey_GetKey_roundtrip:
  assumes "store_ok sha s" "fresh_for sha uid bytes s"
    and "\<forall>q \<in> records s. \<not> (kr_Route q = route \<and> kr_RealKey q = realKey)"
  shows "\<exists>r s'. AddKey sha route realKey al (Inr uid) (Inr bytes) s = (Inr r, s')
    \<and> kr_Route r = route \<and> kr_RealKey r = realKey \<and> kr_Alias r = al
    \<and> has_prefix (kr_InternalKey r) ''sk-local-''
    \<and> records s' = insert r (records s)
    \<and> (\<forall>k. GetKeyByInternal sha s' k
          = (if hashInternalKey sha k = hashInternalKey sha (kr_InternalKey r) then Some r
             else GetKeyByInternal sha s k))"
proof -
  note add = AddKey_success [OF assms(3), of sha al uid bytes]
  show ?thesis
    using GetKey_AddKey [OF assms(1,2) add] records_AddKey(2) [OF add assms(2)]
    unfolding add by (auto simp: internal_key_prefix)
qed

lemma AddKey_GetKey_roundtrip_witness:
  "\<exists>r s'. AddKey id ''/b'' ''real'' ''al'' (Inr ''v'') (Inr ''ab'') sample_store = (Inr r, s')
    \<and> GetKeyByInternal id s' (kr_InternalKey r) = Some r"
  using AddKey_GetKey_roundtrip [OF sample_ok sample_fresh, of "''/b''" "''real''" "''al''"]
  by (auto simp: sample_records sample_record_def)

text \<open>
  Revocation is immediate and exact: after \<open>DeleteKey\<close> of a record's UUID (which reports
  success) its key finds nothing, and the lookup of every key with another digest is unchanged.
\<close>

theorem DeleteKey_revokes:
  assumes "store_ok sha s" "r \<in> records s"
  shows "fst (DeleteKey (kr_UUID r) s)
    \<and> (\<forall>k. GetKeyByInternal sha (snd (DeleteKey (kr_UUID r) s)) k
        = (if hashInternalKey sha k = hashInternalKey sha (kr_InternalKey r) then None
           else GetKeyByInternal sha s k))"
proof (intro conjI allI)
  show "fst (DeleteKey (kr_UUID r) s)"
    using assms by (auto simp: DeleteKey_found)
  fix k
  show "GetKeyByInternal sha (snd (DeleteKey (kr_UUID r) s)) k
      = (if hashInternalKey sha k = hashInternalKey sha (kr_InternalKey r) then None
         else GetKeyByInternal sha s k)"
  proof (cases "hashInternalKey sha k = hashInternalKey sha (kr_InternalKey r)")
    case True
    with ks.revoked_not_found [OF assms] show ?thesis by (simp add: GetKeyByInternal_def)
  next
    case False
    then show ?thesis
      using ks.revoke_frame [OF assms(1), of k] ks.revoke_only_shrinks [OF assms(1), of "kr_UUID r" k]
        ks.lookup_iff [OF assms(1), of k] ks.pool_uuid [OF assms(1) _ assms(2)]
      by (cases "GetKeyByInternal sha s k";
          cases "GetKeyByInternal sha (snd (DeleteKey (kr_UUID r) s)) k") (auto, metis+)
  qed
qed

lemma DeleteKey_revokes_witness:
  "fst (DeleteKey ''u'' sample_store)
    \<and> GetKeyByInternal id (snd (DeleteKey ''u'' sample_store)) (internal_key_of ''xy'') = None"
  using DeleteKey_revokes [OF sample_ok, of sample_record]
  by (simp add: sample_records sample_record_def)

text \<open>
  The errors of \<open>AddKey\<close>, whatever order the map is iterated in: it fails with the alias of the
  one record that has the same route and upstream key, or else with the failed draw, and a failing
  call leaves the store exactly as it was.
\<close>

theorem AddKey_errors:
  assumes "store_ok sha s"
  shows "(\<forall>r \<in> records s. kr_Route r = route \<longrightarrow> kr_RealKey r = realKey \<longrightarrow>
        AddKey sha route realKey al ud rd s = (Inl (DuplicateCredential (kr_Alias r)), s))
    \<and> ((\<forall>r \<in> records s. kr_Route r = route \<longrightarrow> kr_RealKey r \<noteq> realKey) \<longrightarrow>
        (case (ud, rd) of
           (Inl m, _) \<Rightarrow> AddKey sha route realKey al ud rd s = (Inl (IdentityFailed m), s)
         | (Inr uid, Inl m) \<Rightarrow> AddKey sha route realKey al ud rd s = (Inl (EntropyFailed m), s)
         | (Inr uid, Inr bytes) \<Rightarrow> fst (AddKey sha route realKey al ud rd s)
             = Inr (new_record sha route realKey al uid bytes)))"
proof (intro conjI impI ballI)
  fix r
  assume "r \<in> records s" "kr_Route r = route" "kr_RealKey r = realKey"
  then show "AddKey sha route realKey al ud rd s = (Inl (DuplicateCredential (kr_Alias r)), s)"
    by (rule duplicate_found [OF assms])
next
  assume new: "\<forall>r \<in> records s. kr_Route r = route \<longrightarrow> kr_RealKey r \<noteq> realKey"
  then have "first_error (duplicate_check route realKey) (map snd (ks_keys s)) = None"
    using no_duplicate_iff [of route realKey s] by blast
  then show "case (ud, rd) of
       (Inl m, _) \<Rightarrow> AddKey sha route realKey al ud rd s = (Inl (IdentityFailed m), s)
     | (Inr uid, Inl m) \<Rightarrow> AddKey sha route realKey al ud rd s = (Inl (EntropyFailed m), s)
     | (Inr uid, Inr bytes) \<Rightarrow> fst (AddKey sha route realKey al ud rd s)
         = Inr (new_record sha route realKey al uid bytes)"
    by (simp add: AddKey_def Let_def del: first_error_None_iff split: sum.splits)
qed

lemma AddKey_errors_witness:
  "AddKey id ''/a'' ''real'' ''other'' (Inr ''v'') (Inr ''ab'') sample_store
    = (Inl (DuplicateCredential ''al''), sample_store)"
  using AddKey_errors [OF sample_ok, of "''/a''" "''real''" "''other''" "Inr ''v''" "Inr ''ab''"]
  by (simp add: sample_records sample_record_def)

lemma distinct_ListKeys:
  assumes "store_ok sha s"
  shows "distinct (ListKeys s)"
proof -
  have "inj_on snd (set (ks_keys s))"
  proof (rule inj_onI, clarsimp)
    fix u v r
    assume "(u, r) \<in> set (ks_keys s)" "(v, r) \<in> set (ks_keys s)"
    then show "u = v"
      using store_okD(3) [OF assms] by (metis gmap_mem_iff store_okD(1) [OF assms])
  qed
  then show ?thesis using store_okD(1) [OF assms] by (simp add: ListKeys_def distinct_map)
qed

lemma set_ListKeys: "set (ListKeys s) = records s"
  by (simp add: ListKeys_def records_def)

text \<open>
  C34. Refinement: on well-formed stores the two-index store implements one abstract map from digests
  to records. Looking up is applying the map, and listing returns each record of the map once. Adding
  a record, with a fresh UUID and key, keeps the store well formed, updates the map at the record's
  digest and adds the record to the list; an \<open>AddKey\<close> that fails changes nothing. Deleting keeps the
  store well formed, drops the record with that UUID from the map and from the list, nothing else, and
  says whether there was one.
\<close>

theorem keystore_refines_pool:
  assumes "store_ok sha s"
  shows "GetKeyByInternal sha s k = pool_of s (hashInternalKey sha k)
    \<and> set (ListKeys s) = ran (pool_of s) \<and> distinct (ListKeys s)
    \<and> (\<forall>uid bytes r s'. fresh_for sha uid bytes s \<longrightarrow>
          AddKey sha route realKey al (Inr uid) (Inr bytes) s = (Inr r, s') \<longrightarrow>
          store_ok sha s' \<and> pool_of s' = (pool_of s)(kr_KeyHash r \<mapsto> r)
          \<and> set (ListKeys s') = insert r (set (ListKeys s)))
    \<and> (\<forall>r s'. AddKey sha route realKey al ud rd s = (Inr r, s') \<longrightarrow>
          pool_of s' = (pool_of s)(kr_KeyHash r \<mapsto> r))
    \<and> (\<forall>e s'. AddKey sha route realKey al ud rd s = (Inl e, s') \<longrightarrow> s' = s)
    \<and> store_ok sha (snd (DeleteKey uid s))
    \<and> pool_of (snd (DeleteKey uid s))
        = (\<lambda>h. case pool_of s h of None \<Rightarrow> None
             | Some r \<Rightarrow> if kr_UUID r = uid then None else Some r)
    \<and> set (ListKeys (snd (DeleteKey uid s))) = {r \<in> set (ListKeys s). kr_UUID r \<noteq> uid}
    \<and> (fst (DeleteKey uid s) \<longleftrightarrow> (\<exists>r \<in> set (ListKeys s). kr_UUID r = uid))"
proof -
  have add: "pool_of s' = (pool_of s)(kr_KeyHash r \<mapsto> r)"
    if "AddKey sha route realKey al ud rd s = (Inr r, s')" for ud rd r s'
    using that by (cases rule: AddKey_cases [of sha route realKey al ud rd s]) (auto simp: pool_of_def)
  have fails: "s' = s" if "AddKey sha route realKey al ud rd s = (Inl e, s')" for e s'
    using that by (cases rule: AddKey_cases [of sha route realKey al ud rd s]) auto
  have fresh: "store_ok sha s' \<and> set (ListKeys s') = insert r (set (ListKeys s))"
    if "fresh_for sha u bytes s" "AddKey sha route realKey al (Inr u) (Inr bytes) s = (Inr r, s')"
    for u bytes r s'
  proof
    have "store_ok sha (snd (AddKey sha route realKey al (Inr u) (Inr bytes) s))"
      by (rule AddKey_ok [OF assms]) (use that(1) in simp)
    then show "store_ok sha s'" by (simp add: that(2))
  qed (simp add: set_ListKeys records_AddKey(2) [OF that(2,1)])
  show ?thesis
    using add fails fresh DeleteKey_ok [OF assms]
    by (simp add: GetKeyByInternal_def pool_of_def [symmetric] fun_eq_iff pool_of_DeleteKey [OF assms]
        set_ListKeys ran_pool_of [OF assms] distinct_ListKeys [OF assms] records_DeleteKey [OF assms]
        DeleteKey_found [OF assms])
qed

lemma keystore_refines_pool_witness:
  "GetKeyByInternal id sample_store (internal_key_of ''xy'')
    = pool_of sample_store (hashInternalKey id (internal_key_of ''xy''))
    \<and> store_ok id (snd (DeleteKey ''u'' sample_store)) \<and> ListKeys (snd (DeleteKey ''u'' sample_store)) = []"
proof -
  have "set (ListKeys (snd (DeleteKey ''u'' sample_store)))
      = {r \<in> set (ListKeys sample_store). kr_UUID r \<noteq> ''u''}"
    and kept: "store_ok id (snd (DeleteKey ''u'' sample_store))"
      "GetKeyByInternal id sample_store (internal_key_of ''xy'')
        = pool_of sample_store (hashInternalKey id (internal_key_of ''xy''))"
    using keystore_refines_pool [OF sample_ok] by blast+
  then have "set (ListKeys (snd (DeleteKey ''u'' sample_store))) = {}"
    by (simp add: set_ListKeys sample_records sample_record_def)
  with kept show ?thesis by simp
qed

text \<open>
  What a masked key shows: at most the first 12 bytes, never the whole key unless it is exactly
  4 bytes long, and nothing else: keys of more than 30 bytes that agree on their first 12 bytes are
  masked alike.
\<close>

theorem MaskKey_reveals:
  "(\<exists>n \<le> 12. MaskKey key = take n key @ ''******'' \<and> (length key \<noteq> 4 \<longrightarrow> key \<noteq> [] \<longrightarrow> n < length key))
   \<and> (30 < length key \<longrightarrow> 30 < length key' \<longrightarrow>
        (MaskKey key = MaskKey key' \<longleftrightarrow> take 12 key = take 12 key'))"
proof
  show "\<exists>n \<le> 12. MaskKey key = take n key @ ''******''
      \<and> (length key \<noteq> 4 \<longrightarrow> key \<noteq> [] \<longrightarrow> n < length key)"
  proof -
    let ?n = "if length key < 4 then 0 else if length key \<le> 12 then 4
      else if length key > 30 then 12 else (8::nat)"
    have "MaskKey key = take ?n key @ ''******''"
      by (simp add: MaskKey_def Let_def)
    then show ?thesis by (intro exI [of _ ?n]) auto
  qed
qed (simp add: MaskKey_def Let_def)

lemma MaskKey_reveals_witness:
  "MaskKey (replicate 31 CHR ''a'') = MaskKey (replicate 40 CHR ''a'')"
  using MaskKey_reveals [of "replicate 31 CHR ''a''" "replicate 40 CHR ''a''"] by simp

end
