(* ===== verification/UsageDb.thy ===== *)
theory UsageDb
  imports GoFormat
begin

text \<open>
  The three tables of \<open>schema/usage.sql\<close> and the statements that write them, as SQL text stands in
  \<open>internal/usage/worker.go\<close>. A numeric column holds a 64-bit integer; an addition that overflows
  makes SQLite continue in floating point, so a cell may also be a double (its bits). What the
  engine does with doubles is not in the repository: it is the argument \<open>sqlite\<close>, together with the
  text the driver stores for a Go time.
\<close>

section \<open>Cells and the engine\<close>

datatype sql_num = SqlInt int64 | SqlReal "64 word"

record sqlite =
  real_add :: "sql_num \<Rightarrow> sql_num \<Rightarrow> sql_num"
  real_sum :: "sql_num list \<Rightarrow> sql_num option"
  real_le :: "sql_num \<Rightarrow> sql_num \<Rightarrow> bool"
  real_scan :: "64 word \<Rightarrow> int64 option"
  time_text :: "go_time \<Rightarrow> string"

definition sql_add :: "sqlite \<Rightarrow> sql_num \<Rightarrow> sql_num \<Rightarrow> sql_num" where
  "sql_add E a b =
     (case (a, b) of
        (SqlInt x, SqlInt y) \<Rightarrow>
          if in_int64 (sint x + sint y) then SqlInt (x + y) else real_add E a b
      | _ \<Rightarrow> real_add E a b)"

text \<open>
  \<open>SUM\<close> over integers only is an error as soon as a running total overflows; \<open>None\<close> is that error.
\<close>

fun sum_ints :: "int64 \<Rightarrow> int64 list \<Rightarrow> int64 option" where
  "sum_ints acc [] = Some acc"
| "sum_ints acc (x # xs) =
     (if in_int64 (sint acc + sint x) then sum_ints (acc + x) xs else None)"

fun int_cells :: "sql_num list \<Rightarrow> int64 list option" where
  "int_cells [] = Some []"
| "int_cells (SqlInt x # cs) = map_option (Cons x) (int_cells cs)"
| "int_cells (SqlReal w # cs) = None"

definition sql_sum :: "sqlite \<Rightarrow> sql_num list \<Rightarrow> sql_num option" where
  "sql_sum E cs =
     (case int_cells cs of
        Some xs \<Rightarrow> map_option SqlInt (sum_ints 0 xs)
      | None \<Rightarrow> real_sum E cs)"

text \<open>\<open>Rows.Scan\<close> of a numeric cell into an \<open>int64\<close>.\<close>

definition scan_int64 :: "sqlite \<Rightarrow> sql_num \<Rightarrow> int64 option" where
  "scan_int64 E c = (case c of SqlInt x \<Rightarrow> Some x | SqlReal w \<Rightarrow> real_scan E w)"

section \<open>Tables\<close>

record usage_record =
  r_LocalKey :: string
  r_RoutePath :: string
  r_ClientIP :: string
  r_PromptTokens :: int64
  r_CompletionTokens :: int64
  r_TotalTokens :: int64
  r_CreatedAt :: go_time

text \<open>A row of \<open>daily_usages\<close> or \<open>monthly_usages\<close>; the period is the date or the month.\<close>

record usage_row =
  u_local_key :: string
  u_route_path :: string
  u_period :: string
  u_total_requests :: sql_num
  u_prompt_tokens :: sql_num
  u_completion_tokens :: sql_num
  u_tokens :: sql_num
  u_updated_at :: string

record log_row =
  l_id :: int
  l_local_key :: string
  l_route_path :: string
  l_client_ip :: string
  l_prompt_tokens :: int64
  l_completion_tokens :: int64
  l_total_tokens :: int64
  l_created_at :: string

record usage_db =
  db_logs :: "log_row list"
  db_sequence :: int  \<comment> \<open>the AUTOINCREMENT counter of \<open>usage_logs\<close>\<close>
  db_daily :: "usage_row list"
  db_monthly :: "usage_row list"

definition empty_db :: usage_db where
  "empty_db = \<lparr>db_logs = [], db_sequence = 0, db_daily = [], db_monthly = []\<rparr>"

definition row_key :: "usage_row \<Rightarrow> string \<times> string \<times> string" where
  "row_key r = (u_local_key r, u_route_path r, u_period r)"

section \<open>Statements\<close>

text \<open>\<open>INSERT INTO usage_logs\<close>; \<open>None\<close> when the row ids are exhausted.\<close>

definition insert_log :: "sqlite \<Rightarrow> usage_record \<Rightarrow> go_time \<Rightarrow> usage_db \<Rightarrow> usage_db option" where
  "insert_log E rec createdAt db =
     (if db_sequence db \<ge> 2 ^ 63 - 1 then None
      else Some (db\<lparr>db_sequence := db_sequence db + 1,
        db_logs := db_logs db @
          [\<lparr>l_id = db_sequence db + 1, l_local_key = r_LocalKey rec,
            l_route_path = r_RoutePath rec, l_client_ip = r_ClientIP rec,
            l_prompt_tokens = r_PromptTokens rec,
            l_completion_tokens = r_CompletionTokens rec,
            l_total_tokens = r_TotalTokens rec, l_created_at = time_text E createdAt\<rparr>]\<rparr>))"

text \<open>\<open>INSERT \<dots> ON CONFLICT(local_key, route_path, period) DO UPDATE\<close>, which adds the columns up.\<close>

definition conflict_update :: "sqlite \<Rightarrow> usage_row \<Rightarrow> usage_row \<Rightarrow> usage_row" where
  "conflict_update E row excluded =
     row\<lparr>u_total_requests := sql_add E (u_total_requests row) (u_total_requests excluded),
         u_prompt_tokens := sql_add E (u_prompt_tokens row) (u_prompt_tokens excluded),
         u_completion_tokens := sql_add E (u_completion_tokens row) (u_completion_tokens excluded),
         u_tokens := sql_add E (u_tokens row) (u_tokens excluded),
         u_updated_at := u_updated_at excluded\<rparr>"

fun upsert :: "sqlite \<Rightarrow> usage_row \<Rightarrow> usage_row list \<Rightarrow> usage_row list" where
  "upsert E x [] = [x]"
| "upsert E x (r # rs) =
     (if row_key r = row_key x then conflict_update E r x # rs else r # upsert E x rs)"

definition excluded_row :: "usage_record \<Rightarrow> string \<Rightarrow> string \<Rightarrow> usage_row" where
  "excluded_row rec period clock =
     \<lparr>u_local_key = r_LocalKey rec, u_route_path = r_RoutePath rec, u_period = period,
      u_total_requests = SqlInt 1, u_prompt_tokens = SqlInt (r_PromptTokens rec),
      u_completion_tokens = SqlInt (r_CompletionTokens rec),
      u_tokens = SqlInt (r_TotalTokens rec), u_updated_at = clock\<rparr>"

section \<open>The transaction\<close>

text \<open>
  Each of the five calls on the database may fail; \<open>fault\<close> says which do, with the message. The
  deferred \<open>Rollback\<close> of a transaction that was not committed restores the tables.
\<close>

datatype write_stage = BeginTx | InsertLogs | UpsertDaily | UpsertMonthly | CommitTx

text \<open>The stages are finitely many, so that quantifiers over them can be evaluated.\<close>

instantiation write_stage :: enum
begin

definition enum_write_stage :: "write_stage list" where
  "enum_write_stage = [BeginTx, InsertLogs, UpsertDaily, UpsertMonthly, CommitTx]"

definition enum_all_write_stage :: "(write_stage \<Rightarrow> bool) \<Rightarrow> bool" where
  "enum_all_write_stage P \<longleftrightarrow>
     P BeginTx \<and> P InsertLogs \<and> P UpsertDaily \<and> P UpsertMonthly \<and> P CommitTx"

definition enum_ex_write_stage :: "(write_stage \<Rightarrow> bool) \<Rightarrow> bool" where
  "enum_ex_write_stage P \<longleftrightarrow>
     P BeginTx \<or> P InsertLogs \<or> P UpsertDaily \<or> P UpsertMonthly \<or> P CommitTx"

instance
proof
  have cases: "st = BeginTx \<or> st = InsertLogs \<or> st = UpsertDaily \<or> st = UpsertMonthly \<or> st = CommitTx"
    for st by (cases st) simp_all
  then show "(UNIV :: write_stage set) = set enum_class.enum"
    by (auto simp: enum_write_stage_def)
  show "distinct (enum_class.enum :: write_stage list)" by (simp add: enum_write_stage_def)
  show "enum_class.enum_all P \<longleftrightarrow> Ball UNIV P" for P :: "write_stage \<Rightarrow> bool"
    using cases unfolding enum_all_write_stage_def by (metis UNIV_I)
  show "enum_class.enum_ex P \<longleftrightarrow> Bex UNIV P" for P :: "write_stage \<Rightarrow> bool"
    using cases unfolding enum_ex_write_stage_def by (metis UNIV_I)
qed

end

type_synonym write_fault = "write_stage \<Rightarrow> string option"

definition no_fault :: write_fault where
  "no_fault = (\<lambda>st. None)"

definition effective_created :: "usage_record \<Rightarrow> go_time \<Rightarrow> go_time" where
  "effective_created rec now =
     (if time_is_zero (r_CreatedAt rec) then now else r_CreatedAt rec)"

definition executeTripleWrite ::
  "sqlite \<Rightarrow> write_fault \<Rightarrow> go_time \<Rightarrow> string \<Rightarrow> usage_record \<Rightarrow> usage_db
     \<Rightarrow> (write_stage \<times> string) option \<times> usage_db" where
  "executeTripleWrite E fault now clock rec db =
     (case fault BeginTx of Some m \<Rightarrow> (Some (BeginTx, m), db) | None \<Rightarrow>
      let createdAt = effective_created rec now;
          usageDate = format_date createdAt;
          usageMonth = format_month createdAt
      in case fault InsertLogs of Some m \<Rightarrow> (Some (InsertLogs, m), db) | None \<Rightarrow>
        case insert_log E rec createdAt db of
          None \<Rightarrow> (Some (InsertLogs, ''database or disk is full''), db)
        | Some tx1 \<Rightarrow>
          case fault UpsertDaily of Some m \<Rightarrow> (Some (UpsertDaily, m), db) | None \<Rightarrow>
          let tx2 = tx1\<lparr>db_daily := upsert E (excluded_row rec usageDate clock) (db_daily tx1)\<rparr>
          in case fault UpsertMonthly of Some m \<Rightarrow> (Some (UpsertMonthly, m), db) | None \<Rightarrow>
            let tx3 = tx2\<lparr>db_monthly :=
                  upsert E (excluded_row rec usageMonth clock) (db_monthly tx2)\<rparr>
            in case fault CommitTx of Some m \<Rightarrow> (Some (CommitTx, m), db) | None \<Rightarrow> (None, tx3))"

definition writeRecord ::
  "sqlite \<Rightarrow> write_fault \<Rightarrow> go_time \<Rightarrow> string \<Rightarrow> usage_record \<Rightarrow> usage_db \<Rightarrow> usage_db" where
  "writeRecord E fault now clock rec db = snd (executeTripleWrite E fault now clock rec db)"

definition committed_db ::
  "sqlite \<Rightarrow> go_time \<Rightarrow> string \<Rightarrow> usage_record \<Rightarrow> usage_db \<Rightarrow> usage_db" where
  "committed_db E now clock rec db =
     \<lparr>db_logs = db_logs db @
          [\<lparr>l_id = db_sequence db + 1, l_local_key = r_LocalKey rec,
            l_route_path = r_RoutePath rec, l_client_ip = r_ClientIP rec,
            l_prompt_tokens = r_PromptTokens rec,
            l_completion_tokens = r_CompletionTokens rec,
            l_total_tokens = r_TotalTokens rec,
            l_created_at = time_text E (effective_created rec now)\<rparr>],
      db_sequence = db_sequence db + 1,
      db_daily = upsert E (excluded_row rec (format_date (effective_created rec now)) clock)
        (db_daily db),
      db_monthly = upsert E (excluded_row rec (format_month (effective_created rec now)) clock)
        (db_monthly db)\<rparr>"

text \<open>All three tables or none: an error leaves the database as it was.\<close>

lemma executeTripleWrite_ok:
  "\<forall>st. fault st = None \<Longrightarrow> db_sequence db < 2 ^ 63 - 1 \<Longrightarrow>
    executeTripleWrite E fault now clock rec db = (None, committed_db E now clock rec db)"
  by (simp add: executeTripleWrite_def insert_log_def committed_db_def Let_def)

lemma executeTripleWrite_err:
  assumes "\<not> ((\<forall>st. fault st = None) \<and> db_sequence db < 2 ^ 63 - 1)"
  shows "\<exists>e. executeTripleWrite E fault now clock rec db = (Some e, db)"
proof -
  have "fault BeginTx \<noteq> None \<or> fault InsertLogs \<noteq> None \<or> fault UpsertDaily \<noteq> None
      \<or> fault UpsertMonthly \<noteq> None \<or> fault CommitTx \<noteq> None \<or> \<not> db_sequence db < 2 ^ 63 - 1"
    using assms by (metis write_stage.exhaust)
  then show ?thesis
    by (auto simp: executeTripleWrite_def insert_log_def Let_def split: option.splits)
qed

lemma executeTripleWrite_cases:
  obtains (err) e where "executeTripleWrite E fault now clock rec db = (Some e, db)"
  | (ok) "executeTripleWrite E fault now clock rec db = (None, committed_db E now clock rec db)"
      "\<forall>st. fault st = None" "db_sequence db < 2 ^ 63 - 1"
  using executeTripleWrite_ok executeTripleWrite_err by blast

end
