(* ===== verification/UsageLedger.thy ===== *)
theory UsageLedger
  imports UsageDb
begin

text \<open>
  The specification of the usage tables: the database accounts for the list of the records that
  were booked, in order. The daily and the monthly rows are the totals of the records of their
  key, route and period, and the audit log lists the records one by one. As long as the totals fit
  64 bits, every committed transaction keeps this.
\<close>

section \<open>Totals of booked records\<close>

definition booked :: "usage_record \<Rightarrow> go_time \<Rightarrow> usage_record" where
  "booked rec now = rec\<lparr>r_CreatedAt := effective_created rec now\<rparr>"

type_synonym bucket_key = "string \<times> string \<times> string"

definition bucket_of :: "(go_time \<Rightarrow> string) \<Rightarrow> usage_record \<Rightarrow> bucket_key" where
  "bucket_of fmt rec = (r_LocalKey rec, r_RoutePath rec, fmt (r_CreatedAt rec))"

definition bucket ::
  "(go_time \<Rightarrow> string) \<Rightarrow> bucket_key \<Rightarrow> usage_record list \<Rightarrow> usage_record list" where
  "bucket fmt b hist = filter (\<lambda>rec. bucket_of fmt rec = b) hist"

definition tally :: "(usage_record \<Rightarrow> int64) \<Rightarrow> usage_record list \<Rightarrow> int" where
  "tally f hist = sum_list (map (\<lambda>rec. sint (f rec)) hist)"

definition fits :: "usage_record list \<Rightarrow> bool" where
  "fits hist \<longleftrightarrow>
     (\<forall>rec \<in> set hist. 0 \<le> sint (r_PromptTokens rec) \<and> 0 \<le> sint (r_CompletionTokens rec)
        \<and> 0 \<le> sint (r_TotalTokens rec))
     \<and> tally r_PromptTokens hist < 2 ^ 63 \<and> tally r_CompletionTokens hist < 2 ^ 63
     \<and> tally r_TotalTokens hist < 2 ^ 63 \<and> int (length hist) < 2 ^ 63"

lemma tally_simps [simp]:
  "tally f [] = 0" "tally f (r # rs) = sint (f r) + tally f rs"
  "tally f (rs @ qs) = tally f rs + tally f qs"
  by (simp_all add: tally_def)

lemma tally_nonneg: "\<forall>r \<in> set hist. 0 \<le> sint (f r) \<Longrightarrow> 0 \<le> tally f hist"
  by (induction hist) auto

lemma tally_filter_le:
  "\<forall>r \<in> set hist. 0 \<le> sint (f r) \<Longrightarrow> tally f (filter P hist) \<le> tally f hist"
  by (induction hist) auto

lemma fits_prefix: "fits (hist @ rs) \<Longrightarrow> fits hist"
  using tally_nonneg [of rs r_PromptTokens] tally_nonneg [of rs r_CompletionTokens]
    tally_nonneg [of rs r_TotalTokens]
  by (auto simp: fits_def)

lemma fits_filter_length: "fits hist \<Longrightarrow> int (length (filter P hist)) < 2 ^ 63"
  using length_filter_le [of P hist] unfolding fits_def by linarith

lemma fits_filter_range:
  assumes "fits hist"
  shows "0 \<le> tally r_PromptTokens (filter P hist)" "tally r_PromptTokens (filter P hist) < 2 ^ 63"
    "0 \<le> tally r_CompletionTokens (filter P hist)"
    "tally r_CompletionTokens (filter P hist) < 2 ^ 63"
    "0 \<le> tally r_TotalTokens (filter P hist)" "tally r_TotalTokens (filter P hist) < 2 ^ 63"
  using assms tally_filter_le [of hist r_PromptTokens P]
    tally_filter_le [of hist r_CompletionTokens P] tally_filter_le [of hist r_TotalTokens P]
    length_filter_le [of P hist]
    tally_nonneg [of "filter P hist" r_PromptTokens]
    tally_nonneg [of "filter P hist" r_CompletionTokens]
    tally_nonneg [of "filter P hist" r_TotalTokens]
  unfolding fits_def by auto

text \<open>Totals split over the values of any key.\<close>

lemma tally_split:
  assumes "distinct ks" "g ` set hist \<subseteq> set ks"
  shows "(\<Sum>k\<leftarrow>ks. tally f (filter (\<lambda>r. g r = k) hist)) = tally f hist"
  using assms(2)
proof (induction hist)
  case Nil
  show ?case by (induction ks) auto
next
  case (Cons r hist)
  have "(\<Sum>k\<leftarrow>ks. tally f (filter (\<lambda>r. g r = k) (r # hist)))
      = (\<Sum>k\<leftarrow>ks. (if k = g r then sint (f r) else 0))
        + (\<Sum>k\<leftarrow>ks. tally f (filter (\<lambda>r. g r = k) hist))"
    by (subst sum_list_addf [symmetric]) (auto intro!: arg_cong [where f = sum_list])
  also have "(\<Sum>k\<leftarrow>ks. (if k = g r then sint (f r) else 0)) = sint (f r)"
    using Cons.prems assms(1) by (simp add: sum_list_distinct_conv_sum_set)
  finally show ?case using Cons by simp
qed

section \<open>Rows that account for a history\<close>

definition row_accounts :: "usage_row \<Rightarrow> usage_record list \<Rightarrow> bool" where
  "row_accounts row recs \<longleftrightarrow>
     u_total_requests row = SqlInt (word_of_int (int (length recs)))
     \<and> u_prompt_tokens row = SqlInt (word_of_int (tally r_PromptTokens recs))
     \<and> u_completion_tokens row = SqlInt (word_of_int (tally r_CompletionTokens recs))
     \<and> u_tokens row = SqlInt (word_of_int (tally r_TotalTokens recs))"

definition rows_account ::
  "(go_time \<Rightarrow> string) \<Rightarrow> usage_record list \<Rightarrow> usage_row list \<Rightarrow> bool" where
  "rows_account fmt hist rows \<longleftrightarrow>
     distinct (map row_key rows) \<and> row_key ` set rows = bucket_of fmt ` set hist
     \<and> (\<forall>row \<in> set rows. row_accounts row (bucket fmt (row_key row) hist))"

lemma row_key_conflict [simp]: "row_key (conflict_update E r x) = row_key r"
  by (simp add: row_key_def conflict_update_def)

lemma row_key_excluded [simp]:
  "row_key (excluded_row rec period clock) = (r_LocalKey rec, r_RoutePath rec, period)"
  by (simp add: row_key_def excluded_row_def)

lemma keys_upsert:
  "map row_key (upsert E x rows) =
    (if row_key x \<in> row_key ` set rows then map row_key rows else map row_key rows @ [row_key x])"
  by (induction rows) auto

lemma set_upsert:
  assumes "distinct (map row_key rows)"
  shows "row \<in> set (upsert E x rows) \<longleftrightarrow>
    row_key row \<noteq> row_key x \<and> row \<in> set rows
    \<or> (\<exists>r \<in> set rows. row_key r = row_key x \<and> row = conflict_update E r x)
    \<or> row_key x \<notin> row_key ` set rows \<and> row = x"
  using assms by (induction rows) (auto simp: image_iff)

lemma sql_add_ints:
  assumes "0 \<le> i" "i + sint x < 2 ^ 63" "0 \<le> sint (x :: int64)"
  shows "sql_add E (SqlInt (word_of_int i)) (SqlInt x) = SqlInt (word_of_int (i + sint x))"
proof -
  have "in_int64 i" using assms by (simp add: in_int64_def)
  then have "sint (word_of_int i :: int64) = i" by (rule sint_of_int_int64)
  moreover have "in_int64 (i + sint x)" using assms by (simp add: in_int64_def)
  ultimately show ?thesis by (simp add: sql_add_def)
qed

lemma conflict_update_accounts:
  assumes row: "row_accounts row recs" and fits: "fits (recs @ [rec])"
  shows "row_accounts (conflict_update E row (excluded_row rec period clock)) (recs @ [rec])"
proof -
  have "fits recs" using fits by (rule fits_prefix)
  then have r: "0 \<le> tally r_PromptTokens recs" "0 \<le> tally r_CompletionTokens recs"
      "0 \<le> tally r_TotalTokens recs"
    using fits_filter_range [of recs "\<lambda>_. True"] by simp_all
  have b: "tally r_PromptTokens recs + sint (r_PromptTokens rec) < 2 ^ 63"
      "tally r_CompletionTokens recs + sint (r_CompletionTokens rec) < 2 ^ 63"
      "tally r_TotalTokens recs + sint (r_TotalTokens rec) < 2 ^ 63"
      "int (length recs) + sint (1 :: int64) < 2 ^ 63"
      "0 \<le> sint (r_PromptTokens rec)" "0 \<le> sint (r_CompletionTokens rec)"
      "0 \<le> sint (r_TotalTokens rec)"
    using fits by (simp_all add: fits_def)
  have "sql_add E (SqlInt (word_of_int (int (length recs)))) (SqlInt 1)
      = SqlInt (word_of_int (int (length recs) + sint (1 :: int64)))"
    by (rule sql_add_ints) (use b in simp_all)
  then show ?thesis
    using row r b
    by (simp add: add.commute row_accounts_def conflict_update_def excluded_row_def sql_add_ints)
qed

lemma excluded_row_accounts:
  "row_accounts (excluded_row rec period clock) [rec]"
  by (simp add: row_accounts_def excluded_row_def)

lemma fits_bucket:
  assumes "fits hist"
  shows "fits (bucket fmt b hist)"
  unfolding fits_def bucket_def
  using fits_filter_range [OF assms] fits_filter_length [OF assms] assms
  by (intro conjI) (auto simp: fits_def)

text \<open>The upsert of a record keeps the rows of its table in step with the history.\<close>

lemma upsert_accounts:
  assumes rows: "rows_account fmt hist rows" and fits: "fits (hist @ [rec])"
  shows "rows_account fmt (hist @ [rec])
    (upsert E (excluded_row rec (fmt (r_CreatedAt rec)) clock) rows)"
proof -
  let ?x = "excluded_row rec (fmt (r_CreatedAt rec)) clock"
  have key: "row_key ?x = bucket_of fmt rec" by (simp add: bucket_of_def)
  have dist: "distinct (map row_key rows)"
    and keys: "row_key ` set rows = bucket_of fmt ` set hist"
    and acc: "\<And>row. row \<in> set rows \<Longrightarrow> row_accounts row (bucket fmt (row_key row) hist)"
    using rows by (auto simp: rows_account_def)
  have d: "distinct (map row_key (upsert E ?x rows))"
    using dist by (auto simp: keys_upsert)
  have "row_key ` set (upsert E ?x rows) = set (map row_key (upsert E ?x rows))" by simp
  also have "\<dots> = insert (bucket_of fmt rec) (row_key ` set rows)"
    unfolding keys_upsert key by auto
  also have "\<dots> = bucket_of fmt ` set (hist @ [rec])" by (simp add: keys)
  finally have k: "row_key ` set (upsert E ?x rows) = bucket_of fmt ` set (hist @ [rec])" .
  have "row_accounts row (bucket fmt (row_key row) (hist @ [rec]))"
    if mem: "row \<in> set (upsert E ?x rows)" for row
  proof -
    from mem consider
      (old) "row_key row \<noteq> bucket_of fmt rec" "row \<in> set rows"
    | (hit) r where "r \<in> set rows" "row_key r = bucket_of fmt rec" "row = conflict_update E r ?x"
    | (new) "bucket_of fmt rec \<notin> row_key ` set rows" "row = ?x"
      unfolding set_upsert [OF dist] key by blast
    then show ?thesis
    proof cases
      case old
      then show ?thesis using acc by (simp add: bucket_def)
    next
      case hit
      have "fits (bucket fmt (bucket_of fmt rec) (hist @ [rec]))" by (rule fits_bucket [OF fits])
      then have "fits (bucket fmt (bucket_of fmt rec) hist @ [rec])" by (simp add: bucket_def)
      with acc [OF hit(1)] hit show ?thesis
        by (simp add: bucket_def conflict_update_accounts)
    next
      case new
      then have "bucket fmt (bucket_of fmt rec) hist = []"
        unfolding keys bucket_def filter_empty_conv by (metis imageI)
      with new key excluded_row_accounts [of rec "fmt (r_CreatedAt rec)" clock] show ?thesis
        by (simp add: bucket_def)
    qed
  qed
  with d k show ?thesis by (simp add: rows_account_def)
qed

section \<open>The database accounts for a history\<close>

definition log_entry :: "log_row \<Rightarrow> string \<times> string \<times> string \<times> int64 \<times> int64 \<times> int64" where
  "log_entry l = (l_local_key l, l_route_path l, l_client_ip l, l_prompt_tokens l,
     l_completion_tokens l, l_total_tokens l)"

definition record_entry ::
  "usage_record \<Rightarrow> string \<times> string \<times> string \<times> int64 \<times> int64 \<times> int64" where
  "record_entry r = (r_LocalKey r, r_RoutePath r, r_ClientIP r, r_PromptTokens r,
     r_CompletionTokens r, r_TotalTokens r)"

definition ledger :: "usage_record list \<Rightarrow> usage_db \<Rightarrow> bool" where
  "ledger hist db \<longleftrightarrow>
     rows_account format_date hist (db_daily db) \<and> rows_account format_month hist (db_monthly db)
     \<and> map log_entry (db_logs db) = map record_entry hist
     \<and> map l_id (db_logs db) = map int [1..<Suc (length hist)]
     \<and> db_sequence db = int (length hist)"

lemma ledger_empty [simp]: "ledger [] empty_db"
  by (simp add: ledger_def empty_db_def rows_account_def)

lemma excluded_row_booked [simp]:
  "excluded_row (booked rec now) period clock = excluded_row rec period clock"
  by (simp add: excluded_row_def booked_def)

lemma booked_created [simp]: "r_CreatedAt (booked rec now) = effective_created rec now"
  by (simp add: booked_def)

lemma record_entry_booked [simp]: "record_entry (booked rec now) = record_entry rec"
  by (simp add: record_entry_def booked_def)

lemma booked_sel [simp]:
  "r_LocalKey (booked rec now) = r_LocalKey rec" "r_RoutePath (booked rec now) = r_RoutePath rec"
  "r_ClientIP (booked rec now) = r_ClientIP rec"
  "r_PromptTokens (booked rec now) = r_PromptTokens rec"
  "r_CompletionTokens (booked rec now) = r_CompletionTokens rec"
  "r_TotalTokens (booked rec now) = r_TotalTokens rec"
  by (simp_all add: booked_def)

lemma booked_self [simp]: "booked rec (r_CreatedAt rec) = rec"
  by (simp add: booked_def effective_created_def)

lemma committed_ledger:
  assumes "ledger hist db" "fits (hist @ [booked rec now])"
  shows "ledger (hist @ [booked rec now]) (committed_db E now clock rec db)"
  using assms upsert_accounts [of format_date hist "db_daily db" "booked rec now" E clock]
    upsert_accounts [of format_month hist "db_monthly db" "booked rec now" E clock]
  by (simp add: ledger_def committed_db_def log_entry_def record_entry_def)

lemma ledger_sequence: "ledger hist db \<Longrightarrow> db_sequence db = int (length hist)"
  by (simp add: ledger_def)

lemma tripleWrite_ledger:
  assumes "ledger hist db" "fits (hist @ [booked rec now])"
  shows "(\<exists>e. executeTripleWrite E fault now clock rec db = (Some e, db))
    \<or> (\<exists>db'. executeTripleWrite E fault now clock rec db = (None, db')
        \<and> ledger (hist @ [booked rec now]) db')"
  using committed_ledger [OF assms, of E clock]
  by (cases rule: executeTripleWrite_cases [of E fault now clock rec db]) auto

section \<open>The interface of a token ledger\<close>

text \<open>
  What the quota check relies on, for the daily and for the monthly table alike: the tokens spent
  in a bucket are the total of its booked records.
\<close>

locale token_ledger =
  fixes fmt :: "go_time \<Rightarrow> string"
    and spent :: "'db \<Rightarrow> bucket_key \<Rightarrow> int"
    and book :: "usage_record \<Rightarrow> 'db \<Rightarrow> 'db"
    and accounts :: "usage_record list \<Rightarrow> 'db \<Rightarrow> bool"
  assumes spent_tally: "accounts hist db \<Longrightarrow> fits hist \<Longrightarrow>
      spent db b = tally r_TotalTokens (bucket fmt b hist)"
    and book_accounts: "accounts hist db \<Longrightarrow> fits (hist @ [rec]) \<Longrightarrow>
      accounts (hist @ [rec]) (book rec db)"
begin

lemma spent_range:
  assumes "accounts hist db" "fits hist"
  shows "0 \<le> spent db b" "spent db b < 2 ^ 63"
  using fits_filter_range [OF assms(2)] by (simp_all add: spent_tally [OF assms] bucket_def)

lemma spent_book:
  assumes "accounts hist db" "fits (hist @ [rec])"
  shows "spent (book rec db) b =
    spent db b + (if bucket_of fmt rec = b then sint (r_TotalTokens rec) else 0)"
  by (simp add: spent_tally [OF book_accounts [OF assms] assms(2)]
      spent_tally [OF assms(1) fits_prefix [OF assms(2)]] bucket_def)

lemma spent_mono:
  assumes "accounts hist db" "fits (hist @ [rec])"
  shows "spent db b \<le> spent (book rec db) b"
  using assms(2) by (simp add: spent_book [OF assms] fits_def)

end

definition spent_rows :: "usage_row list \<Rightarrow> bucket_key \<Rightarrow> int" where
  "spent_rows rows b =
     (case find (\<lambda>r. row_key r = b) rows of
        None \<Rightarrow> 0
      | Some r \<Rightarrow> (case u_tokens r of SqlInt x \<Rightarrow> sint x | SqlReal w \<Rightarrow> 0))"

lemma find_row_None:
  assumes "rows_account fmt hist rows" "find (\<lambda>r. row_key r = b) rows = None"
  shows "bucket fmt b hist = []"
proof -
  have "b \<notin> row_key ` set rows" using assms(2) by (auto simp: find_None_iff)
  with assms(1) have "b \<notin> bucket_of fmt ` set hist" by (simp add: rows_account_def)
  then show ?thesis unfolding bucket_def filter_empty_conv by (metis imageI)
qed

lemma find_row_Some:
  assumes "rows_account fmt hist rows" "find (\<lambda>r. row_key r = b) rows = Some row"
  shows "row \<in> set rows" "row_key row = b" "row_accounts row (bucket fmt b hist)"
proof -
  show "row \<in> set rows" "row_key row = b" using assms(2) by (auto simp: find_Some_iff)
  with assms(1) show "row_accounts row (bucket fmt b hist)" by (auto simp: rows_account_def)
qed

lemma spent_rows_tally:
  assumes rows: "rows_account fmt hist rows" and fits: "fits hist"
  shows "spent_rows rows b = tally r_TotalTokens (bucket fmt b hist)"
proof (cases "find (\<lambda>r. row_key r = b) rows")
  case None
  with find_row_None [OF rows] show ?thesis by (simp add: spent_rows_def)
next
  case (Some row)
  have "in_int64 (tally r_TotalTokens (bucket fmt b hist))"
    using fits_filter_range(5,6) [OF fits, of "\<lambda>rec. bucket_of fmt rec = b"]
    unfolding bucket_def in_int64_def by linarith
  with Some find_row_Some(3) [OF rows Some] show ?thesis
    by (simp add: spent_rows_def row_accounts_def sint_of_int_int64)
qed

definition book_record :: "sqlite \<Rightarrow> string \<Rightarrow> usage_record \<Rightarrow> usage_db \<Rightarrow> usage_db" where
  "book_record E clock rec db = committed_db E (r_CreatedAt rec) clock rec db"

lemma book_record_ledger:
  "ledger hist db \<Longrightarrow> fits (hist @ [rec]) \<Longrightarrow> ledger (hist @ [rec]) (book_record E clock rec db)"
  using committed_ledger [of hist db rec "r_CreatedAt rec" E clock]
  by (simp add: book_record_def)

lemma ledger_spent:
  assumes "ledger hist db" "fits hist"
  shows "spent_rows (db_daily db) b = tally r_TotalTokens (bucket format_date b hist)"
    and "spent_rows (db_monthly db) b = tally r_TotalTokens (bucket format_month b hist)"
  using assms by (simp_all add: ledger_def spent_rows_tally)

interpretation daily: token_ledger format_date "\<lambda>db. spent_rows (db_daily db)"
    "book_record E clock" ledger for E clock
  by unfold_locales (blast intro: book_record_ledger ledger_spent)+

interpretation monthly: token_ledger format_month "\<lambda>db. spent_rows (db_monthly db)"
    "book_record E clock" ledger for E clock
  by unfold_locales (blast intro: book_record_ledger ledger_spent)+

section \<open>The monthly rows are the sums of the daily rows\<close>

lemma row_tokens:
  assumes rows: "rows_account fmt hist rows" and fits: "fits hist" and row: "row \<in> set rows"
  shows "u_tokens row = SqlInt (word_of_int (tally r_TotalTokens (bucket fmt (row_key row) hist)))"
    and "sint (word_of_int (tally r_TotalTokens (bucket fmt (row_key row) hist)) :: int64)
      = tally r_TotalTokens (bucket fmt (row_key row) hist)"
proof -
  show "u_tokens row = SqlInt (word_of_int (tally r_TotalTokens (bucket fmt (row_key row) hist)))"
    using rows row by (auto simp: rows_account_def row_accounts_def)
  have "in_int64 (tally r_TotalTokens (bucket fmt (row_key row) hist))"
    using fits_filter_range(5,6) [OF fits, of "\<lambda>rec. bucket_of fmt rec = row_key row"]
    unfolding bucket_def in_int64_def by linarith
  then show "sint (word_of_int (tally r_TotalTokens (bucket fmt (row_key row) hist)) :: int64)
      = tally r_TotalTokens (bucket fmt (row_key row) hist)"
    by (rule sint_of_int_int64)
qed

text \<open>Any selection of rows by their key adds up to the records of those keys.\<close>

lemma tally_rows_where:
  assumes rows: "rows_account fmt hist rows"
  shows "(\<Sum>row \<leftarrow> filter (\<lambda>row. P (row_key row)) rows.
            tally r_TotalTokens (bucket fmt (row_key row) hist))
    = tally r_TotalTokens (filter (\<lambda>rec. P (bucket_of fmt rec)) hist)"
proof -
  let ?rows = "filter (\<lambda>row. P (row_key row)) rows"
  let ?ks = "map row_key ?rows"
  let ?hist = "filter (\<lambda>rec. P (bucket_of fmt rec)) hist"
  have keys: "row_key ` set rows = bucket_of fmt ` set hist" and dist: "distinct (map row_key rows)"
    using rows by (simp_all add: rows_account_def)
  have "distinct ?ks" using dist by (rule distinct_map_filter)
  moreover have "bucket_of fmt ` set ?hist \<subseteq> set ?ks"
  proof
    fix b assume "b \<in> bucket_of fmt ` set ?hist"
    then have "b \<in> row_key ` set rows" "P b" by (auto simp: keys)
    then show "b \<in> set ?ks" by auto
  qed
  ultimately have "tally r_TotalTokens ?hist
      = (\<Sum>b\<leftarrow>?ks. tally r_TotalTokens (filter (\<lambda>rec. bucket_of fmt rec = b) ?hist))"
    by (rule tally_split [symmetric])
  also have "\<dots> = (\<Sum>row\<leftarrow>?rows. tally r_TotalTokens (bucket fmt (row_key row) hist))"
  proof -
    have "filter (\<lambda>rec. bucket_of fmt rec = row_key row) ?hist = bucket fmt (row_key row) hist"
      if "row \<in> set ?rows" for row
      unfolding bucket_def filter_filter using that by (intro filter_cong) auto
    then show ?thesis
      unfolding map_map comp_def by (intro arg_cong [where f = sum_list] map_cong refl) simp
  qed
  finally show ?thesis by simp
qed

lemma tally_rows:
  assumes rows: "rows_account fmt hist rows"
    and refine: "\<forall>rec \<in> set hist. coarse (fmt (r_CreatedAt rec)) = g (r_CreatedAt rec)"
  shows "(\<Sum>row \<leftarrow> filter (\<lambda>row. u_local_key row = k \<and> u_route_path row = p
            \<and> coarse (u_period row) = m) rows. tally r_TotalTokens (bucket fmt (row_key row) hist))
    = tally r_TotalTokens (bucket g (k, p, m) hist)"
proof -
  have "bucket g (k, p, m) hist
      = filter (\<lambda>rec. case bucket_of fmt rec of (k', p', d) \<Rightarrow> k' = k \<and> p' = p \<and> coarse d = m) hist"
    unfolding bucket_def using refine by (intro filter_cong) (auto simp: bucket_of_def)
  with tally_rows_where [OF rows, of "\<lambda>(k', p', d). k' = k \<and> p' = p \<and> coarse d = m"]
  show ?thesis by (simp add: row_key_def)
qed

section \<open>Properties\<close>

definition cell_int :: "sql_num \<Rightarrow> int" where
  "cell_int c = (case c of SqlInt x \<Rightarrow> sint x | SqlReal w \<Rightarrow> 0)"

lemma cell_int_row:
  assumes "rows_account fmt hist rows" "fits hist" "row \<in> set rows"
  shows "cell_int (u_tokens row) = tally r_TotalTokens (bucket fmt (row_key row) hist)"
  using row_tokens [OF assms] by (simp add: cell_int_def)

text \<open>An engine, a time and a record for the instances here and in the other theories.\<close>

definition sample_engine :: sqlite where
  "sample_engine = \<lparr>real_add = (\<lambda>a b. SqlReal 0), real_sum = (\<lambda>cs. Some (SqlReal 0)),
     real_le = (\<lambda>a b. True), real_scan = (\<lambda>w. None), time_text = format_date\<rparr>"

definition sample_time :: go_time where
  "sample_time = zero_time\<lparr>t_year := 2026, t_month := 3, t_day := 7\<rparr>"

definition sample_usage :: usage_record where
  "sample_usage = \<lparr>r_LocalKey = ''k'', r_RoutePath = ''/a'', r_ClientIP = ''c'',
     r_PromptTokens = 3, r_CompletionTokens = 4, r_TotalTokens = 7, r_CreatedAt = sample_time\<rparr>"

lemma sample_usage_fits: "fits [sample_usage]"
  by (simp add: fits_def sample_usage_def)

lemma sample_time_not_zero: "\<not> time_is_zero sample_time"
  by (simp add: time_is_zero_def abs_seconds_def sample_time_def zero_time_def days_from_civil_def
      Let_def)

lemma sample_booked: "booked sample_usage now = sample_usage"
  by (simp add: booked_def effective_created_def sample_usage_def sample_time_not_zero)

definition sample_db :: usage_db where
  "sample_db = book_record sample_engine ''now'' sample_usage empty_db"

lemma sample_ledger: "ledger [sample_usage] sample_db"
  unfolding sample_db_def
  using book_record_ledger [OF ledger_empty, of sample_usage] sample_usage_fits by simp

text \<open>
  The triple write is atomic: it fails exactly when some call on the database fails or the row
  ids are used up, and then all three tables are as before; otherwise one log row with the next id
  is appended and both summaries are updated.
\<close>

theorem triple_write_atomic:
  "(\<exists>e. executeTripleWrite E fault now clock rec db = (Some e, db)
      \<and> (fault (fst e) = Some (snd e) \<or> fst e = InsertLogs \<and> db_sequence db \<ge> 2 ^ 63 - 1))
   \<or> (\<exists>db' l. executeTripleWrite E fault now clock rec db = (None, db')
      \<and> (\<forall>st. fault st = None) \<and> db_logs db' = db_logs db @ [l]
      \<and> l_id l = db_sequence db + 1 \<and> l_id l < 2 ^ 63 \<and> log_entry l = record_entry rec
      \<and> db_daily db' = upsert E (excluded_row rec (format_date (effective_created rec now)) clock)
          (db_daily db)
      \<and> db_monthly db' = upsert E
          (excluded_row rec (format_month (effective_created rec now)) clock) (db_monthly db))"
proof (cases rule: executeTripleWrite_cases [of E fault now clock rec db])
  case (err e)
  then have "fault (fst e) = Some (snd e) \<or> fst e = InsertLogs \<and> db_sequence db \<ge> 2 ^ 63 - 1"
    by (auto simp: executeTripleWrite_def insert_log_def Let_def split: option.splits if_splits)
  with err show ?thesis by blast
next
  case ok
  then show ?thesis
    by (intro disjI2 exI conjI) (auto simp: committed_db_def log_entry_def record_entry_def)
qed

text \<open>
  C3. The tables stay accountable: on a database that accounts for a list of records, a write that
  commits makes it account for that list with the new record (with the clock as its time when it
  had none) at the end, as long as the totals fit 64 bits; a write that fails changes nothing.
\<close>

theorem triple_write_accounts:
  assumes "ledger hist db" "fits (hist @ [booked rec now])"
  shows "case executeTripleWrite E fault now clock rec db of
      (Some e, db') \<Rightarrow> db' = db \<and> (\<exists>st. fault st \<noteq> None)
    | (None, db') \<Rightarrow> ledger (hist @ [booked rec now]) db'"
proof -
  have "int (length hist) < 2 ^ 63 - 1" using assms(2) by (simp add: fits_def)
  then have "db_sequence db < 2 ^ 63 - 1" using assms(1) by (simp add: ledger_sequence)
  then show ?thesis
    using tripleWrite_ledger [OF assms, of E fault clock] executeTripleWrite_ok [of fault db E now clock rec]
    by (cases "\<forall>st. fault st = None") (auto simp del: not_None_eq, blast)
qed

lemma triple_write_accounts_witness:
  "case executeTripleWrite sample_engine no_fault zero_time ''now'' sample_usage empty_db of
      (Some e, db') \<Rightarrow> False
    | (None, db') \<Rightarrow> ledger [sample_usage] db'"
  using triple_write_accounts [OF ledger_empty, where rec = sample_usage
      and now = zero_time and E = sample_engine and fault = no_fault and clock = "''now''"]
    sample_usage_fits
  by (auto simp: sample_booked no_fault_def split: prod.splits option.splits)

text \<open>A month's tokens are the sum over the rows of its days, in every ledger.\<close>

lemma ledger_month_sum:
  assumes "ledger hist db" "fits hist" "\<forall>rec \<in> set hist. t_day (r_CreatedAt rec) < 100"
  shows "spent_rows (db_monthly db) (k, path, m) = (\<Sum>d \<leftarrow> filter (\<lambda>d. u_local_key d = k
      \<and> u_route_path d = path \<and> date_month (u_period d) = m) (db_daily db). cell_int (u_tokens d))"
proof -
  have acc: "rows_account format_date hist (db_daily db)" using assms(1) by (simp add: ledger_def)
  have "\<forall>rec \<in> set hist. date_month (format_date (r_CreatedAt rec)) = format_month (r_CreatedAt rec)"
    using assms(3) by (simp add: date_month_format)
  note sum = tally_rows [OF acc this, of k path m]
  have cells: "map (\<lambda>d. cell_int (u_tokens d)) (filter P (db_daily db))
      = map (\<lambda>d. tally r_TotalTokens (bucket format_date (row_key d) hist)) (filter P (db_daily db))"
    for P
    by (rule map_cong) (simp_all add: cell_int_row [OF acc assms(2)])
  show ?thesis unfolding cells sum by (rule ledger_spent(2) [OF assms(1,2)])
qed

text \<open>
  Booking a record raises the spent tokens of exactly its own bucket, by exactly its total: of
  its key, route and date in the daily table, and of its key, route and month in the monthly one.
  Spent tokens never go down and never leave 64 bits.
\<close>

theorem booking_adds_to_own_bucket:
  assumes "ledger hist db" "fits (hist @ [rec])"
  shows "spent_rows (db_daily (book_record E clock rec db)) b = spent_rows (db_daily db) b
      + (if bucket_of format_date rec = b then sint (r_TotalTokens rec) else 0)
    \<and> spent_rows (db_monthly (book_record E clock rec db)) b = spent_rows (db_monthly db) b
      + (if bucket_of format_month rec = b then sint (r_TotalTokens rec) else 0)
    \<and> 0 \<le> spent_rows (db_daily db) b \<and> 0 \<le> spent_rows (db_monthly db) b
    \<and> spent_rows (db_daily (book_record E clock rec db)) b < 2 ^ 63
    \<and> spent_rows (db_monthly (book_record E clock rec db)) b < 2 ^ 63"
  using daily.spent_book [OF assms] monthly.spent_book [OF assms]
    daily.spent_range(1) [OF assms(1) fits_prefix [OF assms(2)]]
    monthly.spent_range(1) [OF assms(1) fits_prefix [OF assms(2)]]
    daily.spent_range(2) [OF book_record_ledger [OF assms] assms(2)]
    monthly.spent_range(2) [OF book_record_ledger [OF assms] assms(2)]
  by auto

lemma booking_adds_to_own_bucket_witness:
  "spent_rows (db_daily (book_record sample_engine ''now'' sample_usage empty_db))
     (''k'', ''/a'', format_date sample_time) = spent_rows (db_daily empty_db)
     (''k'', ''/a'', format_date sample_time) + 7"
  using booking_adds_to_own_bucket [OF ledger_empty, where rec = sample_usage
      and E = sample_engine and clock = "''now''" and b = "(''k'', ''/a'', format_date sample_time)"] sample_usage_fits
  by (simp add: bucket_of_def) (simp add: sample_usage_def)

end
