(* ===== verification/APML.thy ===== *)
theory APML
  imports GoStrings
begin

text \<open>
  The APML configuration of \<open>internal/apml\<close>: the types of \<open>types.go\<close>, and of \<open>parser.go\<close> the
  traversal of the top-level mapping (\<open>UnmarshalYAML\<close>), \<open>validate\<close> with one error constructor per
  \<open>return\<close>, \<open>ResolveQuota\<close> and \<open>Parse\<close>. The YAML library is outside the repository: its parser and
  its \<open>Decode\<close> into the three field types are arguments (\<open>yaml_codec\<close>), and only the node fields the
  code reads are modelled.
\<close>

section \<open>Types\<close>

record quota_detail =
  q_Mode :: string
  q_Daily :: int64
  q_Monthly :: int64

definition zero_quota :: quota_detail where
  "zero_quota = \<lparr>q_Mode = [], q_Daily = 0, q_Monthly = 0\<rparr>"

record usage_config =
  uc_InputTokens :: string
  uc_OutputTokens :: string

record event_config =
  ev_ChunkType :: string
  ev_InputTokens :: string
  ev_OutputTokens :: string

text \<open>A value of type \<open>interface{}\<close> decoded from YAML.\<close>

datatype yaml_value =
    YNull
  | YBool bool
  | YInt int
  | YFloat string
  | YString string
  | YList "yaml_value list"
  | YMap "(string \<times> yaml_value) list"

record streaming_config =
  sc_Mode :: string
  sc_InputTokens :: string
  sc_OutputTokens :: string
  sc_Input :: "event_config option"
  sc_Output :: "event_config option"
  sc_RequestOption :: "(string, yaml_value) gomap"

record provider_config =
  pc_Host :: string
  pc_APIKeyPrefix :: string
  pc_InputMessage :: string
  pc_Usage :: "usage_config option"
  pc_Streaming :: "streaming_config option"

definition zero_provider :: provider_config where
  "zero_provider = \<lparr>pc_Host = [], pc_APIKeyPrefix = [], pc_InputMessage = [], pc_Usage = None,
     pc_Streaming = None\<rparr>"

record route_config =
  rc_Provider :: string
  rc_Quota :: string

definition zero_route :: route_config where
  "zero_route = \<lparr>rc_Provider = [], rc_Quota = []\<rparr>"

record apml_config =
  cfg_Title :: string
  cfg_BaseURI :: string
  cfg_Version :: string
  cfg_PlanVersion :: string
  cfg_Quotas :: "(string, quota_detail) gomap"
  cfg_Providers :: "(string, provider_config) gomap"
  cfg_Routes :: "(string, route_config) gomap"

definition zero_config :: apml_config where
  "zero_config = \<lparr>cfg_Title = [], cfg_BaseURI = [], cfg_Version = [], cfg_PlanVersion = [],
     cfg_Quotas = [], cfg_Providers = [], cfg_Routes = []\<rparr>"

datatype apml_error =
    ReadFailed string
  | YamlFailed string
  | NotAMapping
  | NodePanic  \<comment> \<open>index out of range on a mapping node with an odd number of children\<close>
  | RouteDecode string string
  | QuotasDecode string
  | ProvidersDecode string
  | TitleRequired
  | BaseURIRequired
  | VersionRequired
  | PlanVersionRequired
  | InvalidPlanVersion string
  | NoRoutes
  | InvalidQuotaName string
  | NegativeLimits string
  | InvalidQuotaMode string string
  | InvalidProviderName string
  | HostRequired string
  | UsageNil
  | UsageInputRequired string
  | UsageOutputRequired string
  | StreamingNil
  | UnknownStreamingMode string string
  | LastInputRequired string
  | LastOutputRequired string
  | LastBlocksForbidden string
  | SplitBlocksRequired string
  | SplitInputIncomplete string
  | SplitOutputIncomplete string
  | SplitTopLevelForbidden string
  | RouteProviderRequired string
  | RouteProviderUndefined string string
  | RouteQuotaUndefined string string

section \<open>Names\<close>

definition ascii_letter :: "char \<Rightarrow> bool" where
  "ascii_letter c \<longleftrightarrow> ascii_upper_letter c \<or> ascii_lower_letter c"

text \<open>\<open>^[a-zA-Z][a-zA-Z0-9_-]*$\<close> and \<open>^[a-zA-Z0-9][a-zA-Z0-9-]*$\<close>\<close>

definition alphaName :: "string \<Rightarrow> bool" where
  "alphaName s = (case s of [] \<Rightarrow> False
     | c # cs \<Rightarrow> ascii_letter c
         \<and> list_all (\<lambda>d. ascii_letter d \<or> ascii_digit d \<or> d = CHR ''_'' \<or> d = CHR ''-'') cs)"

definition planVersion :: "string \<Rightarrow> bool" where
  "planVersion s = (case s of [] \<Rightarrow> False
     | c # cs \<Rightarrow> (ascii_letter c \<or> ascii_digit c)
         \<and> list_all (\<lambda>d. ascii_letter d \<or> ascii_digit d \<or> d = CHR ''-'') cs)"

section \<open>Validation\<close>

definition validate_meta :: "apml_config \<Rightarrow> apml_error option" where
  "validate_meta c =
     (if cfg_Title c = [] then Some TitleRequired
      else if cfg_BaseURI c = [] then Some BaseURIRequired
      else if cfg_Version c = [] then Some VersionRequired
      else if cfg_PlanVersion c = [] then Some PlanVersionRequired
      else if \<not> planVersion (cfg_PlanVersion c) then Some (InvalidPlanVersion (cfg_PlanVersion c))
      else if length (cfg_Routes c) = 0 then Some NoRoutes
      else None)"

definition validate_quota :: "string \<times> quota_detail \<Rightarrow> apml_error option" where
  "validate_quota nq =
     (case nq of (name, q) \<Rightarrow>
        if \<not> alphaName name then Some (InvalidQuotaName name)
        else if q_Daily q <s 0 \<or> q_Monthly q <s 0 then Some (NegativeLimits name)
        else if q_Daily q = 0 \<and> q_Monthly q = 0 then None
        else if q_Mode q \<noteq> ''per_key'' \<and> q_Mode q \<noteq> ''shared''
             then Some (InvalidQuotaMode name (q_Mode q))
        else None)"

definition validate_usage :: "string \<Rightarrow> usage_config option \<Rightarrow> apml_error option" where
  "validate_usage name u =
     (case u of
        None \<Rightarrow> Some UsageNil
      | Some uc \<Rightarrow>
          if uc_InputTokens uc = [] then Some (UsageInputRequired name)
          else if uc_OutputTokens uc = [] then Some (UsageOutputRequired name)
          else None)"

definition validate_last :: "string \<Rightarrow> streaming_config \<Rightarrow> apml_error option" where
  "validate_last name s =
     (if sc_InputTokens s = [] then Some (LastInputRequired name)
      else if sc_OutputTokens s = [] then Some (LastOutputRequired name)
      else if sc_Input s \<noteq> None \<or> sc_Output s \<noteq> None then Some (LastBlocksForbidden name)
      else None)"

definition validate_split :: "string \<Rightarrow> streaming_config \<Rightarrow> apml_error option" where
  "validate_split name s =
     (case (sc_Input s, sc_Output s) of
        (Some i, Some out) \<Rightarrow>
          if ev_ChunkType i = [] \<or> ev_InputTokens i = [] then Some (SplitInputIncomplete name)
          else if ev_ChunkType out = [] \<or> ev_OutputTokens out = []
               then Some (SplitOutputIncomplete name)
          else if sc_InputTokens s \<noteq> [] \<or> sc_OutputTokens s \<noteq> []
               then Some (SplitTopLevelForbidden name)
          else None
      | _ \<Rightarrow> Some (SplitBlocksRequired name))"

definition validate_streaming :: "string \<Rightarrow> streaming_config option \<Rightarrow> apml_error option" where
  "validate_streaming name so =
     (case so of
        None \<Rightarrow> Some StreamingNil
      | Some s \<Rightarrow>
          if sc_Mode s \<noteq> ''split'' \<and> sc_Mode s \<noteq> ''last''
          then Some (UnknownStreamingMode name (sc_Mode s))
          else if sc_Mode s = ''last'' then validate_last name s
          else validate_split name s)"

definition validate_provider :: "string \<times> provider_config \<Rightarrow> apml_error option" where
  "validate_provider np =
     (case np of (name, p) \<Rightarrow>
        if \<not> alphaName name then Some (InvalidProviderName name)
        else if pc_Host p = [] then Some (HostRequired name)
        else (case validate_usage name (pc_Usage p) of
                Some e \<Rightarrow> Some e
              | None \<Rightarrow> validate_streaming name (pc_Streaming p)))"

definition validate_route :: "apml_config \<Rightarrow> string \<times> route_config \<Rightarrow> apml_error option" where
  "validate_route c pr =
     (case pr of (path, route) \<Rightarrow>
        if rc_Provider route = [] then Some (RouteProviderRequired path)
        else if map_of (cfg_Providers c) (rc_Provider route) = None
             then Some (RouteProviderUndefined path (rc_Provider route))
        else if rc_Quota route \<noteq> [] \<and> map_of (cfg_Quotas c) (rc_Quota route) = None
             then Some (RouteQuotaUndefined path (rc_Quota route))
        else None)"

definition validate :: "apml_config \<Rightarrow> apml_error option" where
  "validate c =
     (case validate_meta c of
        Some e \<Rightarrow> Some e
      | None \<Rightarrow> (case first_error validate_quota (cfg_Quotas c) of
          Some e \<Rightarrow> Some e
        | None \<Rightarrow> (case first_error validate_provider (cfg_Providers c) of
            Some e \<Rightarrow> Some e
          | None \<Rightarrow> first_error (validate_route c) (cfg_Routes c))))"

definition ResolveQuota :: "apml_config \<Rightarrow> string \<Rightarrow> quota_detail \<times> bool" where
  "ResolveQuota c routePath =
     (case map_of (cfg_Routes c) routePath of
        None \<Rightarrow> (zero_quota, False)
      | Some route \<Rightarrow>
          if rc_Quota route = [] then (zero_quota, False)
          else (case map_of (cfg_Quotas c) (rc_Quota route) of
                  Some quota \<Rightarrow> (quota, True)
                | None \<Rightarrow> (zero_quota, False)))"

section \<open>Reading the document\<close>

datatype yaml_kind = DocumentNode | SequenceNode | MappingNode | ScalarNode | AliasNode

datatype yaml_node =
  YNode (nKind: yaml_kind) (nValue: string) (nContent: "yaml_node list")

record yaml_codec =
  yaml_parse :: "string \<Rightarrow> string + yaml_node option"
  decode_route :: "yaml_node \<Rightarrow> string + route_config"
  decode_quotas :: "yaml_node \<Rightarrow> (string, quota_detail) gomap
    \<Rightarrow> string + (string, quota_detail) gomap"
  decode_providers :: "yaml_node \<Rightarrow> (string, provider_config) gomap
    \<Rightarrow> string + (string, provider_config) gomap"

definition unmarshal_entry ::
  "yaml_codec \<Rightarrow> yaml_node \<Rightarrow> yaml_node \<Rightarrow> apml_config \<Rightarrow> apml_error + apml_config" where
  "unmarshal_entry codec keyNode valNode c =
     (let k = nValue keyNode in
      if has_prefix k ''/'' then
        (case decode_route codec valNode of
           Inl m \<Rightarrow> Inl (RouteDecode k m)
         | Inr route \<Rightarrow> Inr (c\<lparr>cfg_Routes := AList.update k route (cfg_Routes c)\<rparr>))
      else if k = ''title'' then Inr (c\<lparr>cfg_Title := nValue valNode\<rparr>)
      else if k = ''baseUri'' then Inr (c\<lparr>cfg_BaseURI := nValue valNode\<rparr>)
      else if k = ''version'' then Inr (c\<lparr>cfg_Version := nValue valNode\<rparr>)
      else if k = ''plan_version'' then Inr (c\<lparr>cfg_PlanVersion := nValue valNode\<rparr>)
      else if k = ''quotas'' then
        (case decode_quotas codec valNode (cfg_Quotas c) of
           Inl m \<Rightarrow> Inl (QuotasDecode m)
         | Inr qs \<Rightarrow> Inr (c\<lparr>cfg_Quotas := qs\<rparr>))
      else if k = ''providers'' then
        (case decode_providers codec valNode (cfg_Providers c) of
           Inl m \<Rightarrow> Inl (ProvidersDecode m)
         | Inr ps \<Rightarrow> Inr (c\<lparr>cfg_Providers := ps\<rparr>))
      else Inr c)"

fun unmarshal_entries ::
  "yaml_codec \<Rightarrow> yaml_node list \<Rightarrow> apml_config \<Rightarrow> apml_error + apml_config" where
  "unmarshal_entries codec [] c = Inr c"
| "unmarshal_entries codec [n] c = Inl NodePanic"
| "unmarshal_entries codec (keyNode # valNode # ns) c =
     (case unmarshal_entry codec keyNode valNode c of
        Inl e \<Rightarrow> Inl e
      | Inr c' \<Rightarrow> unmarshal_entries codec ns c')"

definition UnmarshalYAML ::
  "yaml_codec \<Rightarrow> yaml_node \<Rightarrow> apml_config \<Rightarrow> apml_error + apml_config" where
  "UnmarshalYAML codec n c =
     (if nKind n \<noteq> MappingNode then Inl NotAMapping
      else unmarshal_entries codec (nContent n) (c\<lparr>cfg_Routes := []\<rparr>))"

definition Parse :: "yaml_codec \<Rightarrow> string + string \<Rightarrow> apml_error + apml_config" where
  "Parse codec file =
     (case file of
        Inl m \<Rightarrow> Inl (ReadFailed m)
      | Inr data \<Rightarrow>
          (case (case yaml_parse codec data of
                   Inl m \<Rightarrow> Inl (YamlFailed m)
                 | Inr None \<Rightarrow> Inr zero_config
                 | Inr (Some n) \<Rightarrow> UnmarshalYAML codec n zero_config) of
             Inl e \<Rightarrow> Inl e
           | Inr config \<Rightarrow>
               (case validate config of Some e \<Rightarrow> Inl e | None \<Rightarrow> Inr config)))"

section \<open>What validation accepts\<close>

text \<open>
  The specification side: what an administrator may rely on for a configuration that was loaded,
  stated on the maps as sets, without the order of the checks or of the iteration.
\<close>

definition quota_ok :: "quota_detail \<Rightarrow> bool" where
  "quota_ok q \<longleftrightarrow> 0 \<le> sint (q_Daily q) \<and> 0 \<le> sint (q_Monthly q)
     \<and> (q_Mode q \<in> {''per_key'', ''shared''} \<or> q_Daily q = 0 \<and> q_Monthly q = 0)"

definition streaming_ok :: "streaming_config \<Rightarrow> bool" where
  "streaming_ok s \<longleftrightarrow>
     sc_Mode s = ''last'' \<and> sc_InputTokens s \<noteq> [] \<and> sc_OutputTokens s \<noteq> []
       \<and> sc_Input s = None \<and> sc_Output s = None
     \<or> sc_Mode s = ''split'' \<and> sc_InputTokens s = [] \<and> sc_OutputTokens s = []
       \<and> (\<exists>i. sc_Input s = Some i \<and> ev_ChunkType i \<noteq> [] \<and> ev_InputTokens i \<noteq> [])
       \<and> (\<exists>out. sc_Output s = Some out \<and> ev_ChunkType out \<noteq> [] \<and> ev_OutputTokens out \<noteq> [])"

definition provider_ok :: "provider_config \<Rightarrow> bool" where
  "provider_ok p \<longleftrightarrow> pc_Host p \<noteq> []
     \<and> (\<exists>u. pc_Usage p = Some u \<and> uc_InputTokens u \<noteq> [] \<and> uc_OutputTokens u \<noteq> [])
     \<and> (\<exists>s. pc_Streaming p = Some s \<and> streaming_ok s)"

definition route_ok :: "apml_config \<Rightarrow> route_config \<Rightarrow> bool" where
  "route_ok c r \<longleftrightarrow> rc_Provider r \<noteq> [] \<and> rc_Provider r \<in> dom (map_of (cfg_Providers c))
     \<and> (rc_Quota r = [] \<or> rc_Quota r \<in> dom (map_of (cfg_Quotas c)))"

definition config_ok :: "apml_config \<Rightarrow> bool" where
  "config_ok c \<longleftrightarrow>
     cfg_Title c \<noteq> [] \<and> cfg_BaseURI c \<noteq> [] \<and> cfg_Version c \<noteq> []
     \<and> planVersion (cfg_PlanVersion c) \<and> cfg_Routes c \<noteq> []
     \<and> (\<forall>(n, q) \<in> set (cfg_Quotas c). alphaName n \<and> quota_ok q)
     \<and> (\<forall>(n, p) \<in> set (cfg_Providers c). alphaName n \<and> provider_ok p)
     \<and> (\<forall>(n, r) \<in> set (cfg_Routes c). route_ok c r)"

lemma validate_quota_None: "validate_quota (n, q) = None \<longleftrightarrow> alphaName n \<and> quota_ok q"
  by (auto simp: validate_quota_def quota_ok_def word_sless_alt)

lemma validate_streaming_None:
  "validate_streaming n so = None \<longleftrightarrow> (\<exists>s. so = Some s \<and> streaming_ok s)"
  by (cases so)
     (auto simp: validate_streaming_def validate_last_def validate_split_def streaming_ok_def
       split: option.splits)

lemma validate_usage_None:
  "validate_usage n u = None \<longleftrightarrow>
     (\<exists>uc. u = Some uc \<and> uc_InputTokens uc \<noteq> [] \<and> uc_OutputTokens uc \<noteq> [])"
  by (auto simp: validate_usage_def split: option.splits)

lemma validate_provider_None: "validate_provider (n, p) = None \<longleftrightarrow> alphaName n \<and> provider_ok p"
  by (auto simp: validate_provider_def provider_ok_def validate_streaming_None
      validate_usage_None)

lemma validate_route_None: "validate_route c (n, r) = None \<longleftrightarrow> route_ok c r"
  by (auto simp: validate_route_def route_ok_def dom_def)

lemma validate_meta_None:
  "validate_meta c = None \<longleftrightarrow> cfg_Title c \<noteq> [] \<and> cfg_BaseURI c \<noteq> [] \<and> cfg_Version c \<noteq> []
     \<and> planVersion (cfg_PlanVersion c) \<and> cfg_Routes c \<noteq> []"
  by (auto simp: validate_meta_def planVersion_def)

lemmas validate_None_iffs =
  validate_quota_None validate_provider_None validate_route_None validate_meta_None

lemma validate_None_iff: "validate c = None \<longleftrightarrow> config_ok c"
proof -
  have "validate c = None \<longleftrightarrow> validate_meta c = None
    \<and> (\<forall>x \<in> set (cfg_Quotas c). validate_quota x = None)
    \<and> (\<forall>x \<in> set (cfg_Providers c). validate_provider x = None)
    \<and> (\<forall>x \<in> set (cfg_Routes c). validate_route c x = None)"
    by (simp add: validate_def)
  also have "\<dots> \<longleftrightarrow> config_ok c"
    by (auto simp: config_ok_def validate_None_iffs)
  finally show ?thesis .
qed

definition same_config :: "apml_config \<Rightarrow> apml_config \<Rightarrow> bool" where
  "same_config c d \<longleftrightarrow>
     cfg_Title c = cfg_Title d \<and> cfg_BaseURI c = cfg_BaseURI d \<and> cfg_Version c = cfg_Version d
     \<and> cfg_PlanVersion c = cfg_PlanVersion d
     \<and> gmap_ok (cfg_Quotas c) \<and> mset (cfg_Quotas c) = mset (cfg_Quotas d)
     \<and> gmap_ok (cfg_Providers c) \<and> mset (cfg_Providers c) = mset (cfg_Providers d)
     \<and> gmap_ok (cfg_Routes c) \<and> mset (cfg_Routes c) = mset (cfg_Routes d)"

lemma gmap_perm:
  assumes "gmap_ok m" "mset m = mset m'"
  shows "set m = set m'" "map_of m = map_of m'" "m = [] \<longleftrightarrow> m' = []"
proof -
  have "gmap_ok m'"
    using assms by (metis mset_eq_imp_distinct_iff mset_map)
  moreover show s: "set m = set m'" using assms(2) by (rule mset_eq_setD)
  ultimately show "map_of m = map_of m'" using assms(1) by (metis map_of_inject_set)
  from s show "m = [] \<longleftrightarrow> m' = []" by auto
qed

lemma config_ok_same: "same_config c d \<Longrightarrow> config_ok c \<longleftrightarrow> config_ok d"
  using gmap_perm [of "cfg_Quotas c" "cfg_Quotas d"]
    gmap_perm [of "cfg_Providers c" "cfg_Providers d"] gmap_perm [of "cfg_Routes c" "cfg_Routes d"]
  by (simp add: same_config_def config_ok_def route_ok_def)

lemma config_ok_route:
  assumes "config_ok c" "map_of (cfg_Routes c) path = Some r"
  shows "route_ok c r"
  using assms by (auto simp: config_ok_def dest!: map_of_SomeD)

lemma config_ok_provider:
  assumes "config_ok c" "map_of (cfg_Providers c) n = Some p"
  shows "provider_ok p" "alphaName n"
  using assms by (auto simp: config_ok_def dest!: map_of_SomeD)

lemma config_ok_quota:
  assumes "config_ok c" "map_of (cfg_Quotas c) n = Some q"
  shows "quota_ok q" "alphaName n"
  using assms by (auto simp: config_ok_def dest!: map_of_SomeD)

lemma Parse_config_ok: "Parse codec file = Inr c \<Longrightarrow> config_ok c"
  by (auto simp: Parse_def validate_None_iff split: sum.splits option.splits)

section \<open>Routes of a parsed document\<close>

definition routes_ok :: "apml_config \<Rightarrow> bool" where
  "routes_ok c \<longleftrightarrow> gmap_ok (cfg_Routes c)
     \<and> (\<forall>path \<in> dom (map_of (cfg_Routes c)). has_prefix path ''/'')"

lemma unmarshal_entry_routes_ok:
  "unmarshal_entry codec k v c = Inr c' \<Longrightarrow> routes_ok c \<Longrightarrow> routes_ok c'"
  by (auto simp: unmarshal_entry_def routes_ok_def Let_def split: if_splits sum.splits)

lemma unmarshal_entries_routes_ok:
  "unmarshal_entries codec ns c = Inr c' \<Longrightarrow> routes_ok c \<Longrightarrow> routes_ok c'"
  by (induction codec ns c rule: unmarshal_entries.induct)
     (auto split: sum.splits dest: unmarshal_entry_routes_ok)

lemma no_routes_ok: "cfg_Routes c = [] \<Longrightarrow> routes_ok c"
  by (simp add: routes_ok_def)

lemma UnmarshalYAML_routes_ok: "UnmarshalYAML codec n c = Inr c' \<Longrightarrow> routes_ok c'"
  by (auto simp: UnmarshalYAML_def no_routes_ok split: if_splits
      intro: unmarshal_entries_routes_ok)

lemma Parse_routes_ok: "Parse codec file = Inr c \<Longrightarrow> routes_ok c"
  by (auto simp: Parse_def no_routes_ok zero_config_def
      split: sum.splits option.splits dest: UnmarshalYAML_routes_ok)

section \<open>Properties\<close>

lemma ResolveQuota_some:
  assumes "config_ok c" "map_of (cfg_Routes c) path = Some r" "rc_Quota r \<noteq> []"
  shows "\<exists>q. map_of (cfg_Quotas c) (rc_Quota r) = Some q \<and> quota_ok q
    \<and> ResolveQuota c path = (q, True)"
proof -
  from config_ok_route [OF assms(1,2)] assms(3)
  obtain q where q: "map_of (cfg_Quotas c) (rc_Quota r) = Some q"
    by (auto simp: route_ok_def)
  with config_ok_quota(1) [OF assms(1) q] assms show ?thesis by (simp add: ResolveQuota_def)
qed

text \<open>A configuration with one route, used by the instances here and in the other theories.\<close>

definition sample_provider :: provider_config where
  "sample_provider = \<lparr>pc_Host = ''api.x'', pc_APIKeyPrefix = [], pc_InputMessage = ''m'',
     pc_Usage = Some \<lparr>uc_InputTokens = ''i'', uc_OutputTokens = ''o''\<rparr>,
     pc_Streaming = Some \<lparr>sc_Mode = ''last'', sc_InputTokens = ''i'', sc_OutputTokens = ''o'',
       sc_Input = None, sc_Output = None, sc_RequestOption = []\<rparr>\<rparr>"

definition sample_quota :: quota_detail where
  "sample_quota = \<lparr>q_Mode = ''shared'', q_Daily = 10, q_Monthly = 0\<rparr>"

definition sample_config :: apml_config where
  "sample_config = \<lparr>cfg_Title = ''t'', cfg_BaseURI = ''https://a.b:1'', cfg_Version = ''1'',
     cfg_PlanVersion = ''p1'', cfg_Quotas = [(''q'', sample_quota)],
     cfg_Providers = [(''p'', sample_provider)],
     cfg_Routes = [(''/a'', \<lparr>rc_Provider = ''p'', rc_Quota = ''q''\<rparr>)]\<rparr>"

lemma sample_config_sel [simp]:
  "cfg_BaseURI sample_config = ''https://a.b:1''" "cfg_PlanVersion sample_config = ''p1''"
  "cfg_Quotas sample_config = [(''q'', sample_quota)]"
  "cfg_Providers sample_config = [(''p'', sample_provider)]"
  "cfg_Routes sample_config = [(''/a'', \<lparr>rc_Provider = ''p'', rc_Quota = ''q''\<rparr>)]"
  by (simp_all add: sample_config_def)

lemma sample_config_ok: "config_ok sample_config"
proof -
  have names: "alphaName ''q''" "alphaName ''p''" "planVersion ''p1''"
    by (simp_all add: alphaName_def planVersion_def ascii_letter_def ascii_lower_letter_def
        ascii_digit_def)
  have "sint (10 :: int64) = 10" by simp
  then have "quota_ok sample_quota" by (simp add: quota_ok_def sample_quota_def)
  moreover have "provider_ok sample_provider"
    by (simp add: provider_ok_def sample_provider_def streaming_ok_def)
  ultimately show ?thesis
    using names by (simp add: config_ok_def route_ok_def) (simp add: sample_config_def names)
qed

text \<open>A YAML library that reads every text as the one-route document below.\<close>

definition sample_scalar :: "string \<Rightarrow> yaml_node" where
  "sample_scalar s = YNode ScalarNode s []"

definition sample_node :: yaml_node where
  "sample_node = YNode MappingNode [] (map sample_scalar
     [''title'', ''t'', ''baseUri'', ''https://a.b:1'', ''version'', ''1'', ''plan_version'', ''p1'',
      ''quotas'', [], ''providers'', [], ''/a'', []])"

definition sample_codec :: yaml_codec where
  "sample_codec = \<lparr>yaml_parse = (\<lambda>s. Inr (Some sample_node)),
     decode_route = (\<lambda>n. Inr \<lparr>rc_Provider = ''p'', rc_Quota = ''q''\<rparr>),
     decode_quotas = (\<lambda>n m. Inr [(''q'', sample_quota)]),
     decode_providers = (\<lambda>n m. Inr [(''p'', sample_provider)])\<rparr>"

lemma sample_Parse: "Parse sample_codec (Inr []) = Inr sample_config"
proof -
  have "UnmarshalYAML sample_codec sample_node zero_config = Inr sample_config"
    by (simp add: UnmarshalYAML_def sample_codec_def sample_node_def sample_scalar_def
        unmarshal_entry_def has_prefix_def Let_def zero_config_def sample_config_def)
  with sample_config_ok show ?thesis
    by (simp add: Parse_def sample_codec_def flip: validate_None_iff)
qed

text \<open>
  The form of a plan version that \<open>docs/APML-Spec.md\<close> demands: like the code's, but a letter comes
  first. The document's own example, \<open>2026Q3\<close>, does not have it.
\<close>

definition documented_plan_version :: "string \<Rightarrow> bool" where
  "documented_plan_version s =
     (case s of [] \<Rightarrow> False
      | c # cs \<Rightarrow> ascii_letter c
          \<and> list_all (\<lambda>d. ascii_letter d \<or> ascii_digit d \<or> d = CHR ''-'') cs)"

lemma letter_not_digit: "ascii_letter c \<Longrightarrow> \<not> ascii_digit c"
  by (auto simp: ascii_letter_def ascii_upper_letter_def ascii_lower_letter_def ascii_digit_def)

lemma planVersion_documented:
  "planVersion s \<and> \<not> documented_plan_version s \<longleftrightarrow> planVersion s \<and> ascii_digit (hd s)"
  by (cases s) (auto simp: planVersion_def documented_plan_version_def dest: letter_not_digit)

lemma leading_digit_accepted:
  "planVersion ''2026Q3'' \<and> \<not> documented_plan_version ''2026Q3''"
  by (simp add: planVersion_def documented_plan_version_def ascii_letter_def ascii_upper_letter_def
      ascii_lower_letter_def ascii_digit_def)

text \<open>
  C17. \<open>validate\<close> accepts exactly the configurations of \<open>config_ok\<close>: the sequence of its early returns
  is equivalent to the declarative conditions on metadata, quotas, providers with their streaming
  mode, and the references of every route. In one point this is not what \<open>docs/APML-Spec.md\<close> says, and
  the second part states which: the accepted configurations whose plan version does not have the
  documented form are those in which it starts with a digit.
\<close>

theorem validate_iff_config_ok:
  "(validate c = None \<longleftrightarrow> config_ok c)
    \<and> (validate c = None \<and> \<not> documented_plan_version (cfg_PlanVersion c)
        \<longleftrightarrow> config_ok c \<and> ascii_digit (hd (cfg_PlanVersion c)))"
  using planVersion_documented [of "cfg_PlanVersion c"] validate_None_iff [of c]
  by (auto simp: config_ok_def)

text \<open>
  Go iterates maps in random order, so which error is reported may vary, but not whether the
  configuration is accepted: two configurations with the same entries in any order are both
  accepted or both rejected, and they resolve every route to the same quota.
\<close>

theorem validate_order_independent:
  assumes "same_config c d"
  shows "(validate c = None \<longleftrightarrow> validate d = None) \<and> ResolveQuota c path = ResolveQuota d path"
proof
  show "validate c = None \<longleftrightarrow> validate d = None"
    using assms by (simp add: validate_None_iff config_ok_same)
  show "ResolveQuota c path = ResolveQuota d path"
    using assms gmap_perm(2) [of "cfg_Quotas c" "cfg_Quotas d"]
      gmap_perm(2) [of "cfg_Routes c" "cfg_Routes d"]
    by (simp add: same_config_def ResolveQuota_def split: option.split)
qed

definition two_routes :: "(string \<times> route_config) list" where
  "two_routes = [(''/a'', zero_route), (''/b'', \<lparr>rc_Provider = ''p'', rc_Quota = []\<rparr>)]"

lemma validate_order_independent_witness:
  "validate (sample_config\<lparr>cfg_Routes := two_routes\<rparr>) = None \<longleftrightarrow>
   validate (sample_config\<lparr>cfg_Routes := rev two_routes\<rparr>) = None"
  using validate_order_independent
    [of "sample_config\<lparr>cfg_Routes := two_routes\<rparr>" "sample_config\<lparr>cfg_Routes := rev two_routes\<rparr>"]
  by (simp add: same_config_def two_routes_def)

text \<open>
  C36. What the rest of the gateway may rely on once \<open>Parse\<close> returned: the configuration passed
  validation, every route path starts with a slash, and every route has a provider with a host, both
  usage paths and a complete streaming block.
\<close>

theorem Parse_well_formed:
  assumes "Parse codec file = Inr c"
  shows "config_ok c \<and> cfg_Routes c \<noteq> []
    \<and> (\<forall>path r. map_of (cfg_Routes c) path = Some r \<longrightarrow>
        has_prefix path ''/''
        \<and> (\<exists>p. map_of (cfg_Providers c) (rc_Provider r) = Some p \<and> pc_Host p \<noteq> []
            \<and> pc_Usage p \<noteq> None \<and> (\<exists>s. pc_Streaming p = Some s \<and> streaming_ok s)))"
proof (intro conjI allI impI)
  show ok: "config_ok c" by (rule Parse_config_ok [OF assms])
  then show "cfg_Routes c \<noteq> []" by (simp add: config_ok_def)
  fix path r
  assume r: "map_of (cfg_Routes c) path = Some r"
  then show "has_prefix path ''/''"
    using Parse_routes_ok [OF assms] by (auto simp: routes_ok_def)
  from config_ok_route [OF ok r] obtain p where p: "map_of (cfg_Providers c) (rc_Provider r) = Some p"
    by (auto simp: route_ok_def)
  with config_ok_provider(1) [OF ok p]
  show "\<exists>p. map_of (cfg_Providers c) (rc_Provider r) = Some p \<and> pc_Host p \<noteq> []
      \<and> pc_Usage p \<noteq> None \<and> (\<exists>s. pc_Streaming p = Some s \<and> streaming_ok s)"
    by (auto simp: provider_ok_def)
qed

lemma Parse_well_formed_witness:
  "Parse sample_codec (Inr []) = Inr sample_config \<and> config_ok sample_config"
  using Parse_well_formed [OF sample_Parse] sample_Parse by simp

text \<open>
  \<open>ResolveQuota\<close> on a validated configuration: it answers \<open>false\<close> with the zero quota exactly
  for paths that are no route and for routes that name no quota; for every other route it returns
  the declared quota, whose limits are not negative and whose mode is known if a limit is active.
\<close>

theorem ResolveQuota_valid:
  assumes "config_ok c"
  shows "case map_of (cfg_Routes c) path of
      None \<Rightarrow> ResolveQuota c path = (zero_quota, False)
    | Some r \<Rightarrow> if rc_Quota r = [] then ResolveQuota c path = (zero_quota, False)
        else \<exists>q. map_of (cfg_Quotas c) (rc_Quota r) = Some q \<and> quota_ok q
               \<and> ResolveQuota c path = (q, True)"
proof (cases "map_of (cfg_Routes c) path")
  case (Some r)
  with ResolveQuota_some [OF assms Some] show ?thesis by (simp add: ResolveQuota_def)
qed (simp add: ResolveQuota_def)

lemma ResolveQuota_valid_witness: "ResolveQuota sample_config ''/a'' = (sample_quota, True)"
  using ResolveQuota_valid [OF sample_config_ok, of "''/a''"] by simp

end
