(* ===== verification/Json.thy ===== *)
theory Json
  imports APML
begin

text \<open>
  The two JSON libraries the gateway calls, \<open>gjson\<close> and \<open>sjson\<close>, are outside the repository. Their
  functions are arguments of the definitions that use them; this theory only fixes the types.
\<close>

text \<open>A lookup: JSON text and path to a result, with the accessors the code calls.\<close>

record gjson_result =
  g_Exists :: bool
  g_Raw :: string
  g_Int :: int64
  g_String :: string
  g_Bool :: bool

type_synonym gjson = "string \<Rightarrow> string \<Rightarrow> gjson_result"

text \<open>
  \<open>sjson.SetBytes\<close>: JSON text, path and value to the returned bytes and the returned error, which
  the code ignores.
\<close>

type_synonym sjson = "string \<Rightarrow> string \<Rightarrow> yaml_value \<Rightarrow> string \<times> string option"

end
