(* ===== verification/UsageStore.thy ===== *)
theory UsageStore
  imports UsageLedger Json
begin

text \<open>
  \<open>internal/usage/store.go\<close>: the quota check before a request is forwarded, and the three
  statistics queries. A query of the engine may fail; \<open>query_fault\<close> says for which period it does.
  The lookup of a path in a JSON text is the argument \<open>gj\<close>.
\<close>

section \<open>Estimating a request\<close>

text \<open>Go's integer division truncates towards zero.\<close>

definition quot_int64 :: "int64 \<Rightarrow> int64 \<Rightarrow> int64" where
  "quot_int64 a b = word_of_int (sgn (sint a) * sgn (sint b) * (\<bar>sint a\<bar> div \<bar>sint b\<bar>))"

definition estimateInputTokens :: "gjson \<Rightarrow> string \<Rightarrow> provider_config option \<Rightarrow> int64" where
  "estimateInputTokens gj body provider =
     (case provider of
        None \<Rightarrow> 0
      | Some p \<Rightarrow>
          if pc_InputMessage p = [] \<or> length body = 0 then 0
          else (let result = gj body (pc_InputMessage p)
                in if \<not> g_Exists result then 0
                   else quot_int64 (word_of_nat (length (g_Raw result)) * 6) 10))"

section \<open>Current usage\<close>

datatype query_error =
    UnknownPeriod string
  | EngineError string
  | IntegerOverflow
  | ScanFailed

definition scan_result :: "sqlite \<Rightarrow> sql_num \<Rightarrow> query_error + int64" where
  "scan_result E c = (case scan_int64 E c of Some x \<Rightarrow> Inr x | None \<Rightarrow> Inl ScanFailed)"

definition query_table ::
  "sqlite \<Rightarrow> usage_row list \<Rightarrow> string \<Rightarrow> string \<Rightarrow> string \<Rightarrow> string \<Rightarrow> query_error + int64" where
  "query_table E rows mode localKey routePath periodValue =
     (if mode = ''shared'' then
        (case sql_sum E (map u_tokens
             (filter (\<lambda>r. u_route_path r = routePath \<and> u_period r = periodValue) rows)) of
           None \<Rightarrow> Inl IntegerOverflow
         | Some c \<Rightarrow> scan_result E c)
      else
        (case find (\<lambda>r. row_key r = (localKey, routePath, periodValue)) rows of
           None \<Rightarrow> Inr 0  \<comment> \<open>\<open>sql.ErrNoRows\<close>\<close>
         | Some r \<Rightarrow> scan_result E (u_tokens r)))"

definition queryTokens ::
  "sqlite \<Rightarrow> (string \<Rightarrow> string option) \<Rightarrow> usage_db \<Rightarrow> string \<Rightarrow> string \<Rightarrow> string \<Rightarrow> string \<Rightarrow> string
     \<Rightarrow> query_error + int64" where
  "queryTokens E query_fault db mode localKey routePath period periodValue =
     (if period = ''daily'' then
        (case query_fault period of Some m \<Rightarrow> Inl (EngineError m)
         | None \<Rightarrow> query_table E (db_daily db) mode localKey routePath periodValue)
      else if period = ''monthly'' then
        (case query_fault period of Some m \<Rightarrow> Inl (EngineError m)
         | None \<Rightarrow> query_table E (db_monthly db) mode localKey routePath periodValue)
      else Inl (UnknownPeriod period))"

section \<open>The quota check\<close>

record check_result =
  c_Allowed :: bool
  c_DenyReason :: string
  c_CurrentTokens :: int64
  c_QuotaLimit :: int64
  c_Estimated :: int64

definition allow_result :: "int64 \<Rightarrow> check_result" where
  "allow_result estimated = \<lparr>c_Allowed = True, c_DenyReason = [], c_CurrentTokens = 0,
     c_QuotaLimit = 0, c_Estimated = estimated\<rparr>"

definition deny_result :: "string \<Rightarrow> int64 \<Rightarrow> int64 \<Rightarrow> int64 \<Rightarrow> check_result" where
  "deny_result period current estimated limit =
     \<lparr>c_Allowed = False,
      c_DenyReason = period @ '' quota exceeded: used '' @ show_int (sint current)
        @ '' + estimated '' @ show_int (sint estimated) @ '' > limit '' @ show_int (sint limit),
      c_CurrentTokens = current, c_QuotaLimit = limit, c_Estimated = estimated\<rparr>"

text \<open>
  One window: \<open>None\<close> lets the check go on. A database error allows the request and ends the check.
\<close>

definition check_window ::
  "sqlite \<Rightarrow> (string \<Rightarrow> string option) \<Rightarrow> usage_db \<Rightarrow> string \<Rightarrow> string \<Rightarrow> string \<Rightarrow> string \<Rightarrow> string
     \<Rightarrow> int64 \<Rightarrow> int64 \<Rightarrow> check_result option" where
  "check_window E query_fault db mode localKey routePath period periodValue limit estimated =
     (if i64_gt limit 0 then
        (case queryTokens E query_fault db mode localKey routePath period periodValue of
           Inl err \<Rightarrow> Some (allow_result 0)
         | Inr current \<Rightarrow>
             if i64_gt (current + estimated) limit
             then Some (deny_result period current estimated limit) else None)
      else None)"

definition QuotaCheck ::
  "sqlite \<Rightarrow> gjson \<Rightarrow> (string \<Rightarrow> string option) \<Rightarrow> go_time \<Rightarrow> usage_db \<Rightarrow> string \<Rightarrow> string
     \<Rightarrow> quota_detail \<Rightarrow> string \<Rightarrow> provider_config option \<Rightarrow> check_result" where
  "QuotaCheck E gj query_fault now db localKey routePath quota requestBody provider =
     (if q_Daily quota = 0 \<and> q_Monthly quota = 0 then allow_result 0
      else
        (let estimated = estimateInputTokens gj requestBody provider;
             today = format_date now;
             thisMonth = format_month now
         in case check_window E query_fault db (q_Mode quota) localKey routePath ''daily'' today
                (q_Daily quota) estimated of
              Some r \<Rightarrow> r
            | None \<Rightarrow>
                (case check_window E query_fault db (q_Mode quota) localKey routePath ''monthly''
                    thisMonth (q_Monthly quota) estimated of
                   Some r \<Rightarrow> r
                 | None \<Rightarrow> allow_result estimated)))"

section \<open>Statistics\<close>

text \<open>\<open>ORDER BY\<close>: insertion sort by the comparison of the statement; rows that compare equal keep
  some order.\<close>

fun insert_by :: "('a \<Rightarrow> 'a \<Rightarrow> bool) \<Rightarrow> 'a \<Rightarrow> 'a list \<Rightarrow> 'a list" where
  "insert_by before x [] = [x]"
| "insert_by before x (y # ys) =
     (if before x y then x # y # ys else y # insert_by before x ys)"

definition order_by :: "('a \<Rightarrow> 'a \<Rightarrow> bool) \<Rightarrow> 'a list \<Rightarrow> 'a list" where
  "order_by before xs = foldr (insert_by before) xs []"

definition sql_le :: "sqlite \<Rightarrow> sql_num \<Rightarrow> sql_num \<Rightarrow> bool" where
  "sql_le E a b =
     (case (a, b) of (SqlInt x, SqlInt y) \<Rightarrow> sint x \<le> sint y | _ \<Rightarrow> real_le E a b)"

text \<open>\<open>ORDER BY period DESC, total_combined DESC\<close>\<close>

definition stat_before :: "sqlite \<Rightarrow> usage_row \<Rightarrow> usage_row \<Rightarrow> bool" where
  "stat_before E r q \<longleftrightarrow> u_period q < u_period r
     \<or> u_period q = u_period r \<and> sql_le E (u_tokens q) (u_tokens r)"

record stat_row =
  s_Period :: string
  s_RoutePath :: string
  s_LocalKey :: string
  s_TotalRequests :: int64
  s_PromptTokens :: int64
  s_CompletionTokens :: int64
  s_TotalTokens :: int64
  s_LastActivity :: string  \<comment> \<open>empty in a monthly row\<close>

record verbose_row =
  v_ID :: int
  v_Timestamp :: string
  v_LocalKey :: string
  v_RoutePath :: string
  v_ClientIP :: string
  v_PromptTokens :: int64
  v_CompletionTokens :: int64
  v_TotalTokens :: int64

datatype stats_error = QueryFailed string | RowScanFailed | IterateFailed string

record stats_fault =
  sf_query :: "string option"
  sf_iterate :: "string option"

definition scan_stat :: "sqlite \<Rightarrow> bool \<Rightarrow> usage_row \<Rightarrow> stat_row option" where
  "scan_stat E activity r =
     (case (scan_int64 E (u_total_requests r), scan_int64 E (u_prompt_tokens r),
            scan_int64 E (u_completion_tokens r), scan_int64 E (u_tokens r)) of
        (Some n, Some p, Some c, Some t) \<Rightarrow>
          Some \<lparr>s_Period = u_period r, s_RoutePath = u_route_path r, s_LocalKey = u_local_key r,
            s_TotalRequests = n, s_PromptTokens = p, s_CompletionTokens = c, s_TotalTokens = t,
            s_LastActivity = (if activity then u_updated_at r else [])\<rparr>
      | _ \<Rightarrow> None)"

fun scan_rows :: "('r \<Rightarrow> 's option) \<Rightarrow> 'r list \<Rightarrow> 's list option" where
  "scan_rows scan [] = Some []"
| "scan_rows scan (r # rs) =
     (case scan r of None \<Rightarrow> None | Some s \<Rightarrow> map_option (Cons s) (scan_rows scan rs))"

fun_cases scan_rows_ConsE: "scan_rows scan (r # rs) = Some out"

lemma length_scan_rows: "scan_rows scan rows = Some out \<Longrightarrow> length out = length rows"
  by (induction rows arbitrary: out) (auto elim!: scan_rows_ConsE split: option.splits)

definition run_query ::
  "stats_fault \<Rightarrow> ('r \<Rightarrow> 's option) \<Rightarrow> 'r list \<Rightarrow> stats_error + 's list" where
  "run_query fault scan rows =
     (case sf_query fault of Some m \<Rightarrow> Inl (QueryFailed m)
      | None \<Rightarrow>
          (case scan_rows scan rows of
             None \<Rightarrow> Inl RowScanFailed
           | Some result \<Rightarrow>
               (case sf_iterate fault of Some m \<Rightarrow> Inl (IterateFailed m) | None \<Rightarrow> Inr result)))"

definition GetDailyStats ::
  "sqlite \<Rightarrow> stats_fault \<Rightarrow> usage_db \<Rightarrow> string \<Rightarrow> string \<Rightarrow> stats_error + stat_row list" where
  "GetDailyStats E fault db startDate endDate =
     run_query fault (scan_stat E True)
       (order_by (stat_before E)
          (filter (\<lambda>r. startDate \<le> u_period r \<and> u_period r \<le> endDate) (db_daily db)))"

definition GetMonthlyStats ::
  "sqlite \<Rightarrow> stats_fault \<Rightarrow> usage_db \<Rightarrow> int \<Rightarrow> stats_error + stat_row list" where
  "GetMonthlyStats E fault db year =
     run_query fault (scan_stat E False)
       (order_by (stat_before E)
          (filter (\<lambda>r. take 4 (u_period r) = sprintf_04d year) (db_monthly db)))"

definition verbose_of :: "log_row \<Rightarrow> verbose_row" where
  "verbose_of l =
     \<lparr>v_ID = l_id l, v_Timestamp = l_created_at l, v_LocalKey = l_local_key l,
      v_RoutePath = l_route_path l, v_ClientIP = l_client_ip l,
      v_PromptTokens = l_prompt_tokens l, v_CompletionTokens = l_completion_tokens l,
      v_TotalTokens = l_total_tokens l\<rparr>"

text \<open>A negative \<open>LIMIT\<close> is no limit.\<close>

definition sql_limit :: "int \<Rightarrow> 'a list \<Rightarrow> 'a list" where
  "sql_limit n xs = (if n < 0 then xs else take (nat n) xs)"

definition GetVerboseLogs ::
  "stats_fault \<Rightarrow> usage_db \<Rightarrow> int \<Rightarrow> stats_error + verbose_row list" where
  "GetVerboseLogs fault db limit =
     run_query fault (\<lambda>l. Some (verbose_of l))
       (sql_limit limit (order_by (\<lambda>l k. l_id k \<le> l_id l) (db_logs db)))"

section \<open>The interface of an ordered result\<close>

locale row_order =
  fixes before :: "'a \<Rightarrow> 'a \<Rightarrow> bool"
    and carrier :: "'a set"
  assumes before_total: "x \<in> carrier \<Longrightarrow> y \<in> carrier \<Longrightarrow> before x y \<or> before y x"
    and before_trans: "x \<in> carrier \<Longrightarrow> y \<in> carrier \<Longrightarrow> z \<in> carrier \<Longrightarrow>
      before x y \<Longrightarrow> before y z \<Longrightarrow> before x z"
begin

lemma insert_by_sorted:
  assumes "x \<in> carrier" "set ys \<subseteq> carrier" "sorted_wrt before ys"
  shows "sorted_wrt before (insert_by before x ys)"
proof -
  have set_eq: "set (insert_by before x zs) = insert x (set zs)" for zs
    by (induction zs) auto
  show ?thesis
    using assms
  proof (induction ys)
    case (Cons y ys)
    show ?case
    proof (cases "before x y")
      case True
      with Cons.prems show ?thesis by (auto intro: before_trans [of x y])
    next
      case False
      then have "before y x" using Cons.prems before_total [of x y] by auto
      with Cons False show ?thesis by (auto simp: set_eq)
    qed
  qed simp
qed

lemma order_by_sorted: "set xs \<subseteq> carrier \<Longrightarrow> sorted_wrt before (order_by before xs)"
proof (induction xs)
  case (Cons x xs)
  have "set (insert_by before z zs) = insert z (set zs)" for z zs
    by (induction zs) auto
  then have "set (order_by before ys) = set ys" for ys
    by (induction ys) (simp_all add: order_by_def)
  with Cons insert_by_sorted [of x "order_by before xs"] show ?case
    by (simp add: order_by_def)
qed (simp add: order_by_def)

end

lemma mset_insert_by [simp]: "mset (insert_by before x ys) = add_mset x (mset ys)"
  by (induction ys) auto

lemma mset_order_by [simp]: "mset (order_by before xs) = mset xs"
  by (induction xs) (simp_all add: order_by_def)

lemma set_order_by [simp]: "set (order_by before xs) = set xs"
  by (metis mset_eq_setD mset_order_by)

definition int_rows :: "usage_row set" where
  "int_rows = {r. \<exists>x. u_tokens r = SqlInt x}"

interpretation stat_order: row_order "stat_before E" int_rows for E
proof (unfold_locales, goal_cases)
  case (1 x y)
  then show ?case by (auto simp: stat_before_def sql_le_def int_rows_def)
next
  case (2 x y z)
  then show ?case by (auto simp: stat_before_def sql_le_def int_rows_def)
qed

interpretation log_order: row_order "\<lambda>l k. l_id k \<le> l_id l" UNIV
  by unfold_locales auto

section \<open>Queries on a ledger\<close>

lemma sum_ints_fits:
  assumes "\<forall>x \<in> set xs. 0 \<le> sint x" "0 \<le> sint acc" "sint acc + sum_list (map sint xs) < 2 ^ 63"
  shows "\<exists>s. sum_ints acc xs = Some s \<and> sint s = sint acc + sum_list (map sint xs)"
  using assms
proof (induction xs arbitrary: acc)
  case (Cons x xs)
  have "0 \<le> sum_list (map sint xs)" using Cons.prems(1) by (intro sum_list_nonneg) auto
  then have r: "in_int64 (sint acc + sint x)"
    using Cons.prems by (simp add: in_int64_def)
  then have "sint (acc + x) = sint acc + sint x" by (rule sint_add_int64)
  with Cons.IH [of "acc + x"] Cons.prems r show ?case by (auto simp: add.assoc)
qed simp

lemma int_cells_map [simp]: "int_cells (map (\<lambda>r. SqlInt (f r)) rs) = Some (map f rs)"
  by (induction rs) auto

text \<open>The tokens a mode charges a request with: the key's own, or those of the whole route.\<close>

definition charged ::
  "string \<Rightarrow> string \<Rightarrow> string \<Rightarrow> (go_time \<Rightarrow> string) \<Rightarrow> string \<Rightarrow> usage_record list
     \<Rightarrow> usage_record list" where
  "charged mode localKey routePath fmt period hist =
     filter (\<lambda>rec. r_RoutePath rec = routePath \<and> fmt (r_CreatedAt rec) = period
        \<and> (mode = ''shared'' \<or> r_LocalKey rec = localKey)) hist"

lemma query_table_ledger:
  assumes rows: "rows_account fmt hist rows" and fits: "fits hist"
  shows "\<exists>x. query_table E rows mode localKey routePath period = Inr x
    \<and> sint x = tally r_TotalTokens (charged mode localKey routePath fmt period hist)"
proof (cases "mode = ''shared''")
  case True
  let ?P = "\<lambda>(k, p, d). p = routePath \<and> d = period"
  let ?rows = "filter (\<lambda>r. u_route_path r = routePath \<and> u_period r = period) rows"
  let ?t = "\<lambda>r. tally r_TotalTokens (bucket fmt (row_key r) hist)"
  have P: "?rows = filter (\<lambda>r. ?P (row_key r)) rows" by (simp add: row_key_def)
  have cells: "map u_tokens ?rows = map (\<lambda>r. SqlInt (word_of_int (?t r))) ?rows"
    using row_tokens(1) [OF rows fits] by (intro map_cong) auto
  have sints: "map sint (map (\<lambda>r. word_of_int (?t r) :: int64) ?rows) = map ?t ?rows"
    using row_tokens(2) [OF rows fits] by simp
  have charged: "charged mode localKey routePath fmt period hist
      = filter (\<lambda>rec. ?P (bucket_of fmt rec)) hist"
    by (simp add: charged_def bucket_of_def True)
  have sum: "sum_list (map ?t ?rows)
      = tally r_TotalTokens (charged mode localKey routePath fmt period hist)"
    unfolding charged P by (rule tally_rows_where [OF rows])
  have nonneg: "\<forall>x \<in> set (map (\<lambda>r. word_of_int (?t r) :: int64) ?rows). 0 \<le> sint x"
    using row_tokens(2) [OF rows fits] fits_filter_range(5) [OF fits]
    by (auto simp: bucket_def)
  have "sum_list (map ?t ?rows) < 2 ^ 63"
    unfolding sum charged_def by (rule fits_filter_range(6) [OF fits])
  then obtain x where "sum_ints 0 (map (\<lambda>r. word_of_int (?t r)) ?rows) = Some x"
      "sint x = sum_list (map ?t ?rows)"
    using sum_ints_fits [OF nonneg, of 0] unfolding sints by auto
  then show ?thesis
    unfolding query_table_def sql_sum_def cells
    by (simp add: True scan_result_def scan_int64_def sum)
next
  case False
  have charged: "charged mode localKey routePath fmt period hist
      = bucket fmt (localKey, routePath, period) hist"
    using False by (auto simp: charged_def bucket_def bucket_of_def intro: filter_cong)
  show ?thesis
  proof (cases "find (\<lambda>r. row_key r = (localKey, routePath, period)) rows")
    case None
    with find_row_None [OF rows] False show ?thesis
      by (simp add: query_table_def charged)
  next
    case (Some row)
    note row = find_row_Some [OF rows Some]
    show ?thesis
      using Some False row_tokens [OF rows fits row(1)]
      by (simp add: query_table_def charged scan_result_def scan_int64_def row(2))
  qed
qed

section \<open>The quota check on a ledger\<close>

definition used_tokens ::
  "string \<Rightarrow> string \<Rightarrow> string \<Rightarrow> (go_time \<Rightarrow> string) \<Rightarrow> go_time \<Rightarrow> usage_record list \<Rightarrow> int" where
  "used_tokens mode localKey routePath fmt now hist =
     tally r_TotalTokens (charged mode localKey routePath fmt (fmt now) hist)"

lemma used_tokens_range:
  assumes "fits hist"
  shows "0 \<le> used_tokens mode localKey routePath fmt now hist"
    and "used_tokens mode localKey routePath fmt now hist \<le> tally r_TotalTokens hist"
  using fits_filter_range(5) [OF assms] assms
  by (auto simp: used_tokens_def charged_def fits_def intro!: tally_filter_le)

lemma queryTokens_ledger:
  assumes "ledger hist db" "fits hist" "\<forall>p. query_fault p = None"
  shows "queryTokens E query_fault db mode localKey routePath ''daily'' (format_date now)
      = Inr (word_of_int (used_tokens mode localKey routePath format_date now hist))"
    and "queryTokens E query_fault db mode localKey routePath ''monthly'' (format_month now)
      = Inr (word_of_int (used_tokens mode localKey routePath format_month now hist))"
proof -
  have rows: "rows_account format_date hist (db_daily db)"
      "rows_account format_month hist (db_monthly db)"
    using assms(1) by (simp_all add: ledger_def)
  have "query_table E rows mode localKey routePath (fmt now)
      = Inr (word_of_int (used_tokens mode localKey routePath fmt now hist))"
    if acc: "rows_account fmt hist rows" for fmt rows
  proof -
    obtain x where x: "query_table E rows mode localKey routePath (fmt now) = Inr x"
        "sint x = used_tokens mode localKey routePath fmt now hist"
      using query_table_ledger [OF acc assms(2)] unfolding used_tokens_def by blast
    have "word_of_int (used_tokens mode localKey routePath fmt now hist) = x"
      unfolding x(2) [symmetric] by simp
    with x(1) show ?thesis by simp
  qed
  with rows assms(3) show
    "queryTokens E query_fault db mode localKey routePath ''daily'' (format_date now)
      = Inr (word_of_int (used_tokens mode localKey routePath format_date now hist))"
    "queryTokens E query_fault db mode localKey routePath ''monthly'' (format_month now)
      = Inr (word_of_int (used_tokens mode localKey routePath format_month now hist))"
    by (simp_all add: queryTokens_def)
qed

text \<open>One window passes iff it has no limit or the used and estimated tokens stay within it.\<close>

lemma check_window_pass:
  assumes q: "queryTokens E query_fault db mode localKey routePath period periodValue
      = Inr (word_of_int used)"
    and r: "0 \<le> used" "0 \<le> sint est" "used + sint est < 2 ^ 63" "0 \<le> sint limit"
  shows "check_window E query_fault db mode localKey routePath period periodValue limit est
    = (if limit = 0 \<or> used + sint est \<le> sint limit then None
       else Some (deny_result period (word_of_int used) est limit))"
proof -
  have "in_int64 used" using r by (simp add: in_int64_def)
  then have u: "sint (word_of_int used :: int64) = used" by (rule sint_of_int_int64)
  have "in_int64 (sint (word_of_int used :: int64) + sint est)"
    using r by (simp add: u in_int64_def)
  then have "sint (word_of_int used + est) = used + sint est"
    by (simp add: sint_add_int64 u)
  moreover have "limit = 0 \<longleftrightarrow> sint limit = 0" using sint_inject [of limit 0] by simp
  ultimately show ?thesis using r(4) by (simp add: check_window_def q i64_gt_def)
qed

lemma queryTokens_no_fault:
  "query_fault period = None \<Longrightarrow>
    queryTokens E query_fault db mode k path period v = queryTokens E (\<lambda>p. None) db mode k path period v"
  by (auto simp: queryTokens_def)

lemma queryTokens_fault:
  "query_fault period = Some m \<Longrightarrow> period \<in> {''daily'', ''monthly''} \<Longrightarrow>
    queryTokens E query_fault db mode k path period v = Inl (EngineError m)"
  by (auto simp: queryTokens_def)

text \<open>What a window answers, by the tokens used.\<close>

definition window_answer ::
  "string option \<Rightarrow> string \<Rightarrow> int \<Rightarrow> int64 \<Rightarrow> int64 \<Rightarrow> check_result option" where
  "window_answer fault period used est limit =
     (if limit = 0 then None
      else case fault of
             Some m \<Rightarrow> Some (allow_result 0)
           | None \<Rightarrow> if used + sint est \<le> sint limit then None
                     else Some (deny_result period (word_of_int used) est limit))"

lemma check_window_answer:
  assumes "ledger hist db" "fits hist" "0 \<le> sint est" "tally r_TotalTokens hist + sint est < 2 ^ 63"
    and "0 \<le> sint limit"
  shows "check_window E fault db mode k path ''daily'' (format_date now) limit est
      = window_answer (fault ''daily'') ''daily'' (used_tokens mode k path format_date now hist) est limit"
    and "check_window E fault db mode k path ''monthly'' (format_month now) limit est
      = window_answer (fault ''monthly'') ''monthly'' (used_tokens mode k path format_month now hist) est limit"
proof -
  have pos: "i64_gt limit 0 \<longleftrightarrow> limit \<noteq> 0"
    using assms(5) sint_inject [of limit 0] by (auto simp: i64_gt_def)
  have r: "0 \<le> used_tokens mode k path fmt now hist"
      "used_tokens mode k path fmt now hist + sint est < 2 ^ 63" for fmt
    using used_tokens_range [OF assms(2), of mode k path fmt now] assms(4) by linarith+
  have q: "queryTokens E (\<lambda>p. None) db mode k path ''daily'' (format_date now)
        = Inr (word_of_int (used_tokens mode k path format_date now hist))"
      "queryTokens E (\<lambda>p. None) db mode k path ''monthly'' (format_month now)
        = Inr (word_of_int (used_tokens mode k path format_month now hist))"
    by (rule queryTokens_ledger [OF assms(1,2)]; simp)+
  have step: "check_window E fault db mode k path period v limit est
      = window_answer (fault period) period (used_tokens mode k path fmt now hist) est limit"
    if "queryTokens E (\<lambda>p. None) db mode k path period v
        = Inr (word_of_int (used_tokens mode k path fmt now hist))"
      "period \<in> {''daily'', ''monthly''}" for period v fmt
  proof (cases "fault period")
    case None
    with that(1) have "queryTokens E fault db mode k path period v
        = Inr (word_of_int (used_tokens mode k path fmt now hist))"
      by (simp only: queryTokens_no_fault [where query_fault = fault, OF None])
    from check_window_pass [OF this r(1) assms(3) r(2) assms(5)] show ?thesis
      by (simp add: window_answer_def None)
  next
    case (Some m)
    show ?thesis
      by (simp add: check_window_def window_answer_def pos Some queryTokens_fault [where query_fault = fault, OF Some that(2)])
  qed
  show "check_window E fault db mode k path ''daily'' (format_date now) limit est
      = window_answer (fault ''daily'') ''daily'' (used_tokens mode k path format_date now hist) est limit"
    by (rule step [OF q(1)]) blast
  show "check_window E fault db mode k path ''monthly'' (format_month now) limit est
      = window_answer (fault ''monthly'') ''monthly'' (used_tokens mode k path format_month now hist) est limit"
    by (rule step [OF q(2)]) blast
qed

lemma allowed_simps [simp]:
  "c_Allowed (allow_result e)" "\<not> c_Allowed (deny_result p c e l)"
  by (simp_all add: allow_result_def deny_result_def)

lemma QuotaCheck_denied_window:
  assumes "\<not> c_Allowed (QuotaCheck E gj query_fault now db localKey routePath q body provider)"
    (is "\<not> c_Allowed ?r")
  shows "check_window E query_fault db (q_Mode q) localKey routePath ''daily'' (format_date now)
        (q_Daily q) (estimateInputTokens gj body provider) = Some ?r
    \<or> check_window E query_fault db (q_Mode q) localKey routePath ''monthly'' (format_month now)
        (q_Monthly q) (estimateInputTokens gj body provider) = Some ?r"
    (is "?d = _ \<or> ?m = _")
proof (cases "q_Daily q = 0 \<and> q_Monthly q = 0")
  case True
  with assms show ?thesis by (simp add: QuotaCheck_def)
next
  case False
  then have r: "?r = (case ?d of Some r \<Rightarrow> r
      | None \<Rightarrow> (case ?m of Some r \<Rightarrow> r
        | None \<Rightarrow> allow_result (estimateInputTokens gj body provider)))"
    unfolding QuotaCheck_def Let_def by (simp only: if_False)
  with assms show ?thesis by (cases ?d; cases ?m) simp_all
qed

lemma used_tokens_append:
  "used_tokens mode localKey routePath fmt now (hist @ recs)
    = used_tokens mode localKey routePath fmt now hist + used_tokens mode localKey routePath fmt now recs"
  by (simp add: used_tokens_def charged_def)

text \<open>The tokens of records that are each bounded.\<close>

lemma tally_bounded:
  "\<forall>r \<in> set recs. sint (f r) \<le> B \<Longrightarrow> tally f recs \<le> int (length recs) * B"
  by (induction recs) (auto simp: algebra_simps)

lemma used_tokens_bounded:
  assumes "\<forall>r \<in> set recs. r_RoutePath r = routePath \<longrightarrow> (mode = ''shared'' \<or> r_LocalKey r = localKey) \<longrightarrow>
      sint (r_TotalTokens r) \<le> B" "0 \<le> B"
    and "length (filter (\<lambda>r. r_RoutePath r = routePath \<and> (mode = ''shared'' \<or> r_LocalKey r = localKey)) recs)
      \<le> n"
  shows "used_tokens mode localKey routePath fmt now recs \<le> int n * B"
proof -
  let ?c = "charged mode localKey routePath fmt (fmt now) recs"
  have "length ?c \<le> length (filter (\<lambda>r. r_RoutePath r = routePath
      \<and> (mode = ''shared'' \<or> r_LocalKey r = localKey)) recs)"
    by (induction recs) (auto simp: charged_def)
  then have "int (length ?c) * B \<le> int n * B"
    using assms(2,3) by (intro mult_right_mono) auto
  moreover have "used_tokens mode localKey routePath fmt now recs \<le> int (length ?c) * B"
    unfolding used_tokens_def by (rule tally_bounded) (use assms(1) in \<open>auto simp: charged_def\<close>)
  ultimately show ?thesis by linarith
qed

text \<open>What an allowed check says about the windows with a limit.\<close>

lemma QuotaCheck_allowed_within:
  assumes "ledger hist db" "fits hist" "\<forall>p. query_fault p = None" "quota_ok q"
    and "est = estimateInputTokens gj body provider" "0 \<le> sint est"
    and "tally r_TotalTokens hist + sint est < 2 ^ 63"
    and allowed: "c_Allowed (QuotaCheck E gj query_fault now db localKey routePath q body provider)"
  shows "q_Daily q \<noteq> 0 \<Longrightarrow>
      used_tokens (q_Mode q) localKey routePath format_date now hist + sint est \<le> sint (q_Daily q)"
    and "q_Monthly q \<noteq> 0 \<Longrightarrow>
      used_tokens (q_Mode q) localKey routePath format_month now hist + sint est \<le> sint (q_Monthly q)"
proof -
  have r: "0 \<le> used_tokens (q_Mode q) localKey routePath fmt now hist"
      "used_tokens (q_Mode q) localKey routePath fmt now hist + sint est < 2 ^ 63" for fmt
    using used_tokens_range [OF assms(2), of "q_Mode q" localKey routePath fmt now] assms(7)
    by linarith+
  have lim: "0 \<le> sint (q_Daily q)" "0 \<le> sint (q_Monthly q)"
    using assms(4) by (simp_all add: quota_ok_def)
  note daily = check_window_pass [OF queryTokens_ledger(1) [OF assms(1-3)] r(1) assms(6) r(2) lim(1)]
  note monthly = check_window_pass [OF queryTokens_ledger(2) [OF assms(1-3)] r(1) assms(6) r(2) lim(2)]
  note within = allowed [unfolded QuotaCheck_def Let_def assms(5) [symmetric] daily monthly]
  show "q_Daily q \<noteq> 0 \<Longrightarrow>
      used_tokens (q_Mode q) localKey routePath format_date now hist + sint est \<le> sint (q_Daily q)"
    "q_Monthly q \<noteq> 0 \<Longrightarrow>
      used_tokens (q_Mode q) localKey routePath format_month now hist + sint est \<le> sint (q_Monthly q)"
    using within by (auto split: if_splits)
qed

section \<open>Statistics on a ledger\<close>

definition no_stats_fault :: stats_fault where
  "no_stats_fault = \<lparr>sf_query = None, sf_iterate = None\<rparr>"

definition stat_key :: "stat_row \<Rightarrow> bucket_key" where
  "stat_key r = (s_LocalKey r, s_RoutePath r, s_Period r)"

definition stat_counts :: "stat_row \<Rightarrow> usage_record list \<Rightarrow> bool" where
  "stat_counts r recs \<longleftrightarrow> sint (s_TotalRequests r) = int (length recs)
     \<and> sint (s_PromptTokens r) = tally r_PromptTokens recs
     \<and> sint (s_CompletionTokens r) = tally r_CompletionTokens recs
     \<and> sint (s_TotalTokens r) = tally r_TotalTokens recs"

text \<open>Newer periods first, within a period the larger totals first.\<close>

definition newest_first :: "stat_row \<Rightarrow> stat_row \<Rightarrow> bool" where
  "newest_first r q \<longleftrightarrow> s_Period q < s_Period r
     \<or> s_Period q = s_Period r \<and> sint (s_TotalTokens q) \<le> sint (s_TotalTokens r)"

definition cell_word :: "sql_num \<Rightarrow> int64" where
  "cell_word c = (case c of SqlInt x \<Rightarrow> x | SqlReal w \<Rightarrow> 0)"

definition stat_of :: "bool \<Rightarrow> usage_row \<Rightarrow> stat_row" where
  "stat_of activity r =
     \<lparr>s_Period = u_period r, s_RoutePath = u_route_path r, s_LocalKey = u_local_key r,
      s_TotalRequests = cell_word (u_total_requests r), s_PromptTokens = cell_word (u_prompt_tokens r),
      s_CompletionTokens = cell_word (u_completion_tokens r), s_TotalTokens = cell_word (u_tokens r),
      s_LastActivity = (if activity then u_updated_at r else [])\<rparr>"

lemma stat_key_of [simp]: "stat_key (stat_of activity r) = row_key r"
  by (simp add: stat_key_def stat_of_def row_key_def)

lemma scan_rows_Some:
  "(\<And>r. r \<in> set rs \<Longrightarrow> scan r = Some (f r)) \<Longrightarrow> scan_rows scan rs = Some (map f rs)"
  by (induction rs) auto

lemma stat_of_row:
  assumes "row_accounts row recs" "fits recs"
  shows "scan_stat E activity row = Some (stat_of activity row)"
    "stat_counts (stat_of activity row) recs"
proof -
  show "scan_stat E activity row = Some (stat_of activity row)"
    using assms(1) by (simp add: scan_stat_def scan_int64_def stat_of_def row_accounts_def cell_word_def)
  have "in_int64 (int (length recs))" "in_int64 (tally r_PromptTokens recs)"
      "in_int64 (tally r_CompletionTokens recs)" "in_int64 (tally r_TotalTokens recs)"
    using fits_filter_range [OF assms(2), of "\<lambda>_. True"] assms(2)
    by (simp_all add: in_int64_def fits_def)
  then show "stat_counts (stat_of activity row) recs"
    using assms(1) by (simp add: stat_counts_def stat_of_def row_accounts_def cell_word_def
        sint_of_int_int64 del: of_int_of_nat_eq)
qed

lemma stat_before_newest:
  "r \<in> int_rows \<Longrightarrow> q \<in> int_rows \<Longrightarrow> stat_before E r q \<Longrightarrow>
    newest_first (stat_of activity r) (stat_of activity q)"
  by (auto simp: stat_before_def newest_first_def stat_of_def int_rows_def sql_le_def cell_word_def)

definition stats_answer ::
  "(go_time \<Rightarrow> string) \<Rightarrow> (string \<Rightarrow> bool) \<Rightarrow> usage_record list \<Rightarrow> stat_row list \<Rightarrow> bool" where
  "stats_answer fmt P hist out \<longleftrightarrow>
     sorted_wrt newest_first out \<and> distinct (map stat_key out)
     \<and> stat_key ` set out = {b \<in> bucket_of fmt ` set hist. P (snd (snd b))}
     \<and> (\<forall>r \<in> set out. stat_counts r (bucket fmt (stat_key r) hist))"

lemma table_stats:
  assumes rows: "rows_account fmt hist rows" and fits: "fits hist"
  shows "\<exists>out. run_query no_stats_fault (scan_stat E activity)
      (order_by (stat_before E) (filter (\<lambda>r. P (u_period r)) rows)) = Inr out
    \<and> stats_answer fmt P hist out"
proof -
  let ?sel = "filter (\<lambda>r. P (u_period r)) rows"
  let ?rows = "order_by (stat_before E) ?sel"
  let ?out = "map (stat_of activity) ?rows"
  have acc: "row_accounts r (bucket fmt (row_key r) hist)" if "r \<in> set ?rows" for r
    using that rows by (auto simp: rows_account_def)
  note row = stat_of_row [OF acc fits_bucket [OF fits]]
  have "scan_rows (scan_stat E activity) ?rows = Some ?out"
    by (rule scan_rows_Some) (rule row(1))
  then have "run_query no_stats_fault (scan_stat E activity) ?rows = Inr ?out"
    by (simp add: run_query_def no_stats_fault_def)
  moreover have "stats_answer fmt P hist ?out"
    unfolding stats_answer_def
  proof (intro conjI)
    have ints: "set ?rows \<subseteq> int_rows"
      using acc by (auto simp: int_rows_def row_accounts_def)
    then have "sorted_wrt (stat_before E) ?rows"
      by (intro stat_order.order_by_sorted) simp
    then show "sorted_wrt newest_first ?out"
      unfolding sorted_wrt_map
      by (rule sorted_wrt_mono_rel [rotated]) (use ints stat_before_newest in blast)
    have "mset (map stat_key ?out) = mset (map row_key ?sel)"
      by (simp add: comp_def)
    moreover have "distinct (map row_key ?sel)"
      using rows by (intro distinct_map_filter) (simp add: rows_account_def)
    ultimately show "distinct (map stat_key ?out)"
      by (metis mset_eq_imp_distinct_iff)
    have "row_key ` set rows = bucket_of fmt ` set hist" using rows by (simp add: rows_account_def)
    moreover have "stat_key ` set ?out = {b \<in> row_key ` set rows. P (snd (snd b))}"
      by (auto simp: image_iff row_key_def)
    ultimately show "stat_key ` set ?out = {b \<in> bucket_of fmt ` set hist. P (snd (snd b))}" by simp
    show "\<forall>r \<in> set ?out. stat_counts r (bucket fmt (stat_key r) hist)"
      using row(2) by auto
  qed
  ultimately show ?thesis by blast
qed

text \<open>Rows inserted with growing ids come out reversed.\<close>

lemma order_by_rev:
  assumes "sorted_wrt (\<lambda>x y. f x < f y) (xs :: 'a list)"
  shows "order_by (\<lambda>x y. (f y :: int) \<le> f x) xs = rev xs"
proof -
  have ins: "insert_by (\<lambda>x y. f y \<le> f x) x ys = ys @ [x]" if "\<forall>y \<in> set ys. f x < f y" for x ys
    using that by (induction ys) auto
  show ?thesis using assms by (induction xs) (auto simp: order_by_def ins)
qed

lemma ledger_ids_sorted:
  assumes "ledger hist db"
  shows "sorted_wrt (\<lambda>l k. l_id l < l_id k) (db_logs db)"
proof -
  have "sorted_wrt (<) (map int [1..<Suc (length hist)])"
    by (simp add: sorted_wrt_map del: upt_Suc)
  then have "sorted_wrt (<) (map l_id (db_logs db))"
    using assms by (simp add: ledger_def)
  then show ?thesis by (simp add: sorted_wrt_map)
qed

section \<open>Properties\<close>

definition no_query_fault :: "string \<Rightarrow> string option" where
  "no_query_fault = (\<lambda>p. None)"

definition sample_gjson :: gjson where
  "sample_gjson = (\<lambda>body path. \<lparr>g_Exists = True, g_Raw = body, g_Int = 0, g_String = [],
     g_Bool = True\<rparr>)"

text \<open>
  C1. The decision of \<open>QuotaCheck\<close>, complete, on a database that accounts for the records so far and
  whose totals stay within 64 bits (\<open>fits\<close>, no count negative). A quota without limits allows the
  request. Otherwise the window of the day is checked, then that of the month, each if it has a
  limit: a query that fails allows the request at once, whatever was used; else the request is denied
  for this window exactly when the tokens already charged in it (of the key, or in shared mode of
  the whole route) plus the estimate exceed the limit. A request that passes is allowed. The windows
  are the calendar day and month of the server's local clock, as in the records; that is not the day
  of UTC that \<open>docs/APML-Spec.md\<close> names.
\<close>

theorem QuotaCheck_decision:
  assumes "ledger hist db" "fits hist" "quota_ok q"
    and "est = estimateInputTokens gj body provider" "0 \<le> sint est"
    and "tally r_TotalTokens hist + sint est < 2 ^ 63"
  shows "QuotaCheck E gj query_fault now db localKey routePath q body provider =
    (if q_Daily q = 0 \<and> q_Monthly q = 0 then allow_result 0
     else if q_Daily q \<noteq> 0 \<and> query_fault ''daily'' \<noteq> None then allow_result 0
     else if q_Daily q \<noteq> 0 \<and> sint (q_Daily q)
         < used_tokens (q_Mode q) localKey routePath format_date now hist + sint est
     then deny_result ''daily''
       (word_of_int (used_tokens (q_Mode q) localKey routePath format_date now hist)) est (q_Daily q)
     else if q_Monthly q \<noteq> 0 \<and> query_fault ''monthly'' \<noteq> None then allow_result 0
     else if q_Monthly q \<noteq> 0 \<and> sint (q_Monthly q)
         < used_tokens (q_Mode q) localKey routePath format_month now hist + sint est
     then deny_result ''monthly''
       (word_of_int (used_tokens (q_Mode q) localKey routePath format_month now hist)) est
       (q_Monthly q)
     else allow_result est)"
proof -
  have lim: "0 \<le> sint (q_Daily q)" "0 \<le> sint (q_Monthly q)"
    using assms(3) by (simp_all add: quota_ok_def)
  note window = check_window_answer [OF assms(1,2,5,6)]
  show ?thesis
    unfolding QuotaCheck_def Let_def assms(4) [symmetric] window(1) [OF lim(1)] window(2) [OF lim(2)]
    by (auto simp: window_answer_def not_le split: option.split)
qed

lemma sample_quota_ok: "quota_ok sample_quota"
  by (simp add: quota_ok_def sample_quota_def)

lemma QuotaCheck_decision_witness:
  "QuotaCheck sample_engine sample_gjson no_query_fault sample_time sample_db ''j'' ''/a''
     sample_quota ''abcdefghij'' (Some sample_provider)
   = deny_result ''daily'' 7 6 10"
proof -
  have est: "estimateInputTokens sample_gjson ''abcdefghij'' (Some sample_provider) = 6"
    by (simp add: estimateInputTokens_def sample_gjson_def sample_provider_def quot_int64_def)
  have used: "used_tokens ''shared'' ''j'' ''/a'' fmt sample_time [sample_usage] = 7" for fmt
    by (simp add: used_tokens_def charged_def sample_usage_def)
  have "tally r_TotalTokens [sample_usage] = 7" by (simp add: sample_usage_def)
  then show ?thesis
    using QuotaCheck_decision [OF sample_ledger sample_usage_fits sample_quota_ok est [symmetric],
        where query_fault = no_query_fault and now = sample_time and E = sample_engine
          and localKey = "''j''" and routePath = "''/a''"]
    by (simp add: no_query_fault_def sample_quota_def used)
qed

text \<open>
  Isolation: the answer depends on the past only through the charged records of the two windows.
  Two databases that account for different histories give the same answer when those records agree;
  in shared mode the asking key does not matter at all, and in per-key mode the records of other
  keys do not matter.
\<close>

theorem QuotaCheck_isolation:
  assumes "ledger hist db" "fits hist" "ledger hist' db'" "fits hist'" "\<forall>p. query_fault p = None"
    and "\<forall>fmt \<in> {format_date, format_month}.
      charged (q_Mode q) localKey routePath fmt (fmt now) hist
        = charged (q_Mode q) localKey' routePath fmt (fmt now) hist'"
  shows "QuotaCheck E gj query_fault now db localKey routePath q body provider
    = QuotaCheck E gj query_fault now db' localKey' routePath q body provider"
proof -
  have used: "used_tokens (q_Mode q) localKey routePath fmt now hist
      = used_tokens (q_Mode q) localKey' routePath fmt now hist'"
    if "fmt \<in> {format_date, format_month}" for fmt
    using assms(6) that by (auto simp: used_tokens_def)
  show ?thesis
    by (simp add: QuotaCheck_def check_window_def Let_def used
        queryTokens_ledger [OF assms(1,2,5)] queryTokens_ledger [OF assms(3,4,5)])
qed

lemma QuotaCheck_isolation_witness:
  "QuotaCheck sample_engine sample_gjson no_query_fault sample_time sample_db ''j'' ''/b''
     sample_quota ''x'' None
   = QuotaCheck sample_engine sample_gjson no_query_fault sample_time empty_db ''i'' ''/b''
     sample_quota ''x'' None"
proof -
  have "fits []" by (simp add: fits_def)
  then show ?thesis
    using QuotaCheck_isolation [OF sample_ledger sample_usage_fits ledger_empty,
        where query_fault = no_query_fault and q = sample_quota and localKey = "''j''"
          and localKey' = "''i''" and routePath = "''/b''" and now = sample_time]
    by (simp add: no_query_fault_def charged_def) (simp add: sample_usage_def)
qed

text \<open>
  Fail-open, and only there: a database error in the first window with a limit allows the
  request. Every denial comes from a query that succeeded and whose result plus the estimate, as
  64-bit numbers, exceeds a positive limit, and it reports that usage, estimate and limit.
\<close>

theorem QuotaCheck_denials:
  "(i64_gt (q_Daily q) 0 \<longrightarrow> query_fault ''daily'' \<noteq> None \<longrightarrow>
      QuotaCheck E gj query_fault now db localKey routePath q body provider = allow_result 0)
   \<and> (\<not> c_Allowed (QuotaCheck E gj query_fault now db localKey routePath q body provider) \<longrightarrow>
      (\<exists>period periodValue limit current.
         (period, periodValue, limit) \<in> {(''daily'', format_date now, q_Daily q),
            (''monthly'', format_month now, q_Monthly q)}
         \<and> i64_gt limit 0
         \<and> queryTokens E query_fault db (q_Mode q) localKey routePath period periodValue
             = Inr current
         \<and> i64_gt (current + estimateInputTokens gj body provider) limit
         \<and> QuotaCheck E gj query_fault now db localKey routePath q body provider
             = deny_result period current (estimateInputTokens gj body provider) limit))"
proof (intro conjI impI)
  assume "i64_gt (q_Daily q) 0" "query_fault ''daily'' \<noteq> None"
  then show "QuotaCheck E gj query_fault now db localKey routePath q body provider = allow_result 0"
    by (auto simp: QuotaCheck_def check_window_def queryTokens_def i64_gt_def Let_def)
next
  let ?est = "estimateInputTokens gj body provider"
  let ?w = "\<lambda>p v l. check_window E query_fault db (q_Mode q) localKey routePath p v l ?est"
  have window: "\<exists>current. i64_gt l 0
      \<and> queryTokens E query_fault db (q_Mode q) localKey routePath p v = Inr current
      \<and> i64_gt (current + ?est) l \<and> r = deny_result p current ?est l"
    if "?w p v l = Some r" "\<not> c_Allowed r" for p v l r
    using that by (auto simp: check_window_def split: if_splits sum.splits)
  assume deny: "\<not> c_Allowed (QuotaCheck E gj query_fault now db localKey routePath q body provider)"
    (is "\<not> c_Allowed ?r")
  from QuotaCheck_denied_window [OF deny]
  show "\<exists>period periodValue limit current.
         (period, periodValue, limit) \<in> {(''daily'', format_date now, q_Daily q),
            (''monthly'', format_month now, q_Monthly q)}
         \<and> i64_gt limit 0
         \<and> queryTokens E query_fault db (q_Mode q) localKey routePath period periodValue
             = Inr current
         \<and> i64_gt (current + ?est) limit \<and> ?r = deny_result period current ?est limit"
  proof
    assume "?w ''daily'' (format_date now) (q_Daily q) = Some ?r"
    from window [OF this deny] show ?thesis by blast
  next
    assume "?w ''monthly'' (format_month now) (q_Monthly q) = Some ?r"
    from window [OF this deny] show ?thesis by blast
  qed
qed

lemma QuotaCheck_denials_witness:
  "QuotaCheck sample_engine sample_gjson (\<lambda>p. Some ''disk'') sample_time sample_db ''k'' ''/a''
     sample_quota ''abcdefghij'' (Some sample_provider) = allow_result 0"
  using QuotaCheck_denials [of sample_quota "\<lambda>p. Some ''disk''" sample_engine sample_gjson sample_time
      sample_db "''k''" "''/a''" "''abcdefghij''" "Some sample_provider"]
  by (simp add: i64_gt_def sample_quota_def)

text \<open>
  C40. The daily statistics, when no query fails: on a database that accounts for a list of records whose totals
  stay within 64 bits (\<open>fits\<close>), the answer has one row for each key, route and date in the asked range
  that occurs in the list, with the exact number of requests and token totals, newest date first and
  larger totals first within a date. The dates are those of the server's local clock at the time of
  the record, not those of UTC, as \<open>docs/cli.md\<close> has it.
\<close>

theorem GetDailyStats_exact:
  assumes "ledger hist db" "fits hist"
  shows "\<exists>out. GetDailyStats E no_stats_fault db startDate endDate = Inr out
    \<and> stats_answer format_date (\<lambda>d. startDate \<le> d \<and> d \<le> endDate) hist out"
  unfolding GetDailyStats_def
  by (rule table_stats) (use assms in \<open>simp_all add: ledger_def\<close>)

lemma sample_date: "format_date sample_time = ''2026-03-07''"
  by code_simp

lemma GetDailyStats_exact_witness:
  "\<exists>r. GetDailyStats sample_engine no_stats_fault sample_db ''2026-03-01'' ''2026-03-31'' = Inr [r]
    \<and> stat_key r = (''k'', ''/a'', ''2026-03-07'') \<and> sint (s_TotalTokens r) = 7
    \<and> sint (s_TotalRequests r) = 1"
proof -
  let ?P = "\<lambda>d. ''2026-03-01'' \<le> d \<and> d \<le> ''2026-03-31''"
  obtain out where out: "GetDailyStats sample_engine no_stats_fault sample_db ''2026-03-01'' ''2026-03-31'' = Inr out"
      "stats_answer format_date ?P [sample_usage] out"
    using GetDailyStats_exact [OF sample_ledger sample_usage_fits, of sample_engine "''2026-03-01''" "''2026-03-31''"]
    by blast
  have bucket: "bucket_of format_date sample_usage = (''k'', ''/a'', ''2026-03-07'')"
    using sample_date by (simp add: bucket_of_def sample_usage_def)
  have "?P ''2026-03-07''" by code_simp
  then have keys: "stat_key ` set out = {(''k'', ''/a'', ''2026-03-07'')}" "distinct (map stat_key out)"
    using out(2) by (auto simp: stats_answer_def bucket)
  then have "length out = 1"
    by (metis card.empty card_insert_disjoint distinct_card empty_iff finite.emptyI length_map One_nat_def set_map)
  then obtain r where r: "out = [r]" by (metis One_nat_def length_0_conv length_Suc_conv)
  with keys have k: "stat_key r = (''k'', ''/a'', ''2026-03-07'')" by simp
  have "bucket format_date (stat_key r) [sample_usage] = [sample_usage]"
    by (simp add: k bucket_def bucket)
  then have "stat_counts r [sample_usage]" using out(2) r by (simp add: stats_answer_def)
  with out(1) r k show ?thesis by (simp add: stat_counts_def) (simp add: sample_usage_def)
qed

text \<open>
  The day of the two windows and of the statistics is that of the local clock: five hours west of
  Greenwich, a record of the evening is still charged on the same evening to the day it was made,
  although midnight of UTC has passed in between.
\<close>

definition west_time :: "nat \<Rightarrow> go_time" where
  "west_time hour = sample_time\<lparr>t_hour := hour, t_offset := - 18000\<rparr>"

lemma quota_day_is_local:
  "abs_seconds (west_time 18) div 86400 < abs_seconds (west_time 20) div 86400
    \<and> used_tokens mode ''k'' ''/a'' format_date (west_time 20)
        [sample_usage\<lparr>r_CreatedAt := west_time 18\<rparr>] = 7"
  by (simp add: abs_seconds_def days_from_civil_def west_time_def sample_time_def zero_time_def
      used_tokens_def charged_def sample_usage_def format_date_def format_month_def)

text \<open>
  The monthly statistics of a year: one row for each key, route and month of that year in the
  list of records, with exact totals, newest month first and larger totals first within a month.
\<close>

theorem GetMonthlyStats_exact:
  assumes "ledger hist db" "fits hist"
  shows "\<exists>out. GetMonthlyStats E no_stats_fault db year = Inr out
    \<and> stats_answer format_month (\<lambda>m. take 4 m = sprintf_04d year) hist out"
  unfolding GetMonthlyStats_def
  by (rule table_stats) (use assms in \<open>simp_all add: ledger_def\<close>)

lemma GetMonthlyStats_exact_witness:
  "\<exists>out. GetMonthlyStats sample_engine no_stats_fault sample_db 2026 = Inr out
    \<and> stats_answer format_month (\<lambda>m. take 4 m = sprintf_04d 2026) [sample_usage] out"
  using GetMonthlyStats_exact [OF sample_ledger sample_usage_fits] .

text \<open>
  The verbose log: on such a database it is the audit trail backwards, cut at the limit: the
  latest records first, one row for each of them, numbered from the total count downwards.
\<close>

theorem GetVerboseLogs_latest:
  assumes "ledger hist db" "0 \<le> limit"
  shows "\<exists>out. GetVerboseLogs no_stats_fault db limit = Inr out
    \<and> length out = min (nat limit) (length hist)
    \<and> (\<forall>i < length out. v_ID (out ! i) = int (length hist - i)
        \<and> (let r = hist ! (length hist - Suc i) in
             v_LocalKey (out ! i) = r_LocalKey r \<and> v_RoutePath (out ! i) = r_RoutePath r
             \<and> v_ClientIP (out ! i) = r_ClientIP r \<and> v_PromptTokens (out ! i) = r_PromptTokens r
             \<and> v_CompletionTokens (out ! i) = r_CompletionTokens r
             \<and> v_TotalTokens (out ! i) = r_TotalTokens r))"
proof -
  let ?logs = "db_logs db"
  let ?out = "map verbose_of (take (nat limit) (rev ?logs))"
  have entries: "map log_entry ?logs = map record_entry hist"
    and ids: "map l_id ?logs = map int [1..<Suc (length hist)]"
    using assms(1) by (simp_all add: ledger_def)
  have len: "length ?logs = length hist" using arg_cong [OF entries, of length] by simp
  have "GetVerboseLogs no_stats_fault db limit = Inr ?out"
    using scan_rows_Some [of "take (nat limit) (rev ?logs)" "\<lambda>l. Some (verbose_of l)" verbose_of]
      assms(2)
    by (simp add: GetVerboseLogs_def order_by_rev [OF ledger_ids_sorted [OF assms(1)]] run_query_def
        no_stats_fault_def sql_limit_def)
  moreover have "length ?out = min (nat limit) (length hist)" by (simp add: len)
  moreover have "v_ID (?out ! i) = int (length hist - i)
      \<and> (let r = hist ! (length hist - Suc i) in
           v_LocalKey (?out ! i) = r_LocalKey r \<and> v_RoutePath (?out ! i) = r_RoutePath r
           \<and> v_ClientIP (?out ! i) = r_ClientIP r \<and> v_PromptTokens (?out ! i) = r_PromptTokens r
           \<and> v_CompletionTokens (?out ! i) = r_CompletionTokens r
           \<and> v_TotalTokens (?out ! i) = r_TotalTokens r)"
    if "i < length ?out" for i
  proof -
    let ?j = "length hist - Suc i"
    have j: "?j < length hist" "?out ! i = verbose_of (?logs ! ?j)"
      using that by (auto simp: len rev_nth)
    have "log_entry (?logs ! ?j) = record_entry (hist ! ?j)"
      using arg_cong [OF entries, of "\<lambda>xs. xs ! ?j"] j(1) by (simp add: len)
    moreover have "l_id (?logs ! ?j) = int (Suc ?j)"
      using arg_cong [OF ids, of "\<lambda>xs. xs ! ?j"] j(1) by (simp add: len del: upt_Suc)
    moreover have "Suc ?j = length hist - i" using that by (auto simp: len)
    ultimately show ?thesis
      unfolding j(2) by (simp add: verbose_of_def log_entry_def record_entry_def Let_def)
  qed
  ultimately show ?thesis by blast
qed

lemma GetVerboseLogs_latest_witness:
  "\<exists>out. GetVerboseLogs no_stats_fault sample_db 5 = Inr out \<and> length out = 1"
  using GetVerboseLogs_latest [OF sample_ledger, of 5] by auto

end
