(* ===== verification/UsageParser.thy ===== *)
theory UsageParser
  imports Json
begin

text \<open>
  \<open>internal/usage/parser.go\<close>: the token counts of a one-shot JSON response, and of a stream of
  server-sent events read with \<open>bufio.Scanner\<close>. A stream is the whole text the reader delivers
  before its end. The scanner holds at most 64 KiB: a line that does not fit stops it with an error,
  which the code ignores, keeping the counts so far.
\<close>

section \<open>Scanning lines\<close>

definition max_token_size :: nat where
  "max_token_size = 65536"

definition drop_cr :: "string \<Rightarrow> string" where
  "drop_cr line = (if line \<noteq> [] \<and> last line = CR then butlast line else line)"

text \<open>The lines the scanner returns, and whether it stopped at a line that is too long.\<close>

function scan_lines :: "string \<Rightarrow> string list \<times> bool" where
  "scan_lines s =
     (if s = [] then ([], False)
      else (let line = takeWhile (\<lambda>c. c \<noteq> LF) s;
                rest = drop 1 (dropWhile (\<lambda>c. c \<noteq> LF) s)
            in if max_token_size \<le> length line then ([], True)
               else (let (lines, err) = scan_lines rest in (drop_cr line # lines, err))))"
  by pat_completeness auto
termination
proof (relation "measure length", goal_cases)
  case (2 s line rest)
  then have "length rest \<le> length (dropWhile (\<lambda>c. c \<noteq> LF) s) - 1" by simp
  also have "\<dots> < length s"
    using 2(1) length_dropWhile_le [of "\<lambda>c. c \<noteq> LF" s] by (cases s) auto
  finally show ?case by simp
qed simp

declare scan_lines.simps [simp del]

section \<open>Events\<close>

definition extractSSEData :: "string \<Rightarrow> string option" where
  "extractSSEData line =
     (if \<not> has_prefix line ''data: '' then None
      else (let payload = trim_space (trim_prefix line ''data: '')
            in if payload = [] \<or> payload = ''[DONE]'' then None else Some payload))"

type_synonym token_counts = "int64 \<times> int64"

definition split_line ::
  "gjson \<Rightarrow> event_config \<Rightarrow> event_config \<Rightarrow> string \<Rightarrow> token_counts \<Rightarrow> token_counts" where
  "split_line gj inp out line counts =
     (case extractSSEData line of
        None \<Rightarrow> counts
      | Some json \<Rightarrow>
          (let chunkType = g_String (gj json ''type'');
               (inputTokens, outputTokens) = counts;
               inputTokens = (if chunkType = ev_ChunkType inp \<and> ev_InputTokens inp \<noteq> []
                              then g_Int (gj json (ev_InputTokens inp)) else inputTokens);
               outputTokens = (if chunkType = ev_ChunkType out \<and> ev_OutputTokens out \<noteq> []
                               then g_Int (gj json (ev_OutputTokens out)) else outputTokens)
           in (inputTokens, outputTokens)))"

definition parseSplitStream :: "gjson \<Rightarrow> string \<Rightarrow> streaming_config \<Rightarrow> token_counts" where
  "parseSplitStream gj r cfg =
     (case (sc_Input cfg, sc_Output cfg) of
        (Some inp, Some out) \<Rightarrow> fold (split_line gj inp out) (fst (scan_lines r)) (0, 0)
      | _ \<Rightarrow> (0, 0))"

definition last_line :: "gjson \<Rightarrow> streaming_config \<Rightarrow> string \<Rightarrow> token_counts \<Rightarrow> token_counts" where
  "last_line gj cfg line counts =
     (case extractSSEData line of
        None \<Rightarrow> counts
      | Some json \<Rightarrow>
          (let (inputTokens, outputTokens) = counts;
               inputTokens = (if sc_InputTokens cfg \<noteq> [] \<and> g_Exists (gj json (sc_InputTokens cfg))
                              then g_Int (gj json (sc_InputTokens cfg)) else inputTokens);
               outputTokens = (if sc_OutputTokens cfg \<noteq> [] \<and> g_Exists (gj json (sc_OutputTokens cfg))
                               then g_Int (gj json (sc_OutputTokens cfg)) else outputTokens)
           in (inputTokens, outputTokens)))"

definition parseLastStream :: "gjson \<Rightarrow> string \<Rightarrow> streaming_config \<Rightarrow> token_counts" where
  "parseLastStream gj r cfg = fold (last_line gj cfg) (fst (scan_lines r)) (0, 0)"

definition ParseStreamReader :: "gjson \<Rightarrow> string \<Rightarrow> provider_config \<Rightarrow> token_counts" where
  "ParseStreamReader gj r provider =
     (case pc_Streaming provider of
        None \<Rightarrow> (0, 0)
      | Some s \<Rightarrow>
          if sc_Mode s = ''split'' then parseSplitStream gj r s
          else if sc_Mode s = ''last'' then parseLastStream gj r s
          else (0, 0))"

text \<open>
  Whether \<open>ParseStreamReader\<close> reads the stream at all, or returns before it made a scanner.
\<close>

definition parser_reads :: "provider_config \<Rightarrow> bool" where
  "parser_reads provider \<longleftrightarrow>
     (case pc_Streaming provider of
        None \<Rightarrow> False
      | Some s \<Rightarrow> sc_Mode s = ''split'' \<and> sc_Input s \<noteq> None \<and> sc_Output s \<noteq> None
          \<or> sc_Mode s = ''last'')"

text \<open>\<open>None\<close> is the panic on a provider without a usage block.\<close>

definition ParseStandardJSON :: "gjson \<Rightarrow> string \<Rightarrow> provider_config \<Rightarrow> token_counts option" where
  "ParseStandardJSON gj bodyBytes provider =
     map_option (\<lambda>u. (g_Int (gj bodyBytes (uc_InputTokens u)), g_Int (gj bodyBytes (uc_OutputTokens u))))
       (pc_Usage provider)"

section \<open>The payloads of a stream\<close>

text \<open>
  What a reader of the text sees, without the buffer of the scanner: the text cut at the line feeds,
  where nothing after the last one is no line.
\<close>

primrec split_lf :: "string \<Rightarrow> string list" where
  "split_lf [] = [[]]"
| "split_lf (c # s) =
     (if c = LF then [] # split_lf s else (c # hd (split_lf s)) # tl (split_lf s))"

definition text_lines :: "string \<Rightarrow> string list" where
  "text_lines s = (if last (split_lf s) = [] then butlast (split_lf s) else split_lf s)"

definition short_line :: "string \<Rightarrow> bool" where
  "short_line line \<longleftrightarrow> length line < max_token_size"

text \<open>The payloads of the lines up to the first that has 64 KiB or more.\<close>

definition payloads :: "string \<Rightarrow> string list" where
  "payloads r = List.map_filter extractSSEData (map drop_cr (takeWhile short_line (text_lines r)))"

lemma split_lf_not_Nil [simp]: "split_lf s \<noteq> []"
  by (cases s) simp_all

lemma split_lf_first:
  "split_lf s = (let line = takeWhile (\<lambda>c. c \<noteq> LF) s; rest = dropWhile (\<lambda>c. c \<noteq> LF) s
     in if rest = [] then [line] else line # split_lf (tl rest))"
  by (induction s) (auto simp: Let_def)

lemma text_lines_step:
  assumes "s \<noteq> []"
  shows "text_lines s = takeWhile (\<lambda>c. c \<noteq> LF) s # text_lines (drop 1 (dropWhile (\<lambda>c. c \<noteq> LF) s))"
proof (cases "dropWhile (\<lambda>c. c \<noteq> LF) s")
  case Nil
  then have line: "takeWhile (\<lambda>c. c \<noteq> LF) s = s"
    by (simp only: takeWhile_eq_all_conv dropWhile_eq_Nil_conv)
  with Nil have "split_lf s = [s]" using split_lf_first [of s] by (simp add: Let_def)
  then show ?thesis unfolding Nil line using assms by (simp add: text_lines_def)
next
  case (Cons c rest)
  then have "split_lf s = takeWhile (\<lambda>c. c \<noteq> LF) s # split_lf rest"
    using split_lf_first [of s] by simp
  with Cons show ?thesis by (simp add: text_lines_def)
qed

lemma scan_lines_text_lines: "fst (scan_lines s) = map drop_cr (takeWhile short_line (text_lines s))"
proof (induction s rule: scan_lines.induct)
  case (1 s)
  show ?case
  proof (cases "s = []")
    case True
    then show ?thesis by (simp add: scan_lines.simps text_lines_def)
  next
    case False
    let ?line = "takeWhile (\<lambda>c. c \<noteq> LF) s" and ?rest = "drop 1 (dropWhile (\<lambda>c. c \<noteq> LF) s)"
    have IH: "fst (scan_lines ?rest) = map drop_cr (takeWhile short_line (text_lines ?rest))"
      if "short_line ?line"
      by (rule 1 [OF False refl refl]) (use that in \<open>simp add: short_line_def not_le\<close>)
    have "fst (scan_lines s) = (if short_line ?line then drop_cr ?line # fst (scan_lines ?rest) else [])"
      using False by (subst scan_lines.simps) (simp add: short_line_def Let_def not_le split: prod.split)
    also have "\<dots> = map drop_cr (takeWhile short_line (text_lines s))"
      unfolding text_lines_step [OF False] using IH by simp
    finally show ?thesis .
  qed
qed

lemma payloads_scan: "payloads r = List.map_filter extractSSEData (fst (scan_lines r))"
  by (simp add: payloads_def scan_lines_text_lines)

text \<open>The value at the last payload that is selected, zero if there is none.\<close>

definition last_value :: "(string \<Rightarrow> bool) \<Rightarrow> (string \<Rightarrow> int64) \<Rightarrow> string list \<Rightarrow> int64" where
  "last_value sel val ps = (if filter sel ps = [] then 0 else val (last (filter sel ps)))"

lemma last_value_Nil [simp]: "last_value sel val [] = 0"
  by (simp add: last_value_def)

lemma last_value_snoc [simp]:
  "last_value sel val (ps @ [p]) = (if sel p then val p else last_value sel val ps)"
  by (simp add: last_value_def)

text \<open>A fold over lines that overwrites its two counters keeps the last selected values.\<close>

lemma fold_last_value:
  assumes "\<And>line a b. step line (a, b) = (case extractSSEData line of None \<Rightarrow> (a, b)
      | Some p \<Rightarrow> (if sel1 p then val1 p else a, if sel2 p then val2 p else b))"
  shows "fold step ls (0, 0) = (last_value sel1 val1 (List.map_filter extractSSEData ls),
    last_value sel2 val2 (List.map_filter extractSSEData ls))"
  by (induction ls rule: rev_induct) (simp_all add: assms map_filter_append map_filter_simps split: option.split)

lemma parseSplitStream_last:
  assumes "sc_Input cfg = Some inp" "sc_Output cfg = Some out"
    and "ev_InputTokens inp \<noteq> []" "ev_OutputTokens out \<noteq> []"
  shows "parseSplitStream gj r cfg =
    (last_value (\<lambda>p. g_String (gj p ''type'') = ev_ChunkType inp)
       (\<lambda>p. g_Int (gj p (ev_InputTokens inp))) (payloads r),
     last_value (\<lambda>p. g_String (gj p ''type'') = ev_ChunkType out)
       (\<lambda>p. g_Int (gj p (ev_OutputTokens out))) (payloads r))"
  unfolding parseSplitStream_def payloads_scan assms(1,2) option.case prod.case
  by (rule fold_last_value) (simp add: split_line_def Let_def assms split: option.split)

lemma parseLastStream_last:
  assumes "sc_InputTokens cfg \<noteq> []" "sc_OutputTokens cfg \<noteq> []"
  shows "parseLastStream gj r cfg =
    (last_value (\<lambda>p. g_Exists (gj p (sc_InputTokens cfg)))
       (\<lambda>p. g_Int (gj p (sc_InputTokens cfg))) (payloads r),
     last_value (\<lambda>p. g_Exists (gj p (sc_OutputTokens cfg)))
       (\<lambda>p. g_Int (gj p (sc_OutputTokens cfg))) (payloads r))"
  unfolding parseLastStream_def payloads_scan
  by (rule fold_last_value) (simp add: last_line_def Let_def assms split: option.split)

section \<open>Scanning a concatenation\<close>

lemma scan_lines_Nil [simp]: "scan_lines [] = ([], False)"
  by (simp add: scan_lines.simps)

lemma scan_lines_line:
  assumes "LF \<notin> set line" "length line < max_token_size"
  shows "scan_lines (line @ LF # rest)
    = (drop_cr line # fst (scan_lines rest), snd (scan_lines rest))"
proof -
  have "takeWhile (\<lambda>c. c \<noteq> LF) (line @ LF # rest) = line"
      "dropWhile (\<lambda>c. c \<noteq> LF) (line @ LF # rest) = LF # rest"
    using assms(1) by (auto simp: takeWhile_append dropWhile_append)
  with assms(2) show ?thesis
    by (simp add: scan_lines.simps [of "line @ LF # rest"] Let_def split: prod.split)
qed

text \<open>A line of the limit or more bytes, ended or not, stops the scanner for good.\<close>

lemma scan_lines_too_long:
  assumes "LF \<notin> set (take max_token_size s)" "max_token_size \<le> length s"
  shows "scan_lines s = ([], True)"
proof -
  have "takeWhile (\<lambda>c. c \<noteq> LF) s = take max_token_size s @ takeWhile (\<lambda>c. c \<noteq> LF) (drop max_token_size s)"
    using assms(1) takeWhile_append2 [of "take max_token_size s" "\<lambda>c. c \<noteq> LF" "drop max_token_size s"]
    by (metis append_take_drop_id)
  then have "max_token_size \<le> length (takeWhile (\<lambda>c. c \<noteq> LF) s)"
    using assms(2) by simp
  moreover have "s \<noteq> []" using assms(2) by (auto simp: max_token_size_def)
  ultimately show ?thesis by (simp add: scan_lines.simps [of s] Let_def)
qed

text \<open>Text made of whole lines that fit.\<close>

definition text_of_lines :: "string list \<Rightarrow> string" where
  "text_of_lines ls = concat (map (\<lambda>l. l @ [LF]) ls)"

definition line_fits :: "string \<Rightarrow> bool" where
  "line_fits l \<longleftrightarrow> LF \<notin> set l \<and> length l < max_token_size"

lemma scan_lines_text:
  assumes "\<forall>l \<in> set ls. line_fits l"
  shows "scan_lines (text_of_lines ls @ rest)
    = (map drop_cr ls @ fst (scan_lines rest), snd (scan_lines rest))"
  using assms
  by (induction ls) (simp_all add: text_of_lines_def line_fits_def scan_lines_line)

section \<open>Encoding events\<close>

text \<open>What a vendor sends: each payload as one event, ended by a blank line, then \<open>[DONE]\<close>.\<close>

definition sse_event :: "string \<Rightarrow> string list" where
  "sse_event p = [''data: '' @ p, []]"

definition sse_stream :: "string list \<Rightarrow> string" where
  "sse_stream ps = text_of_lines (concat (map sse_event (ps @ [''[DONE]''])))"

text \<open>A payload as a vendor may send it: one line that fits, with no space around it.\<close>

definition sse_payload :: "string \<Rightarrow> bool" where
  "sse_payload p \<longleftrightarrow> LF \<notin> set p \<and> length p + 6 < max_token_size \<and> p \<noteq> [] \<and> last p \<noteq> CR
     \<and> trim_space p = p \<and> p \<noteq> ''[DONE]''"

lemma extract_data: "extractSSEData (''data: '' @ p)
  = (if trim_space p = [] \<or> trim_space p = ''[DONE]'' then None else Some (trim_space p))"
proof -
  have "has_prefix (''data: '' @ p) ''data: ''" "trim_prefix (''data: '' @ p) ''data: '' = p"
    by (rule has_prefix_append, rule trim_prefix_append)
  then show ?thesis
    unfolding extractSSEData_def by (simp only: Let_def not_True_eq_False if_False)
qed

lemma extract_blank: "extractSSEData [] = None"
  by (simp add: extractSSEData_def has_prefix_def)

lemma trim_done: "trim_space ''[DONE]'' = ''[DONE]''"
  by (rule trim_space_visible) (simp add: visible_def)

lemma extract_events:
  "\<forall>p \<in> set ps. sse_payload p \<or> p = ''[DONE]'' \<Longrightarrow>
    List.map_filter extractSSEData (map drop_cr (concat (map sse_event ps)))
      = filter (\<lambda>p. p \<noteq> ''[DONE]'') ps"
proof (induction ps)
  case (Cons p ps)
  have "sse_payload p \<or> p = ''[DONE]''" using Cons.prems by simp
  then have p: "last p \<noteq> CR" "trim_space p = p" "p \<noteq> []"
    by (elim disjE; simp add: sse_payload_def CR_def trim_done)+
  then have "drop_cr (''data: '' @ p) = ''data: '' @ p" "drop_cr [] = []"
    unfolding drop_cr_def by simp_all
  moreover have "extractSSEData (''data: '' @ p) = (if p = ''[DONE]'' then None else Some p)"
    unfolding extract_data p(2) using p(3) by simp
  ultimately show ?case
    using Cons unfolding sse_event_def by (simp add: map_filter_simps extract_blank)
qed (simp add: map_filter_simps)

lemma sse_event_fits: "sse_payload p \<or> p = ''[DONE]'' \<Longrightarrow> l \<in> set (sse_event p) \<Longrightarrow> line_fits l"
  by (auto simp: sse_event_def line_fits_def sse_payload_def LF_def max_token_size_def)

lemma ParseStreamReader_values:
  assumes "pc_Streaming provider = Some s" "streaming_ok s"
  shows "ParseStreamReader gj r provider =
    (case (sc_Input s, sc_Output s) of
       (Some inp, Some out) \<Rightarrow>
         (last_value (\<lambda>p. g_String (gj p ''type'') = ev_ChunkType inp)
            (\<lambda>p. g_Int (gj p (ev_InputTokens inp))) (payloads r),
          last_value (\<lambda>p. g_String (gj p ''type'') = ev_ChunkType out)
            (\<lambda>p. g_Int (gj p (ev_OutputTokens out))) (payloads r))
     | _ \<Rightarrow>
         (last_value (\<lambda>p. g_Exists (gj p (sc_InputTokens s)))
            (\<lambda>p. g_Int (gj p (sc_InputTokens s))) (payloads r),
          last_value (\<lambda>p. g_Exists (gj p (sc_OutputTokens s)))
            (\<lambda>p. g_Int (gj p (sc_OutputTokens s))) (payloads r)))"
  using assms by (auto simp: ParseStreamReader_def streaming_ok_def parseSplitStream_last
      parseLastStream_last)

lemma sse_events_payloads:
  assumes "\<forall>p \<in> set ps. sse_payload p \<or> p = ''[DONE]''"
  shows "payloads (text_of_lines (concat (map sse_event ps))) = filter (\<lambda>p. p \<noteq> ''[DONE]'') ps"
    and "snd (scan_lines (text_of_lines (concat (map sse_event ps)))) = False"
proof -
  let ?ls = "concat (map sse_event ps)"
  have "\<forall>l \<in> set ?ls. line_fits l"
  proof
    fix l assume "l \<in> set ?ls"
    then obtain p where "p \<in> set ps" "l \<in> set (sse_event p)"
      unfolding set_concat set_map by blast
    with assms show "line_fits l" by (blast intro: sse_event_fits)
  qed
  from scan_lines_text [OF this, of "[]"]
  have "scan_lines (text_of_lines ?ls) = (map drop_cr ?ls, False)" by simp
  then show "payloads (text_of_lines ?ls) = filter (\<lambda>p. p \<noteq> ''[DONE]'') ps"
    "snd (scan_lines (text_of_lines ?ls)) = False"
    using extract_events [OF assms] by (simp_all add: payloads_scan)
qed

lemma payloads_event: "sse_payload p \<Longrightarrow> payloads (text_of_lines (sse_event p)) = [p]"
  using sse_events_payloads(1) [of "[p]"] by (simp add: sse_payload_def)

lemma sse_stream_payloads:
  assumes "\<forall>p \<in> set ps. sse_payload p"
  shows "payloads (sse_stream ps) = ps" and "snd (scan_lines (sse_stream ps)) = False"
proof -
  have ok: "\<forall>p \<in> set (ps @ [''[DONE]'']). sse_payload p \<or> p = ''[DONE]''" using assms by simp
  have "filter (\<lambda>p. p \<noteq> ''[DONE]'') ps = ps"
    using assms by (auto simp: sse_payload_def intro!: filter_True)
  then show "payloads (sse_stream ps) = ps"
    unfolding sse_stream_def sse_events_payloads(1) [OF ok] by simp
  show "snd (scan_lines (sse_stream ps)) = False"
    unfolding sse_stream_def by (rule sse_events_payloads(2) [OF ok])
qed

section \<open>Properties\<close>

definition sample_payloads :: "string list" where
  "sample_payloads = [''{1}'', ''{2}'']"

definition length_gjson :: gjson where
  "length_gjson = (\<lambda>json path. \<lparr>g_Exists = (json = ''{2}''), g_Raw = json,
     g_Int = word_of_nat (length json), g_String = [], g_Bool = False\<rparr>)"

lemma sample_sse: "\<forall>p \<in> set sample_payloads. sse_payload p"
proof -
  have "trim_space p = p" if "p \<in> set sample_payloads" for p
    by (rule trim_space_visible) (use that in \<open>auto simp: sample_payloads_def visible_def\<close>)
  then show ?thesis
    by (auto simp: sse_payload_def sample_payloads_def LF_def CR_def max_token_size_def)
qed

text \<open>
  C33. The streaming parser, for every provider that passed validation: in \<open>split\<close> mode each count is
  the value at the last payload of its chunk type, in \<open>last\<close> mode at the last payload in which its
  path exists, and zero when there is no such payload. The payloads are those of the lines of the
  text before the first line of 64 KiB or more, which ends the scan: what follows it does not count.
  Within these lines the order of the two kinds of payload and everything that is no payload do not
  matter.
\<close>

theorem ParseStreamReader_last_wins:
  assumes "pc_Streaming provider = Some s" "streaming_ok s"
  shows "ParseStreamReader gj r provider =
    (case (sc_Input s, sc_Output s) of
       (Some inp, Some out) \<Rightarrow>
         (last_value (\<lambda>p. g_String (gj p ''type'') = ev_ChunkType inp)
            (\<lambda>p. g_Int (gj p (ev_InputTokens inp))) (payloads r),
          last_value (\<lambda>p. g_String (gj p ''type'') = ev_ChunkType out)
            (\<lambda>p. g_Int (gj p (ev_OutputTokens out))) (payloads r))
     | _ \<Rightarrow>
         (last_value (\<lambda>p. g_Exists (gj p (sc_InputTokens s)))
            (\<lambda>p. g_Int (gj p (sc_InputTokens s))) (payloads r),
          last_value (\<lambda>p. g_Exists (gj p (sc_OutputTokens s)))
            (\<lambda>p. g_Int (gj p (sc_OutputTokens s))) (payloads r)))"
  by (rule ParseStreamReader_values [OF assms])

lemma ParseStreamReader_last_wins_witness:
  "ParseStreamReader length_gjson (sse_stream sample_payloads) sample_provider
    = (last_value (\<lambda>p. p = ''{2}'') (\<lambda>p. word_of_nat (length p))
         (payloads (sse_stream sample_payloads)),
       last_value (\<lambda>p. p = ''{2}'') (\<lambda>p. word_of_nat (length p))
         (payloads (sse_stream sample_payloads)))"
  using ParseStreamReader_last_wins [of sample_provider _ length_gjson "sse_stream sample_payloads"]
  by (auto simp: sample_provider_def streaming_ok_def length_gjson_def)

text \<open>
  Round trip of server-sent events: from a stream that carries each payload as a \<open>data:\<close> line and
  a blank line and ends with \<open>[DONE]\<close>, the parser sees exactly those payloads, in order, and the
  scanner reports no error.
\<close>

theorem sse_roundtrip:
  assumes "\<forall>p \<in> set ps. sse_payload p"
  shows "payloads (sse_stream ps) = ps \<and> \<not> snd (scan_lines (sse_stream ps))"
  using sse_stream_payloads [OF assms] by simp

lemma sse_roundtrip_witness: "payloads (sse_stream sample_payloads) = [''{1}'', ''{2}'']"
  using sse_roundtrip [OF sample_sse] by (simp add: sample_payloads_def)

text \<open>
  A line of 64 KiB or more ends the count: whatever follows the lines before it, however long,
  the result is that of the stream cut before the long line.
\<close>

theorem long_line_ends_count:
  assumes "\<forall>l \<in> set ls. line_fits l"
    and "LF \<notin> set (take 65536 rest)" "65536 \<le> length rest"
  shows "ParseStreamReader gj (text_of_lines ls @ rest) provider
      = ParseStreamReader gj (text_of_lines ls) provider
    \<and> snd (scan_lines (text_of_lines ls @ rest))"
proof -
  have "scan_lines rest = ([], True)"
    by (rule scan_lines_too_long) (use assms(2,3) in \<open>simp_all add: max_token_size_def\<close>)
  with scan_lines_text [OF assms(1), of rest] scan_lines_text [OF assms(1), of "[]"]
  have "fst (scan_lines (text_of_lines ls @ rest)) = fst (scan_lines (text_of_lines ls))"
      "snd (scan_lines (text_of_lines ls @ rest))"
    by simp_all
  then show ?thesis
    by (simp add: ParseStreamReader_def parseSplitStream_def parseLastStream_def
        split: option.split)
qed

lemma long_line_ends_count_witness:
  "ParseStreamReader length_gjson (text_of_lines [] @ replicate 65536 CHR ''a'') sample_provider
    = ParseStreamReader length_gjson (text_of_lines []) sample_provider"
  using long_line_ends_count [of "[]" "replicate 65536 CHR ''a''" length_gjson sample_provider]
  by (simp add: LF_def)

end
