(* ===== verification/GoHttp.thy ===== *)
theory GoHttp
  imports GoFormat
begin

text \<open>
  The part of \<open>net/http\<close> and \<open>net/http/httputil\<close> the proxy uses: \<open>http.Header\<close> with its methods,
  which make names canonical, the headers \<open>ReverseProxy\<close> takes off a request before it calls
  \<open>Rewrite\<close> and those of a protocol upgrade it puts back, request bodies, and URLs as the code reads
  and writes their fields.
\<close>

section \<open>Headers\<close>

type_synonym http_header = "(string, string list) gomap"

definition header_values :: "http_header \<Rightarrow> string \<Rightarrow> string list" where
  "header_values h k = (case map_of h k of None \<Rightarrow> [] | Some vs \<Rightarrow> vs)"

definition header_get :: "http_header \<Rightarrow> string \<Rightarrow> string" where
  "header_get h k = (case header_values h (canonical_header k) of [] \<Rightarrow> [] | v # vs \<Rightarrow> v)"

definition header_set :: "string \<Rightarrow> string \<Rightarrow> http_header \<Rightarrow> http_header" where
  "header_set k v h = AList.update (canonical_header k) [v] h"

definition header_add :: "string \<Rightarrow> string \<Rightarrow> http_header \<Rightarrow> http_header" where
  "header_add k v h =
     AList.update (canonical_header k) (header_values h (canonical_header k) @ [v]) h"

definition header_del :: "string \<Rightarrow> http_header \<Rightarrow> http_header" where
  "header_del k h = AList.delete (canonical_header k) h"

text \<open>Headers as the server delivers them: each name once, in canonical form.\<close>

definition header_ok :: "http_header \<Rightarrow> bool" where
  "header_ok h \<longleftrightarrow> gmap_ok h \<and> (\<forall>k \<in> fst ` set h. canonical_header k = k)"

lemma header_values_set [simp]:
  "header_values (header_set k v h) n = (if n = canonical_header k then [v] else header_values h n)"
  by (simp add: header_values_def header_set_def)

lemma header_values_add [simp]:
  "header_values (header_add k v h) n =
    (if n = canonical_header k then header_values h n @ [v] else header_values h n)"
  by (simp add: header_values_def header_add_def)

lemma header_values_del [simp]:
  "header_values (header_del k h) n = (if n = canonical_header k then [] else header_values h n)"
  by (simp add: header_values_def header_del_def)

lemma header_okI:
  "header_ok h \<Longrightarrow> header_ok (header_set k v h)"
  "header_ok h \<Longrightarrow> header_ok (header_add k v h)"
  "header_ok h \<Longrightarrow> header_ok (header_del k h)"
  by (auto simp: header_ok_def header_set_def header_add_def header_del_def dom_update
      simp flip: dom_map_of_conv_image_fst split: if_splits)

text \<open>Adding all values of a name keeps their order.\<close>

lemma header_values_adds:
  "header_values (fold (header_add k) vs h) n =
    (if n = canonical_header k then header_values h n @ vs else header_values h n)"
  by (induction vs arbitrary: h) simp_all

section \<open>What the reverse proxy removes\<close>

fun split_comma :: "string \<Rightarrow> string list" where
  "split_comma [] = [[]]"
| "split_comma (c # cs) =
     (if c = CHR '','' then [] # split_comma cs
      else (case split_comma cs of [] \<Rightarrow> [[c]] | p # ps \<Rightarrow> (c # p) # ps))"

text \<open>\<open>textproto.TrimString\<close> removes the ASCII spaces space, tab, newline and carriage return.\<close>

definition trim_blank :: "string \<Rightarrow> string" where
  "trim_blank s =
     (let sp = (\<lambda>c. c \<in> {CHR '' '', CHR 0x09, CHR 0x0A, CHR 0x0D})
      in rev (dropWhile sp (rev (dropWhile sp s))))"

definition hop_headers :: "string list" where
  "hop_headers = [''Connection'', ''Proxy-Connection'', ''Keep-Alive'', ''Proxy-Authenticate'',
     ''Proxy-Authorization'', ''Te'', ''Trailer'', ''Transfer-Encoding'', ''Upgrade'']"

definition connection_names :: "http_header \<Rightarrow> string list" where
  "connection_names h =
     filter (\<lambda>n. n \<noteq> []) (map trim_blank (concat (map split_comma (header_values h ''Connection''))))"

definition removeHopByHopHeaders :: "http_header \<Rightarrow> http_header" where
  "removeHopByHopHeaders h = fold header_del (connection_names h @ hop_headers) h"

definition forwarding_headers :: "string list" where
  "forwarding_headers = [''Forwarded'', ''X-Forwarded-For'', ''X-Forwarded-Host'', ''X-Forwarded-Proto'']"

text \<open>
  \<open>httpguts.HeaderValuesContainsToken\<close>, \<open>ascii.IsPrint\<close>, and the protocol a message asks to
  switch to.
\<close>

definition trim_ows :: "string \<Rightarrow> string" where
  "trim_ows s =
     (let sp = (\<lambda>c. c \<in> {CHR '' '', CHR 0x09})
      in rev (dropWhile sp (rev (dropWhile sp s))))"

definition token_equal :: "string \<Rightarrow> string \<Rightarrow> bool" where
  "token_equal s t \<longleftrightarrow> list_all (\<lambda>c. of_char c < (128 :: nat)) s \<and> equal_fold s t"

definition contains_token :: "string list \<Rightarrow> string \<Rightarrow> bool" where
  "contains_token values token \<longleftrightarrow>
     list_ex (\<lambda>v. list_ex (\<lambda>part. token_equal (trim_ows part) token) (split_comma v)) values"

definition printable_name :: "string \<Rightarrow> bool" where
  "printable_name s \<longleftrightarrow> list_all (\<lambda>c. (32 :: nat) \<le> of_char c \<and> of_char c \<le> (126 :: nat)) s"

definition upgrade_type :: "http_header \<Rightarrow> string" where
  "upgrade_type h =
     (if contains_token (header_values h ''Connection'') ''Upgrade'' then header_get h ''Upgrade''
      else [])"

definition wants_trailers :: "http_header \<Rightarrow> bool" where
  "wants_trailers h \<longleftrightarrow> contains_token (header_values h ''Te'') ''trailers''"

text \<open>
  The headers of the outbound request when \<open>Rewrite\<close> is called: a clone without the hop-by-hop and
  forwarding headers; an announced \<open>Te: trailers\<close> and a protocol upgrade are put back.
\<close>

definition restored_headers :: "http_header \<Rightarrow> http_header \<Rightarrow> http_header" where
  "restored_headers h out =
     (let out = (if wants_trailers h then header_set ''Te'' ''trailers'' out else out)
      in if upgrade_type h \<noteq> []
         then header_set ''Upgrade'' (upgrade_type h) (header_set ''Connection'' ''Upgrade'' out)
         else out)"

definition outbound_headers :: "http_header \<Rightarrow> http_header" where
  "outbound_headers h =
     fold header_del forwarding_headers (restored_headers h (removeHopByHopHeaders h))"

lemma header_values_dels:
  "header_values (fold header_del ks h) n =
    (if n \<in> canonical_header ` set ks then [] else header_values h n)"
  by (induction ks arbitrary: h) auto

lemma header_ok_dels: "header_ok h \<Longrightarrow> header_ok (fold header_del ks h)"
  by (induction ks arbitrary: h) (auto intro: header_okI)

lemma header_ok_removed: "header_ok h \<Longrightarrow> header_ok (removeHopByHopHeaders h)"
  by (simp add: removeHopByHopHeaders_def header_ok_dels del: fold_append)

lemma header_ok_outbound: "header_ok h \<Longrightarrow> header_ok (outbound_headers h)"
  by (simp add: outbound_headers_def restored_headers_def Let_def header_ok_dels header_ok_removed header_okI)

definition removed_names :: "http_header \<Rightarrow> string set" where
  "removed_names h =
     canonical_header ` set (connection_names h @ hop_headers @ forwarding_headers)"

text \<open>What the reverse proxy leaves of a name of the client's request.\<close>

definition passed_values :: "http_header \<Rightarrow> string \<Rightarrow> string list" where
  "passed_values h n =
     (if upgrade_type h \<noteq> [] \<and> n = ''Upgrade'' then [upgrade_type h]
      else if upgrade_type h \<noteq> [] \<and> n = ''Connection'' then [''Upgrade'']
      else if wants_trailers h \<and> n = ''Te'' then [''trailers'']
      else if n \<in> removed_names h then [] else header_values h n)"

lemma canonical_hop_names:
  "canonical_header ''Connection'' = ''Connection''" "canonical_header ''Upgrade'' = ''Upgrade''"
  "canonical_header ''Te'' = ''Te''" "canonical_header ''Forwarded'' = ''Forwarded''"
  "canonical_header ''X-Forwarded-For'' = ''X-Forwarded-For''"
  "canonical_header ''X-Forwarded-Host'' = ''X-Forwarded-Host''"
  "canonical_header ''X-Forwarded-Proto'' = ''X-Forwarded-Proto''"
  by (simp_all add: canonical_header_def header_token_char_def ascii_upper_letter_def
      ascii_lower_letter_def ascii_upper_def ascii_lower_def)

lemma header_values_outbound: "header_values (outbound_headers h) n = passed_values h n"
proof -
  have "header_values (removeHopByHopHeaders h) n
      = (if n \<in> canonical_header ` set (connection_names h @ hop_headers) then [] else header_values h n)"
    by (simp add: removeHopByHopHeaders_def header_values_dels del: fold_append)
  then show ?thesis
    by (auto simp: outbound_headers_def restored_headers_def Let_def header_values_dels passed_values_def
        removed_names_def forwarding_headers_def canonical_hop_names)
qed

section \<open>Bodies and URLs\<close>

text \<open>
  A body is \<open>http.NoBody\<close>, or a stream with the bytes it delivers and the error that ends it, if
  any. (The body of a request a server received is never nil.)
\<close>

datatype http_body = NoBody | BodyStream string "string option"

fun read_all :: "http_body \<Rightarrow> string \<times> string option" where
  "read_all NoBody = ([], None)"
| "read_all (BodyStream bytes err) = (bytes, err)"

record url =
  url_Scheme :: string
  url_Opaque :: string
  url_User :: "(string \<times> string option) option"
  url_Host :: string
  url_Path :: string
  url_RawQuery :: string
  url_Fragment :: string

text \<open>How \<open>ProxyRequest.SetURL\<close> joins the query of the target and of the request.\<close>

definition join_query :: "string \<Rightarrow> string \<Rightarrow> string" where
  "join_query tq rq = (if tq = [] \<or> rq = [] then tq @ rq else tq @ ''&'' @ rq)"

end
