(* ===== verification/GoNet.thy ===== *)
theory GoNet
  imports GoHttp
begin

text \<open>
  The part of \<open>net\<close> and \<open>net/netip\<close> the program uses, as of Go 1.26: \<open>net.SplitHostPort\<close>,
  \<open>netip.ParseAddr\<close> and \<open>net.ParseIP\<close>. An address is its bytes, 4 or 16 of them, with the zone of an
  IPv6 address.
\<close>

section \<open>Positions in a string\<close>

text \<open>\<open>strings.Contains\<close>.\<close>

definition contains_at :: "string \<Rightarrow> string \<Rightarrow> bool" where
  "contains_at s p \<longleftrightarrow> list_ex (\<lambda>i. has_prefix (drop i s) p) [0..<Suc (length s)]"

fun index_of :: "char \<Rightarrow> string \<Rightarrow> nat option" where
  "index_of c [] = None"
| "index_of c (d # ds) = (if d = c then Some 0 else map_option Suc (index_of c ds))"

definition last_index :: "char \<Rightarrow> string \<Rightarrow> nat option" where
  "last_index c s = map_option (\<lambda>i. length s - Suc i) (index_of c (rev s))"

text \<open>\<open>strings.Cut\<close> with a separator of one byte; without one the second part is empty.\<close>

definition cut_byte :: "char \<Rightarrow> string \<Rightarrow> string \<times> string" where
  "cut_byte c s = (takeWhile (\<lambda>d. d \<noteq> c) s, drop 1 (dropWhile (\<lambda>d. d \<noteq> c) s))"

fun split_byte :: "char \<Rightarrow> string \<Rightarrow> string list" where
  "split_byte c [] = [[]]"
| "split_byte c (d # ds) =
     (if d = c then [] # split_byte c ds
      else (case split_byte c ds of [] \<Rightarrow> [[d]] | p # ps \<Rightarrow> (d # p) # ps))"

lemma index_of_None [simp]: "index_of c s = None \<longleftrightarrow> c \<notin> set s"
  by (induction s) auto

lemma index_of_append: "c \<notin> set s \<Longrightarrow> index_of c (s @ c # t) = Some (length s)"
  by (induction s) auto

lemma last_index_append: "c \<notin> set t \<Longrightarrow> last_index c (s @ c # t) = Some (length s)"
  using index_of_append [of c "rev t" "rev s"] by (simp add: last_index_def)

lemma last_index_None: "last_index c s = None \<longleftrightarrow> c \<notin> set s"
  by (simp add: last_index_def)

lemma cut_byte_found: "c \<notin> set s \<Longrightarrow> cut_byte c (s @ c # t) = (s, t)"
  by (auto simp: cut_byte_def takeWhile_append dropWhile_append)

lemma cut_byte_none: "c \<notin> set s \<Longrightarrow> cut_byte c s = (s, [])"
proof -
  assume "c \<notin> set s"
  then have eq: "takeWhile (\<lambda>d. d \<noteq> c) s = s" "dropWhile (\<lambda>d. d \<noteq> c) s = []"
    by (auto simp: takeWhile_eq_all_conv dropWhile_eq_Nil_conv)
  show ?thesis unfolding cut_byte_def eq by simp
qed

lemma contains_at_iff: "contains_at s p \<longleftrightarrow> (\<exists>u v. s = u @ p @ v)"
proof
  assume "contains_at s p"
  then obtain i where "has_prefix (drop i s) p" unfolding contains_at_def list_ex_iff by blast
  then obtain v where "drop i s = p @ v" by (auto simp: has_prefix_iff)
  then have "s = take i s @ p @ v" by (metis append_take_drop_id)
  then show "\<exists>u v. s = u @ p @ v" by blast
next
  assume "\<exists>u v. s = u @ p @ v"
  then obtain u v where s: "s = u @ p @ v" by blast
  then have "has_prefix (drop (length u) s) p" by simp
  moreover have "length u \<in> set [0..<Suc (length s)]" by (simp add: s)
  ultimately show "contains_at s p" by (auto simp: contains_at_def list_ex_iff)
qed

section \<open>Host and port\<close>

text \<open>\<open>net.SplitHostPort\<close>: host and port, or \<open>None\<close> for any of its errors.\<close>

definition SplitHostPort :: "string \<Rightarrow> (string \<times> string) option" where
  "SplitHostPort hostport =
     (case last_index CHR '':'' hostport of
        None \<Rightarrow> None
      | Some i \<Rightarrow>
          (let finish = (\<lambda>host j k.
                 if index_of CHR ''['' (drop j hostport) \<noteq> None then None
                 else if index_of CHR '']'' (drop k hostport) \<noteq> None then None
                 else Some (host, drop (Suc i) hostport))
           in if hostport ! 0 = CHR ''['' then
                (case index_of CHR '']'' hostport of
                   None \<Rightarrow> None
                 | Some e \<Rightarrow> if Suc e = i then finish (drop 1 (take e hostport)) 1 (Suc e) else None)
              else
                (let host = take i hostport
                 in if CHR '':'' \<in> set host then None else finish host 0 0)))"

definition plain_host :: "string \<Rightarrow> bool" where
  "plain_host h \<longleftrightarrow> h \<noteq> [] \<and> set h \<inter> {CHR '':'', CHR ''['', CHR '']''} = {}"

lemma SplitHostPort_plain:
  assumes "plain_host h" "set port \<inter> {CHR '':'', CHR ''['', CHR '']''} = {}"
  shows "SplitHostPort (h @ CHR '':'' # port) = Some (h, port)"
proof -
  have "last_index CHR '':'' (h @ CHR '':'' # port) = Some (length h)"
    by (rule last_index_append) (use assms(2) in auto)
  moreover have "(h @ CHR '':'' # port) ! 0 \<noteq> CHR ''[''"
    using assms(1) by (cases h) (auto simp: plain_host_def)
  ultimately show ?thesis
    using assms by (auto simp: SplitHostPort_def plain_host_def Let_def)
qed

lemma SplitHostPort_no_port: "plain_host h \<Longrightarrow> SplitHostPort h = None"
proof -
  assume "plain_host h"
  then have "last_index CHR '':'' h = None" by (simp add: plain_host_def last_index_None)
  then show ?thesis by (simp add: SplitHostPort_def)
qed

section \<open>IPv4 addresses\<close>

type_synonym byte = "8 word"

definition hex_value :: "char \<Rightarrow> nat option" where
  "hex_value c =
     (let n = of_char c in
      if ascii_digit c then Some (n - 48)
      else if 97 \<le> n \<and> n \<le> 102 then Some (n - 87)
      else if 65 \<le> n \<and> n \<le> 70 then Some (n - 55)
      else None)"

definition decimal :: "string \<Rightarrow> nat" where
  "decimal ds = fold (\<lambda>d n. 10 * n + (of_char d - 48)) ds 0"

text \<open>An octet: digits, no leading zero, at most 255.\<close>

definition octet :: "string \<Rightarrow> byte option" where
  "octet ds =
     (if ds = [] \<or> \<not> list_all ascii_digit ds then None
      else if hd ds = CHR ''0'' \<and> length ds \<noteq> 1 then None
      else if 255 < decimal ds then None
      else Some (word_of_nat (decimal ds)))"

definition parseIPv4 :: "string \<Rightarrow> byte list option" where
  "parseIPv4 s =
     (case map octet (split_byte CHR ''.'' s) of
        [Some a, Some b, Some c, Some d] \<Rightarrow> Some [a, b, c, d]
      | _ \<Rightarrow> None)"

section \<open>IPv6 addresses\<close>

text \<open>The hexadecimal digits at the start of a string, with their value.\<close>

fun hex_group :: "string \<Rightarrow> nat \<Rightarrow> string \<times> nat" where
  "hex_group [] acc = ([], acc)"
| "hex_group (c # cs) acc =
     (case hex_value c of
        None \<Rightarrow> (c # cs, acc)
      | Some v \<Rightarrow> hex_group cs (16 * acc + v))"

lemma hex_group_shorter: "length (fst (hex_group s acc)) \<le> length s"
  by (induction s acc rule: hex_group.induct) (auto split: option.split intro: le_SucI)

text \<open>
  The loop of \<open>parseIPv6\<close>: the bytes so far, the position of the ellipsis, and what is left of the
  text. It ends with the bytes, the ellipsis and the text that was not used.
\<close>

function ipv6_loop ::
  "byte list \<Rightarrow> nat option \<Rightarrow> string \<Rightarrow> (byte list \<times> nat option \<times> string) option" where
  "ipv6_loop ip ellipsis s =
     (if 16 \<le> length ip then Some (ip, ellipsis, s)
      else
        (let (rest, acc) = hex_group s 0;
             off = length s - length rest
         in if off = 0 \<or> 4 < off then None
            else if rest \<noteq> [] \<and> hd rest = CHR ''.'' then
              (if ellipsis = None \<and> length ip \<noteq> 12 then None
               else if 16 < length ip + 4 then None
               else (case parseIPv4 s of
                       None \<Rightarrow> None
                     | Some fds \<Rightarrow> Some (ip @ fds, ellipsis, [])))
            else
              (let ip = ip @ [word_of_nat (acc div 256), word_of_nat (acc mod 256)]
               in case rest of
                    [] \<Rightarrow> Some (ip, ellipsis, [])
                  | c # cs \<Rightarrow>
                      if c \<noteq> CHR '':'' \<or> cs = [] then None
                      else if hd cs = CHR '':'' then
                        (if ellipsis \<noteq> None then None
                         else if tl cs = [] then Some (ip, Some (length ip), [])
                         else ipv6_loop ip (Some (length ip)) (tl cs))
                      else ipv6_loop ip ellipsis cs)))"
  by pat_completeness auto
termination
proof (relation "measure (\<lambda>(ip, ellipsis, s). length s)", goal_cases)
  case (2 ip ellipsis s x rest acc off ipa c cs)
  then have "length (c # cs) \<le> length s" using hex_group_shorter [of s 0] by (metis fst_conv)
  then show ?case by simp
next
  case (3 ip ellipsis s x rest acc off ipa c cs)
  then have "length (c # cs) \<le> length s" using hex_group_shorter [of s 0] by (metis fst_conv)
  then show ?case by simp
qed simp

declare ipv6_loop.simps [simp del]

definition expand_ellipsis :: "byte list \<Rightarrow> nat \<Rightarrow> byte list" where
  "expand_ellipsis ip e = take e ip @ replicate (16 - length ip) 0 @ drop e ip"

definition parseIPv6 :: "string \<Rightarrow> byte list option" where
  "parseIPv6 s0 =
     (let lead = has_prefix s0 ''::'';
          s = (if lead then drop 2 s0 else s0)
      in if lead \<and> s = [] then Some (replicate 16 0)
         else
           (case ipv6_loop [] (if lead then Some 0 else None) s of
              None \<Rightarrow> None
            | Some (ip, ellipsis, rest) \<Rightarrow>
                if rest \<noteq> [] then None
                else if length ip < 16 then map_option (expand_ellipsis ip) ellipsis
                else if ellipsis \<noteq> None then None
                else Some ip))"

section \<open>Addresses\<close>

text \<open>\<open>netip.ParseAddr\<close>: the bytes and the zone.\<close>

definition ParseAddr :: "string \<Rightarrow> (byte list \<times> string) option" where
  "ParseAddr s =
     (case find (\<lambda>c. c = CHR ''.'' \<or> c = CHR '':'' \<or> c = CHR ''%'') s of
        None \<Rightarrow> None
      | Some c \<Rightarrow>
          if c = CHR ''.'' then map_option (\<lambda>ip. (ip, [])) (parseIPv4 s)
          else if c = CHR ''%'' then None
          else (let (addr, zone) = cut_byte CHR ''%'' s
                in if CHR ''%'' \<in> set s \<and> zone = [] then None
                   else map_option (\<lambda>ip. (ip, zone)) (parseIPv6 addr)))"

text \<open>\<open>net.ParseIP\<close>: always 16 bytes, an IPv4 address in its mapped form, and no zone.\<close>

definition ParseIP :: "string \<Rightarrow> byte list option" where
  "ParseIP s =
     (case ParseAddr s of
        Some (ip, []) \<Rightarrow>
          Some (if length ip = 4 then replicate 10 0 @ [255, 255] @ ip else ip)
      | _ \<Rightarrow> None)"

end
