(* ===== verification/GoUrl.thy ===== *)
theory GoUrl
  imports GoNet
begin

text \<open>
  \<open>url.Parse\<close> of \<open>net/url\<close>, as of Go 1.26: control characters, the scheme, the query, an opaque or
  rootless rest, the authority with its user information and its host (an IP literal in brackets, or
  a name with an optional port), the unescaping of each part, and the fragment. \<open>RawPath\<close> and the
  flags that only matter for printing a URL are left out.
\<close>

section \<open>Escapes\<close>

datatype url_error =
    ControlCharacter
  | MissingScheme
  | ColonInFirstSegment
  | BadEscape string
  | BadHostByte string
  | BadPort string
  | MissingBracket
  | BadIPLiteral
  | BadUserinfo

datatype escape_mode = EncodePath | EncodeHost | EncodeZone | EncodeUserPassword | EncodeFragment

definition ascii_alnum :: "char \<Rightarrow> bool" where
  "ascii_alnum c \<longleftrightarrow> ascii_upper_letter c \<or> ascii_lower_letter c \<or> ascii_digit c"

text \<open>\<open>shouldEscape\<close> for a host and for a zone.\<close>

definition should_escape_host :: "char \<Rightarrow> bool" where
  "should_escape_host c \<longleftrightarrow>
     \<not> (ascii_alnum c \<or> c \<in> set ''!$&()*+,;=:[]<>-_.~'' \<or> c = CHR 0x27 \<or> c = CHR 0x22)"

fun unescape :: "escape_mode \<Rightarrow> string \<Rightarrow> url_error + string" where
  "unescape m [] = Inr []"
| "unescape m (c # cs) =
     (if c = CHR ''%'' then
        (case cs of
           h # l # rest \<Rightarrow>
             (case (hex_value h, hex_value l) of
                (Some a, Some b) \<Rightarrow>
                  (let v = (char_of (16 * a + b) :: char);
                       percent = (h = CHR ''2'' \<and> l = CHR ''5'')
                   in if m = EncodeHost \<and> a < 8 \<and> \<not> percent then Inl (BadEscape [c, h, l])
                      else if m = EncodeZone \<and> \<not> percent \<and> v \<noteq> CHR '' '' \<and> should_escape_host v
                           then Inl (BadEscape [c, h, l])
                      else map_sum id ((#) v) (unescape m rest))
              | _ \<Rightarrow> Inl (BadEscape [c, h, l]))
         | _ \<Rightarrow> Inl (BadEscape (c # cs)))
      else if (m = EncodeHost \<or> m = EncodeZone) \<and> (of_char c :: nat) < 128 \<and> should_escape_host c
           then Inl (BadHostByte [c])
      else map_sum id ((#) c) (unescape m cs))"

section \<open>The parts of a URL\<close>

text \<open>Scheme and rest.\<close>

fun scheme_from :: "bool \<Rightarrow> string \<Rightarrow> string \<Rightarrow> string \<Rightarrow> url_error + string \<times> string" where
  "scheme_from start seen raw [] = Inr ([], raw)"
| "scheme_from start seen raw (c # cs) =
     (if ascii_upper_letter c \<or> ascii_lower_letter c then scheme_from False (seen @ [c]) raw cs
      else if ascii_digit c \<or> c \<in> set ''+-.'' then
        (if start then Inr ([], raw) else scheme_from False (seen @ [c]) raw cs)
      else if c = CHR '':'' then (if start then Inl MissingScheme else Inr (seen, cs))
      else Inr ([], raw))"

definition getScheme :: "string \<Rightarrow> url_error + string \<times> string" where
  "getScheme raw = scheme_from True [] raw raw"

definition validOptionalPort :: "string \<Rightarrow> bool" where
  "validOptionalPort port \<longleftrightarrow> port = [] \<or> hd port = CHR '':'' \<and> list_all ascii_digit (tl port)"

text \<open>The position of \<open>%25\<close>, which starts a zone.\<close>

fun zone_index :: "string \<Rightarrow> nat option" where
  "zone_index [] = None"
| "zone_index (c # cs) =
     (if has_prefix (c # cs) ''%25'' then Some 0 else map_option Suc (zone_index cs))"

definition ip_literal :: "string \<Rightarrow> url_error + string" where
  "ip_literal hostname =
     (case (case zone_index hostname of
              None \<Rightarrow> unescape EncodeHost hostname
            | Some z \<Rightarrow>
                (case unescape EncodeHost (take z hostname) of
                   Inl e \<Rightarrow> Inl e
                 | Inr h \<Rightarrow> map_sum id ((@) h) (unescape EncodeZone (drop z hostname)))) of
        Inl e \<Rightarrow> Inl e
      | Inr name \<Rightarrow>
          (case ParseAddr name of
             None \<Rightarrow> Inl BadIPLiteral
           | Some (ip, zone) \<Rightarrow> if length ip = 4 then Inl BadIPLiteral else Inr name))"

definition parseHost :: "string \<Rightarrow> string \<Rightarrow> url_error + string" where
  "parseHost scheme host =
     (case last_index CHR ''['' host of
        Some (Suc n) \<Rightarrow> Inl BadIPLiteral
      | Some 0 \<Rightarrow>
          (case last_index CHR '']'' host of
             None \<Rightarrow> Inl MissingBracket
           | Some e \<Rightarrow>
               (let colonPort = drop (Suc e) host in
                if \<not> validOptionalPort colonPort then Inl (BadPort colonPort)
                else (case ip_literal (drop 1 (take e host)) of
                        Inl err \<Rightarrow> Inl err
                      | Inr name \<Rightarrow> Inr (''['' @ name @ '']'' @ colonPort))))
      | None \<Rightarrow>
          (let i = (if scheme = ''http'' \<or> scheme = ''https'' then index_of CHR '':'' host
                    else last_index CHR '':'' host);
               colonPort = (case i of None \<Rightarrow> [] | Some n \<Rightarrow> drop n host)
           in if \<not> validOptionalPort colonPort then Inl (BadPort colonPort)
              else unescape EncodeHost host))"

definition validUserinfo :: "string \<Rightarrow> bool" where
  "validUserinfo s \<longleftrightarrow>
     list_all (\<lambda>c. ascii_alnum c \<or> c \<in> set ''-._:~!$&()*+,;=%@'' \<or> c = CHR 0x27) s"

definition parse_user :: "string \<Rightarrow> url_error + string \<times> string option" where
  "parse_user userinfo =
     (if \<not> validUserinfo userinfo then Inl BadUserinfo
      else if CHR '':'' \<notin> set userinfo then
        map_sum id (\<lambda>u. (u, None)) (unescape EncodeUserPassword userinfo)
      else
        (case cut_byte CHR '':'' userinfo of
           (username, password) \<Rightarrow>
             (case unescape EncodeUserPassword username of
                Inl e \<Rightarrow> Inl e
              | Inr u \<Rightarrow> map_sum id (\<lambda>p. (u, Some p)) (unescape EncodeUserPassword password))))"

definition parseAuthority ::
  "string \<Rightarrow> string \<Rightarrow> url_error + (string \<times> string option) option \<times> string" where
  "parseAuthority scheme authority =
     (case last_index CHR ''@'' authority of
        None \<Rightarrow> map_sum id (\<lambda>h. (None, h)) (parseHost scheme authority)
      | Some i \<Rightarrow>
          (case parseHost scheme (drop (Suc i) authority) of
             Inl e \<Rightarrow> Inl e
           | Inr h \<Rightarrow> map_sum id (\<lambda>u. (Some u, h)) (parse_user (take i authority))))"

section \<open>Parse\<close>

definition zero_url :: url where
  "zero_url = \<lparr>url_Scheme = [], url_Opaque = [], url_User = None, url_Host = [], url_Path = [],
     url_RawQuery = [], url_Fragment = []\<rparr>"

definition set_path :: "string \<Rightarrow> url \<Rightarrow> url_error + url" where
  "set_path p u = map_sum id (\<lambda>path. u\<lparr>url_Path := path\<rparr>) (unescape EncodePath p)"

definition split_query :: "string \<Rightarrow> string \<times> string" where
  "split_query rest = cut_byte CHR ''?'' rest"

definition control_byte :: "char \<Rightarrow> bool" where
  "control_byte c \<longleftrightarrow> (of_char c :: nat) < 32 \<or> c = CHR 0x7F"

definition parse_rest :: "string \<Rightarrow> string \<Rightarrow> url \<Rightarrow> url_error + url" where
  "parse_rest scheme rest u =
     (if \<not> has_prefix rest ''/'' \<and> scheme \<noteq> [] then Inr (u\<lparr>url_Opaque := rest\<rparr>)
      else if \<not> has_prefix rest ''/'' \<and> CHR '':'' \<in> set (fst (cut_byte CHR ''/'' rest))
           then Inl ColonInFirstSegment
      else if (scheme \<noteq> [] \<or> \<not> has_prefix rest ''///'') \<and> has_prefix rest ''//'' then
        (let authority = takeWhile (\<lambda>c. c \<noteq> CHR ''/'') (drop 2 rest);
             rest = dropWhile (\<lambda>c. c \<noteq> CHR ''/'') (drop 2 rest)
         in case parseAuthority scheme authority of
              Inl e \<Rightarrow> Inl e
            | Inr (user, host) \<Rightarrow> set_path rest (u\<lparr>url_User := user, url_Host := host\<rparr>))
      else set_path rest u)"

definition parse_no_fragment :: "string \<Rightarrow> url_error + url" where
  "parse_no_fragment rawURL =
     (if list_ex control_byte rawURL then Inl ControlCharacter
      else if rawURL = ''*'' then Inr (zero_url\<lparr>url_Path := ''*''\<rparr>)
      else
        (case getScheme rawURL of
           Inl e \<Rightarrow> Inl e
         | Inr (s, r) \<Rightarrow>
             (let scheme = map ascii_lower s;
                  (rest, query) = split_query r
              in parse_rest scheme rest (zero_url\<lparr>url_Scheme := scheme, url_RawQuery := query\<rparr>))))"

definition url_Parse :: "string \<Rightarrow> url_error + url" where
  "url_Parse rawURL =
     (let (u, frag) = cut_byte CHR ''#'' rawURL
      in case parse_no_fragment u of
           Inl e \<Rightarrow> Inl e
         | Inr url \<Rightarrow>
             if frag = [] then Inr url
             else map_sum id (\<lambda>f. url\<lparr>url_Fragment := f\<rparr>) (unescape EncodeFragment frag))"

section \<open>Plain URLs\<close>

text \<open>
  Bytes that stand for themselves everywhere in a URL, and URLs made of them: a scheme, a host name
  with an optional port, and a path.
\<close>

definition unreserved :: "char \<Rightarrow> bool" where
  "unreserved c \<longleftrightarrow> ascii_alnum c \<or> c = CHR ''-'' \<or> c = CHR ''.'' \<or> c = CHR ''_'' \<or> c = CHR ''~''"

definition host_name :: "string \<Rightarrow> bool" where
  "host_name h \<longleftrightarrow> h \<noteq> [] \<and> list_all unreserved h"

definition port_suffix :: "string \<Rightarrow> bool" where
  "port_suffix p \<longleftrightarrow> p = [] \<or> hd p = CHR '':'' \<and> tl p \<noteq> [] \<and> list_all ascii_digit (tl p)"

definition plain_path :: "string \<Rightarrow> bool" where
  "plain_path p \<longleftrightarrow> p = [] \<or> hd p = CHR ''/'' \<and> list_all (\<lambda>c. unreserved c \<or> c = CHR ''/'') p"

definition plain_url :: "string \<Rightarrow> string \<Rightarrow> string \<Rightarrow> url" where
  "plain_url scheme host path = zero_url\<lparr>url_Scheme := scheme, url_Host := host, url_Path := path\<rparr>"

lemma unescape_id:
  assumes "CHR ''%'' \<notin> set s"
    and "m = EncodeHost \<or> m = EncodeZone \<Longrightarrow> \<forall>c \<in> set s. \<not> should_escape_host c"
  shows "unescape m s = Inr s"
  using assms by (induction s) auto

lemma ascii_alnum_code:
  "ascii_alnum c \<Longrightarrow> 48 \<le> (of_char c :: nat) \<and> (of_char c :: nat) \<le> 122 \<and> (of_char c :: nat) \<notin> {58..64}
    \<and> (of_char c :: nat) \<notin> {91..96}"
  by (auto simp: ascii_alnum_def ascii_upper_letter_def ascii_lower_letter_def ascii_digit_def)

lemma unreserved_simps:
  assumes "unreserved c"
  shows "c \<notin> {CHR ''%'', CHR ''#'', CHR ''?'', CHR '':'', CHR ''@'', CHR ''['', CHR '']'', CHR ''/''}"
    "\<not> control_byte c" "\<not> should_escape_host c"
  using assms by (auto simp: unreserved_def control_byte_def should_escape_host_def dest: ascii_alnum_code)

lemma digit_simps:
  assumes "ascii_digit c"
  shows "c \<notin> {CHR ''%'', CHR ''#'', CHR ''?'', CHR '':'', CHR ''@'', CHR ''['', CHR '']'', CHR ''/''}"
    "\<not> control_byte c" "\<not> should_escape_host c"
  by (use unreserved_simps [of c] assms in \<open>simp_all add: unreserved_def ascii_alnum_def\<close>)

lemma host_port_bytes:
  assumes "host_name h" "port_suffix p"
  shows "set (h @ p) \<inter> {CHR ''%'', CHR ''#'', CHR ''?'', CHR ''@'', CHR ''['', CHR '']'', CHR ''/''} = {}"
    "\<forall>c \<in> set (h @ p). \<not> control_byte c \<and> \<not> should_escape_host c" "CHR '':'' \<notin> set h"
proof -
  have h: "unreserved c" if "c \<in> set h" for c
    using that assms(1) by (auto simp: host_name_def list_all_iff)
  have p: "c = CHR '':'' \<or> ascii_digit c" if "c \<in> set p" for c
    using that assms(2) by (cases p) (auto simp: port_suffix_def list_all_iff)
  show "set (h @ p) \<inter> {CHR ''%'', CHR ''#'', CHR ''?'', CHR ''@'', CHR ''['', CHR '']'', CHR ''/''} = {}"
    using unreserved_simps(1) digit_simps(1) h p by fastforce
  have "\<not> control_byte CHR '':''" "\<not> should_escape_host CHR '':''"
    by (simp_all add: control_byte_def should_escape_host_def)
  then show "\<forall>c \<in> set (h @ p). \<not> control_byte c \<and> \<not> should_escape_host c"
    using unreserved_simps(2,3) digit_simps(2,3) h p by (metis Un_iff set_append)
  show "CHR '':'' \<notin> set h" using unreserved_simps(1) h by fastforce
qed

lemma plain_path_bytes:
  assumes "plain_path p"
  shows "set p \<inter> {CHR ''%'', CHR ''#'', CHR ''?'', CHR '':'', CHR ''@''} = {}"
    "\<forall>c \<in> set p. \<not> control_byte c"
proof -
  have p: "unreserved c \<or> c = CHR ''/''" if "c \<in> set p" for c
    using that assms by (auto simp: plain_path_def list_all_iff)
  show "set p \<inter> {CHR ''%'', CHR ''#'', CHR ''?'', CHR '':'', CHR ''@''} = {}"
    using unreserved_simps(1) p by fastforce
  have "\<not> control_byte CHR ''/''" by (simp add: control_byte_def)
  then show "\<forall>c \<in> set p. \<not> control_byte c" using unreserved_simps(2) p by metis
qed

lemma parseHost_plain:
  assumes "host_name h" "port_suffix p"
  shows "parseHost scheme (h @ p) = Inr (h @ p)"
proof -
  note bytes = host_port_bytes [OF assms]
  have bracket: "last_index CHR ''['' (h @ p) = None" using bytes(1) by (auto simp: last_index_None)
  have un: "unescape EncodeHost (h @ p) = Inr (h @ p)"
    by (rule unescape_id) (use bytes(1,2) in auto)
  show ?thesis
  proof (cases p)
    case Nil
    then show ?thesis using bytes(3) un
      by (simp add: parseHost_def bracket [unfolded Nil append_Nil2] last_index_None [THEN iffD2]
          index_of_None [THEN iffD2] validOptionalPort_def)
  next
    case (Cons c ds)
    then have c: "c = CHR '':''" "list_all ascii_digit ds" using assms(2) by (simp_all add: port_suffix_def)
    then have "CHR '':'' \<notin> set ds" using digit_simps(1) by (fastforce simp: list_all_iff)
    then have "last_index CHR '':'' (h @ p) = Some (length h)"
      unfolding Cons c(1) by (rule last_index_append)
    moreover have "index_of CHR '':'' (h @ p) = Some (length h)"
      unfolding Cons c(1) by (rule index_of_append [OF bytes(3)])
    ultimately show ?thesis
      using c un by (simp add: parseHost_def bracket [unfolded Cons c(1)] Cons Let_def validOptionalPort_def)
  qed
qed

lemma scheme_from_letters:
  "list_all ascii_lower_letter cs \<Longrightarrow> cs \<noteq> [] \<or> \<not> start \<Longrightarrow>
    scheme_from start seen raw (cs @ CHR '':'' # rest) = Inr (seen @ cs, rest)"
proof (induction cs arbitrary: start seen)
  case Nil
  then show ?case
    by (simp add: ascii_upper_letter_def ascii_lower_letter_def ascii_digit_def)
qed simp

lemma lower_id: "list_all ascii_lower_letter cs \<Longrightarrow> map ascii_lower cs = cs"
  by (induction cs) (auto simp: ascii_lower_def ascii_upper_letter_def ascii_lower_letter_def)

text \<open>A plain URL parses to its parts.\<close>

lemma url_Parse_plain:
  assumes "list_all ascii_lower_letter scheme" "scheme \<noteq> []" "host_name h" "port_suffix p"
    and "plain_path path"
  shows "url_Parse (scheme @ ''://'' @ h @ p @ path) = Inr (plain_url scheme (h @ p) path)"
proof -
  let ?r = "''//'' @ h @ p @ path"
  let ?raw = "scheme @ CHR '':'' # ?r"
  note host = host_port_bytes [OF assms(3,4)] and pbytes = plain_path_bytes [OF assms(5)]
  have letter: "unreserved c" if "c \<in> set scheme" for c
    using that assms(1) by (auto simp: list_all_iff unreserved_def ascii_alnum_def)
  have sbytes: "CHR ''#'' \<notin> set scheme" "\<forall>c \<in> set scheme. \<not> control_byte c"
    using unreserved_simps(1,2) letter by fastforce+
  have hash: "cut_byte CHR ''#'' ?raw = (?raw, [])"
    by (rule cut_byte_none) (use sbytes host(1) pbytes(1) in auto)
  have "\<not> control_byte CHR '':''" "\<not> control_byte CHR ''/''" by (simp_all add: control_byte_def)
  then have ctl: "\<not> list_ex control_byte ?raw"
    using sbytes(2) host(2) pbytes(2) by (auto simp: list_ex_iff)
  have star: "?raw \<noteq> ''*''" using assms(2) by (cases scheme) auto
  have get: "getScheme ?raw = Inr (scheme, ?r)"
    unfolding getScheme_def using scheme_from_letters [OF assms(1), of True "[]"] assms(2) by simp
  have query: "split_query ?r = (?r, [])"
    unfolding split_query_def by (rule cut_byte_none) (use host(1) pbytes(1) in auto)
  have slash: "CHR ''/'' \<notin> set (h @ p)" using host(1) by blast
  have "path = [] \<or> hd path = CHR ''/''" using assms(5) by (auto simp: plain_path_def)
  then have auth: "takeWhile (\<lambda>c. c \<noteq> CHR ''/'') ((h @ p) @ path) = h @ p"
      "dropWhile (\<lambda>c. c \<noteq> CHR ''/'') ((h @ p) @ path) = path"
    using slash by (cases path; auto simp: takeWhile_append dropWhile_append)+
  have at: "last_index CHR ''@'' (h @ p) = None" using host(1) by (auto simp: last_index_None)
  have pa: "parseAuthority scheme (h @ p) = Inr (None, h @ p)"
    by (simp add: parseAuthority_def at parseHost_plain [OF assms(3,4)])
  have un: "unescape EncodePath path = Inr path"
    by (rule unescape_id) (use pbytes(1) in auto)
  have pre: "has_prefix ?r ''/''" "has_prefix ?r ''//''" "drop 2 ?r = (h @ p) @ path"
    by (simp_all add: has_prefix_def)
  have "parse_rest scheme ?r u = Inr (u\<lparr>url_User := None, url_Host := h @ p, url_Path := path\<rparr>)" for u
    unfolding parse_rest_def pre(3) Let_def auth pa using pre(1,2) assms(2)
    by (simp add: set_path_def un)
  moreover have "parse_no_fragment ?raw
      = parse_rest scheme ?r (zero_url\<lparr>url_Scheme := scheme, url_RawQuery := []\<rparr>)"
    unfolding parse_no_fragment_def get
    by (simp only: ctl star if_False sum.case prod.case Let_def query lower_id [OF assms(1)])
  ultimately have "parse_no_fragment ?raw = Inr (plain_url scheme (h @ p) path)"
    by (simp add: plain_url_def zero_url_def)
  then have "url_Parse ?raw = Inr (plain_url scheme (h @ p) path)"
    unfolding url_Parse_def hash by simp
  then show ?thesis by simp
qed

text \<open>A host with an optional port and a path has no scheme: \<open>://\<close> does not occur in it.\<close>

lemma no_scheme_in_host:
  assumes "host_name h" "port_suffix p" "plain_path path"
  shows "\<not> contains_at (h @ p @ path) ''://''"
proof
  assume "contains_at (h @ p @ path) ''://''"
  then obtain u v where eq: "h @ p @ path = u @ ''://'' @ v" by (auto simp: contains_at_iff)
  note h = host_port_bytes(3) [OF assms(1,2)] and path = plain_path_bytes(1) [OF assms(3)]
  have "p \<noteq> []"
  proof
    assume "p = []"
    with eq have "set h \<union> set path = set (u @ ''://'' @ v)" by (metis append_Nil set_append)
    with h path show False by auto
  qed
  then obtain d ds where p: "p = CHR '':'' # d # ds" "ascii_digit d" "list_all ascii_digit ds"
    using assms(2) by (cases p rule: remdups_adj.cases) (auto simp: port_suffix_def)
  have ds: "CHR '':'' \<notin> set (d # ds @ path)"
    using p(2,3) path digit_simps(1) by (fastforce simp: list_all_iff)
  have "CHR '':'' \<notin> set u"
  proof
    assume "CHR '':'' \<in> set u"
    then obtain w x where u: "u = w @ CHR '':'' # x" "CHR '':'' \<notin> set w" by (meson split_list_first)
    have "cut_byte CHR '':'' (h @ CHR '':'' # d # ds @ path)
        = cut_byte CHR '':'' (w @ CHR '':'' # x @ ''://'' @ v)"
      using eq by (simp add: p(1) u(1))
    then have "d # ds @ path = x @ ''://'' @ v"
      unfolding cut_byte_found [OF h] cut_byte_found [OF u(2)] by simp
    then have "CHR '':'' \<in> set (d # ds @ path)" by simp
    with ds show False by blast
  qed
  then have "cut_byte CHR '':'' (u @ CHR '':'' # ''//'' @ v) = (u, ''//'' @ v)" by (rule cut_byte_found)
  moreover have "cut_byte CHR '':'' (h @ CHR '':'' # d # ds @ path)
      = cut_byte CHR '':'' (u @ CHR '':'' # ''//'' @ v)"
    using eq by (simp add: p(1))
  ultimately have "d # ds @ path = ''//'' @ v" unfolding cut_byte_found [OF h] by simp
  then show False using digit_simps(1) [OF p(2)] by simp
qed

end
