(* ===== verification/Proxy.thy ===== *)
theory Proxy
  imports KeyStore UsageStore UsageParser GoUrl
begin

text \<open>
  The data plane, \<open>internal/proxy/proxy.go\<close>: routes, the authentication and quota interceptor, the
  rewriting of the request for the vendor, and the treatment of the vendor's answer with the usage
  record it emits. Arguments stand for what the handlers call outside the repository: gjson
  and sjson, the digest, the database and its faults, and the vendor (\<open>upstream\<close>). The router
  of gin decides which registered route a request belongs to and what the wildcard matched. The lines
  of the access log are in \<open>AuditLog\<close>.
\<close>

section \<open>Routes\<close>

definition buildTargetURL :: "string \<Rightarrow> string \<Rightarrow> url_error + url" where
  "buildTargetURL baseURI host =
     (if has_prefix host ''http://'' \<or> has_prefix host ''https://'' then url_Parse host
      else (let scheme = (if has_prefix baseURI ''http://'' then ''http://'' else ''https://'')
            in url_Parse (scheme @ host)))"

datatype proxy_error = InvalidHost string string url_error  \<comment> \<open>route, host, parse error\<close>

record proxy_route =
  pr_routePath :: string
  pr_target :: url
  pr_routeCfg :: route_config

definition setup_route ::
  "apml_config \<Rightarrow> string \<times> route_config \<Rightarrow> proxy_error + proxy_route" where
  "setup_route cfg pr =
     (case pr of (path, route) \<Rightarrow>
        (let provider = (case map_of (cfg_Providers cfg) (rc_Provider route) of
               None \<Rightarrow> zero_provider | Some p \<Rightarrow> p)
         in case buildTargetURL (cfg_BaseURI cfg) (pc_Host provider) of
              Inl m \<Rightarrow> Inl (InvalidHost path (pc_Host provider) m)
            | Inr targetURL \<Rightarrow>
                Inr \<lparr>pr_routePath = path, pr_target = targetURL, pr_routeCfg = route\<rparr>))"

fun setup_loop ::
  "apml_config \<Rightarrow> (string \<times> route_config) list
     \<Rightarrow> proxy_error + proxy_route list" where
  "setup_loop cfg [] = Inr []"
| "setup_loop cfg (pr # prs) =
     (case setup_route cfg pr of
        Inl e \<Rightarrow> Inl e
      | Inr r \<Rightarrow> (case setup_loop cfg prs of Inl e \<Rightarrow> Inl e | Inr rs \<Rightarrow> Inr (r # rs)))"

definition setupRoutes ::
  "apml_config \<Rightarrow> proxy_error + proxy_route list" where
  "setupRoutes cfg = setup_loop cfg (cfg_Routes cfg)"

section \<open>Authentication and quota\<close>

record request =
  rq_Header :: http_header
  rq_Body :: http_body
  rq_Query :: string  \<comment> \<open>the raw query as the reverse proxy hands it on\<close>
  rq_any :: string  \<comment> \<open>what the wildcard of the route matched\<close>
  rq_ClientIP :: string
  rq_Start :: go_time  \<comment> \<open>the clock when the interceptor began\<close>

datatype deny =
    MissingCustomKey string  \<comment> \<open>the header that was expected\<close>
  | MissingBearer
  | InvalidKey
  | QuotaExceeded string  \<comment> \<open>the reason of \<open>QuotaCheck\<close>\<close>

definition deny_status :: "deny \<Rightarrow> nat" where
  "deny_status d = (case d of QuotaExceeded reason \<Rightarrow> 429 | _ \<Rightarrow> 401)"

record auth_context =
  cx_realKey :: string
  cx_localKey :: string
  cx_clientIP :: string
  cx_alias :: string
  cx_startTime :: go_time

definition provider_of :: "apml_config \<Rightarrow> string \<Rightarrow> provider_config option" where
  "provider_of cfg routePath =
     map_of (cfg_Providers cfg)
       (rc_Provider (case map_of (cfg_Routes cfg) routePath of None \<Rightarrow> zero_route | Some r \<Rightarrow> r))"

text \<open>The header that carries the key, and whether it is a custom one.\<close>

definition auth_header_key :: "provider_config option \<Rightarrow> string \<times> bool" where
  "auth_header_key providerCfg =
     (case providerCfg of
        Some p \<Rightarrow>
          if pc_APIKeyPrefix p \<noteq> [] \<and> \<not> has_prefix (to_lower (pc_APIKeyPrefix p)) ''authorization:''
          then (pc_APIKeyPrefix p, True) else (''Authorization'', False)
      | None \<Rightarrow> (''Authorization'', False))"

definition presented_key :: "provider_config option \<Rightarrow> http_header \<Rightarrow> deny + string" where
  "presented_key providerCfg h =
     (let (authHeaderKey, isCustomHeader) = auth_header_key providerCfg;
          parts = string_fields (header_get h authHeaderKey)
      in if isCustomHeader
         then (case parts of [k] \<Rightarrow> Inr k | _ \<Rightarrow> Inl (MissingCustomKey authHeaderKey))
         else (case parts of
                 [scheme, k] \<Rightarrow> if equal_fold scheme ''bearer'' then Inr k else Inl MissingBearer
               | _ \<Rightarrow> Inl MissingBearer))"

text \<open>What the interceptor decides with, besides the configuration and the store.\<close>

record quota_env =
  qe_engine :: sqlite
  qe_gjson :: gjson
  qe_fault :: "string \<Rightarrow> string option"
  qe_now :: go_time
  qe_db :: usage_db

definition authInterceptor ::
  "(string \<Rightarrow> string) \<Rightarrow> apml_config \<Rightarrow> key_store \<Rightarrow> quota_env \<Rightarrow> string \<Rightarrow> request
     \<Rightarrow> deny + auth_context \<times> request" where
  "authInterceptor sha cfg store env routePath rq =
     (let providerCfg = provider_of cfg routePath in
      case presented_key providerCfg (rq_Header rq) of
        Inl d \<Rightarrow> Inl d
      | Inr localKey \<Rightarrow>
          (case GetKeyByInternal sha store localKey of
             None \<Rightarrow> Inl InvalidKey
           | Some keyRecord \<Rightarrow>
               if kr_Route keyRecord \<noteq> routePath then Inl InvalidKey
               else
                 (let cx = \<lparr>cx_realKey = kr_RealKey keyRecord, cx_localKey = localKey,
                        cx_clientIP = rq_ClientIP rq, cx_alias = kr_Alias keyRecord,
                        cx_startTime = rq_Start rq\<rparr>;
                      quotaName = rc_Quota (case map_of (cfg_Routes cfg) routePath of
                        None \<Rightarrow> zero_route | Some r \<Rightarrow> r)
                  in if quotaName = [] then Inr (cx, rq)
                     else
                       (let quota = (case map_of (cfg_Quotas cfg) quotaName of
                              None \<Rightarrow> zero_quota | Some q \<Rightarrow> q);
                            bodyBytes = fst (read_all (rq_Body rq));
                            provider = (case providerCfg of None \<Rightarrow> zero_provider | Some p \<Rightarrow> p);
                            result = QuotaCheck (qe_engine env) (qe_gjson env) (qe_fault env)
                              (qe_now env) (qe_db env) localKey routePath quota bodyBytes (Some provider)
                        in if \<not> c_Allowed result then Inl (QuotaExceeded (c_DenyReason result))
                           else Inr (cx, rq\<lparr>rq_Body := BodyStream bodyBytes None\<rparr>)))))"

section \<open>Rewriting the request\<close>

fun merge_sub :: "sjson \<Rightarrow> string \<Rightarrow> (string \<times> yaml_value) list \<Rightarrow> string \<Rightarrow> string" where
  "merge_sub sj topKey [] body = body"
| "merge_sub sj topKey ((subKey, subVal) # subs) body =
     merge_sub sj topKey subs (fst (sj body (topKey @ ''.'' @ subKey) subVal))"

fun merge_options :: "sjson \<Rightarrow> (string \<times> yaml_value) list \<Rightarrow> string \<Rightarrow> string" where
  "merge_options sj [] body = body"
| "merge_options sj ((topKey, topVal) # opts) body =
     merge_options sj opts
       (case topVal of
          YMap subMap \<Rightarrow> merge_sub sj topKey subMap body
        | _ \<Rightarrow> fst (sj body topKey topVal))"

definition executeMergeOptionsInline ::
  "gjson \<Rightarrow> sjson \<Rightarrow> string \<Rightarrow> (string, yaml_value) gomap \<Rightarrow> string" where
  "executeMergeOptionsInline gj sj bodyBytes apmlOpts =
     (let bodyBytes = (if \<not> g_Exists (gj bodyBytes ''stream'')
                       then fst (sj bodyBytes ''stream'' (YBool True)) else bodyBytes)
      in merge_options sj apmlOpts bodyBytes)"

record out_request =
  o_Header :: http_header
  o_Host :: string
  o_URL :: url
  o_Body :: http_body
  o_ContentLength :: "int option"  \<comment> \<open>\<open>None\<close>: as in the inbound request\<close>

definition skipped_header :: "provider_config \<Rightarrow> string \<Rightarrow> bool" where
  "skipped_header p key \<longleftrightarrow> equal_fold key ''Authorization'' \<or> equal_fold key ''Host''
     \<or> pc_APIKeyPrefix p \<noteq> [] \<and> equal_fold key (pc_APIKeyPrefix p)"

fun copy_headers :: "provider_config \<Rightarrow> http_header \<Rightarrow> http_header \<Rightarrow> http_header" where
  "copy_headers p [] out = out"
| "copy_headers p ((key, vals) # hs) out =
     copy_headers p hs (if skipped_header p key then out else fold (header_add key) vals out)"

definition set_credential :: "provider_config \<Rightarrow> string \<Rightarrow> http_header \<Rightarrow> http_header" where
  "set_credential p realKey out =
     (if pc_APIKeyPrefix p \<noteq> [] then header_set (pc_APIKeyPrefix p) realKey out
      else header_set ''Authorization'' (''Bearer '' @ realKey) out)"

text \<open>\<open>SetURL\<close>, then the assignments of \<open>Out.Host\<close> and \<open>Out.URL.Path\<close>.\<close>

definition out_url :: "url \<Rightarrow> request \<Rightarrow> url" where
  "out_url target rq =
     \<lparr>url_Scheme = url_Scheme target, url_Opaque = [], url_User = None, url_Host = url_Host target,
      url_Path = (if rq_any rq = [] then ''/'' else rq_any rq),
      url_RawQuery = join_query (url_RawQuery target) (rq_Query rq), url_Fragment = []\<rparr>"

definition is_streaming :: "gjson \<Rightarrow> string \<Rightarrow> bool" where
  "is_streaming gj body \<longleftrightarrow> g_Exists (gj body ''stream'') \<and> g_Bool (gj body ''stream'')"

definition out_body :: "gjson \<Rightarrow> sjson \<Rightarrow> provider_config \<Rightarrow> string \<Rightarrow> string" where
  "out_body gj sj p body =
     (case pc_Streaming p of
        Some s \<Rightarrow> if is_streaming gj body
          then executeMergeOptionsInline gj sj body (sc_RequestOption s) else body
      | None \<Rightarrow> body)"

definition body_headers :: "url \<Rightarrow> string \<Rightarrow> http_header \<Rightarrow> http_header" where
  "body_headers target body out =
     header_del ''Accept-Encoding''
       (header_set ''Content-Type'' ''application/json''
         (header_set ''Content-Length'' (show_int (int (length body)))
           (header_set ''Host'' (url_Host target) out)))"

text \<open>
  The closure \<open>Rewrite\<close>: the outbound request and the value it stores under \<open>streaming\<close>. A body that
  cannot be read leaves both as they were: the rest of the inbound body (none) is sent, and the
  request does not count as streaming.
\<close>

definition Rewrite ::
  "gjson \<Rightarrow> sjson \<Rightarrow> provider_config \<Rightarrow> url \<Rightarrow> string \<Rightarrow> request \<Rightarrow> out_request \<times> bool" where
  "Rewrite gj sj p target realKey rq =
     (let hdr = set_credential p realKey
                  (copy_headers p (rq_Header rq) (outbound_headers (rq_Header rq)));
          out = \<lparr>o_Header = hdr, o_Host = url_Host target, o_URL = out_url target rq,
                 o_Body = rq_Body rq, o_ContentLength = None\<rparr>
      in case rq_Body rq of
           NoBody \<Rightarrow> (out, False)
         | BodyStream bytes (Some err) \<Rightarrow> (out\<lparr>o_Body := BodyStream [] (Some err)\<rparr>, False)
         | BodyStream bytes None \<Rightarrow>
             (let bodyBytes = out_body gj sj p bytes
              in (out\<lparr>o_Body := BodyStream bodyBytes None,
                      o_ContentLength := Some (int (length bodyBytes)),
                      o_Header := body_headers target bodyBytes hdr\<rparr>,
                  is_streaming gj bytes)))"

section \<open>The answer\<close>

record response =
  rs_Status :: nat
  rs_Header :: http_header
  rs_Body :: http_body

definition StatusOK :: nat where "StatusOK = 200"

definition make_record ::
  "auth_context \<Rightarrow> string \<Rightarrow> go_time \<Rightarrow> token_counts \<Rightarrow> usage_record" where
  "make_record cx routePath now counts =
     (case counts of (promptTokens, completionTokens) \<Rightarrow>
        \<lparr>r_LocalKey = cx_localKey cx, r_RoutePath = routePath, r_ClientIP = cx_clientIP cx,
         r_PromptTokens = promptTokens, r_CompletionTokens = completionTokens,
         r_TotalTokens = promptTokens + completionTokens, r_CreatedAt = now\<rparr>)"

text \<open>
  A stream is copied to the client through a \<open>TeeReader\<close>, which writes what it read to the pipe of
  the parser before the client gets it. Timing decides how many bytes the copy reads before it ends
  (at least the length of the body if it is not given up), and how many the parser has taken when it
  stops at a line that is too long. A parser that returned has closed the pipe: the copy ends with an
  error at the first byte the parser did not take. When the copy ends, closing the body
  (\<open>autoCloseWriter\<close>) ends the text of the parser.
\<close>

record stream_timing =
  tm_copied :: nat
  tm_parsed :: nat

text \<open>The text the parser is offered, and the body the client gets.\<close>

definition tee_stream ::
  "provider_config \<Rightarrow> stream_timing \<Rightarrow> string \<Rightarrow> string option \<Rightarrow> string \<times> http_body" where
  "tee_stream p tm bytes err =
     (let copied = take (tm_copied tm) bytes;
          err = (if tm_copied tm < length bytes then Some ''context canceled'' else err);
          taken = (if \<not> parser_reads p then 0
                   else if snd (scan_lines copied) then tm_parsed tm else length copied)
      in (copied,
          if taken < length copied
          then BodyStream (take taken copied) (Some ''io: read/write on closed pipe'')
          else BodyStream copied err))"

text \<open>
  \<open>ModifyResponse\<close> with the goroutine it starts: the response the client gets and the record that is
  emitted. \<open>None\<close> is the panic of \<open>ParseStandardJSON\<close>.
\<close>

definition ModifyResponse ::
  "gjson \<Rightarrow> provider_config \<Rightarrow> auth_context \<Rightarrow> string \<Rightarrow> go_time \<Rightarrow> stream_timing \<Rightarrow> bool \<Rightarrow> response
     \<Rightarrow> (response \<times> usage_record option) option" where
  "ModifyResponse gj p cx routePath now tm isStreaming res =
     (if rs_Status res \<noteq> StatusOK then Some (res, None)
      else if \<not> isStreaming then
        (case read_all (rs_Body res) of
           (bytes, Some err) \<Rightarrow> Some (res\<lparr>rs_Body := BodyStream [] (Some err)\<rparr>, None)
         | (bytes, None) \<Rightarrow>
             map_option (\<lambda>counts. (res\<lparr>rs_Body := BodyStream bytes None\<rparr>,
                 Some (make_record cx routePath now counts)))
               (ParseStandardJSON gj bytes p))
      else
        (let (bytes, err) = read_all (rs_Body res);
             (text, seen) = tee_stream p tm bytes err
         in Some (res\<lparr>rs_Body := seen\<rparr>,
              Some (make_record cx routePath now (ParseStreamReader gj text p)))))"

lemma make_record_sel:
  "r_LocalKey (make_record cx routePath now counts) = cx_localKey cx"
  "r_RoutePath (make_record cx routePath now counts) = routePath"
  "r_ClientIP (make_record cx routePath now counts) = cx_clientIP cx"
  "r_PromptTokens (make_record cx routePath now counts) = fst counts"
  "r_CompletionTokens (make_record cx routePath now counts) = snd counts"
  "r_TotalTokens (make_record cx routePath now counts) = fst counts + snd counts"
  "r_CreatedAt (make_record cx routePath now counts) = now"
  by (simp_all add: make_record_def split: prod.split)

text \<open>How a request ends.\<close>

datatype gateway_fault =
    TransportFault string
  | ClientProtocol string  \<comment> \<open>client tried to switch to invalid protocol\<close>
  | BackendProtocol string  \<comment> \<open>backend tried to switch to invalid protocol\<close>
  | OtherProtocol string string  \<comment> \<open>backend tried to switch protocol \<open>%q\<close> when \<open>%q\<close> was requested\<close>

datatype outcome =
    Denied deny
  | Panicked
  | BadGateway "out_request option" gateway_fault
  | Forwarded out_request response "usage_record option"

text \<open>
  \<open>ReverseProxy.ServeHTTP\<close> with these closures. A request to switch to a protocol whose name is not
  printable never gets to \<open>Rewrite\<close>. An answer 101 keeps its hop-by-hop headers; when it switches to
  the protocol that was asked for, the two connections are joined, and the response stands for all the
  vendor sends from then on. (The client's connection can be taken over: such requests are HTTP/1.)
\<close>

definition StatusSwitchingProtocols :: nat where "StatusSwitchingProtocols = 101"

definition upgrade_fault :: "http_header \<Rightarrow> http_header \<Rightarrow> gateway_fault option" where
  "upgrade_fault req res =
     (let reqUpType = upgrade_type req; resUpType = upgrade_type res
      in if \<not> printable_name resUpType then Some (BackendProtocol resUpType)
         else if \<not> equal_fold reqUpType resUpType then Some (OtherProtocol resUpType reqUpType)
         else None)"

text \<open>The answer as \<open>ModifyResponse\<close> gets it: without its hop-by-hop headers, unless it is a 101.\<close>

definition end_to_end :: "response \<Rightarrow> response" where
  "end_to_end res =
     (if rs_Status res = StatusSwitchingProtocols then res
      else res\<lparr>rs_Header := removeHopByHopHeaders (rs_Header res)\<rparr>)"

definition handleReverseProxy ::
  "gjson \<Rightarrow> sjson \<Rightarrow> apml_config \<Rightarrow> proxy_route \<Rightarrow> (out_request \<Rightarrow> string + response) \<Rightarrow> go_time
     \<Rightarrow> stream_timing \<Rightarrow> auth_context \<Rightarrow> request \<Rightarrow> outcome" where
  "handleReverseProxy gj sj cfg r upstream now tm cx rq =
     (case map_of (cfg_Providers cfg) (rc_Provider (pr_routeCfg r)) of
        None \<Rightarrow> Panicked
      | Some p \<Rightarrow>
          if \<not> printable_name (upgrade_type (rq_Header rq))
          then BadGateway None (ClientProtocol (upgrade_type (rq_Header rq)))
          else
            (let (out, isStreaming) = Rewrite gj sj p (pr_target r) (cx_realKey cx) rq
             in case upstream out of
                  Inl err \<Rightarrow> BadGateway (Some out) (TransportFault err)
                | Inr res \<Rightarrow>
                    (case ModifyResponse gj p cx (pr_routePath r) now tm isStreaming (end_to_end res) of
                       None \<Rightarrow> Panicked
                     | Some (res', rec) \<Rightarrow>
                         if rs_Status res' = StatusSwitchingProtocols then
                           (case upgrade_fault (o_Header out) (rs_Header res') of
                              Some err \<Rightarrow> BadGateway (Some out) err
                            | None \<Rightarrow> Forwarded out res' rec)
                         else Forwarded out res' rec)))"

text \<open>A request that the router gave to a registered route.\<close>

definition serve ::
  "(string \<Rightarrow> string) \<Rightarrow> sjson \<Rightarrow> apml_config \<Rightarrow> key_store \<Rightarrow> quota_env
     \<Rightarrow> (out_request \<Rightarrow> string + response) \<Rightarrow> go_time \<Rightarrow> stream_timing \<Rightarrow> proxy_route \<Rightarrow> request \<Rightarrow> outcome" where
  "serve sha sj cfg store env upstream now tm r rq =
     (case authInterceptor sha cfg store env (pr_routePath r) rq of
        Inl d \<Rightarrow> Denied d
      | Inr (cx, rq') \<Rightarrow> handleReverseProxy (qe_gjson env) sj cfg r upstream now tm cx rq')"

section \<open>Routes of a configuration\<close>

lemma setup_loop_paths:
  "setup_loop cfg prs = Inr rs \<Longrightarrow>
    map (\<lambda>r. (pr_routePath r, pr_routeCfg r)) rs = prs"
  by (induction prs arbitrary: rs) (auto simp: setup_route_def Let_def split: sum.splits)

lemma setup_loop_targets:
  "setup_loop cfg prs = Inr rs \<Longrightarrow> r \<in> set rs \<Longrightarrow>
    map_of (cfg_Providers cfg) (rc_Provider (pr_routeCfg r)) = Some p \<Longrightarrow>
    buildTargetURL (cfg_BaseURI cfg) (pc_Host p) = Inr (pr_target r)"
  by (induction prs arbitrary: rs) (auto simp: setup_route_def Let_def split: sum.splits)

lemma setup_loop_error:
  "setup_loop cfg prs = Inl e \<Longrightarrow> \<exists>pr \<in> set prs. setup_route cfg pr = Inl e"
  by (induction prs) (auto split: sum.splits)

lemma setup_loop_ok:
  "\<forall>pr \<in> set prs. \<exists>r. setup_route cfg pr = Inr r \<Longrightarrow> \<exists>rs. setup_loop cfg prs = Inr rs"
  by (induction prs) (auto split: sum.splits)

lemma registered_route:
  assumes "setupRoutes cfg = Inr rs" "r \<in> set rs" "routes_ok cfg"
  shows "map_of (cfg_Routes cfg) (pr_routePath r) = Some (pr_routeCfg r)"
proof -
  have "(pr_routePath r, pr_routeCfg r) \<in> set (map (\<lambda>r. (pr_routePath r, pr_routeCfg r)) rs)"
    using assms(2) by auto
  then have mem: "(pr_routePath r, pr_routeCfg r) \<in> set (cfg_Routes cfg)"
    using setup_loop_paths [OF assms(1) [unfolded setupRoutes_def]] by simp
  have "gmap_ok (cfg_Routes cfg)" using assms(3) unfolding routes_ok_def by blast
  from gmap_mem_iff [OF this] mem show ?thesis by blast
qed

lemma registered_provider:
  assumes "setupRoutes cfg = Inr rs" "r \<in> set rs" "routes_ok cfg" "config_ok cfg"
  obtains p where "map_of (cfg_Providers cfg) (rc_Provider (pr_routeCfg r)) = Some p"
    "provider_of cfg (pr_routePath r) = Some p" "provider_ok p"
proof -
  note reg = registered_route [OF assms(1-3)]
  from config_ok_route [OF assms(4) reg] obtain p where
    p: "map_of (cfg_Providers cfg) (rc_Provider (pr_routeCfg r)) = Some p"
    by (auto simp: route_ok_def)
  then show ?thesis
    using that config_ok_provider(1) [OF assms(4) p] reg by (simp add: provider_of_def)
qed

section \<open>Who gets through\<close>

text \<open>The request presents a key whose record is in the store and belongs to the route.\<close>

definition authenticated ::
  "(string \<Rightarrow> string) \<Rightarrow> apml_config \<Rightarrow> key_store \<Rightarrow> string \<Rightarrow> request \<Rightarrow> string \<Rightarrow> key_record \<Rightarrow> bool"
  where
  "authenticated sha cfg store routePath rq k r \<longleftrightarrow>
     presented_key (provider_of cfg routePath) (rq_Header rq) = Inr k
     \<and> r \<in> records store \<and> hashInternalKey sha (kr_InternalKey r) = hashInternalKey sha k
     \<and> kr_Route r = routePath"

definition quota_result ::
  "apml_config \<Rightarrow> quota_env \<Rightarrow> string \<Rightarrow> request \<Rightarrow> string \<Rightarrow> check_result" where
  "quota_result cfg env routePath rq k =
     (case ResolveQuota cfg routePath of
        (q, True) \<Rightarrow> QuotaCheck (qe_engine env) (qe_gjson env) (qe_fault env) (qe_now env) (qe_db env)
          k routePath q (fst (read_all (rq_Body rq))) (provider_of cfg routePath)
      | (q, False) \<Rightarrow> allow_result 0)"

definition context_of :: "key_record \<Rightarrow> string \<Rightarrow> request \<Rightarrow> auth_context" where
  "context_of r k rq = \<lparr>cx_realKey = kr_RealKey r, cx_localKey = k, cx_clientIP = rq_ClientIP rq,
     cx_alias = kr_Alias r, cx_startTime = rq_Start rq\<rparr>"

text \<open>Reading the body for the estimate puts it back; a read error is forgotten.\<close>

definition checked_request :: "apml_config \<Rightarrow> string \<Rightarrow> request \<Rightarrow> request" where
  "checked_request cfg routePath rq =
     (if snd (ResolveQuota cfg routePath)
      then rq\<lparr>rq_Body := BodyStream (fst (read_all (rq_Body rq))) None\<rparr> else rq)"

lemma authInterceptor_ok:
  assumes "store_ok sha store" "config_ok cfg" "routePath \<in> dom (map_of (cfg_Routes cfg))"
    and "authenticated sha cfg store routePath rq k r"
  shows "authInterceptor sha cfg store env routePath rq =
    (if c_Allowed (quota_result cfg env routePath rq k)
     then Inr (context_of r k rq, checked_request cfg routePath rq)
     else Inl (QuotaExceeded (c_DenyReason (quota_result cfg env routePath rq k))))"
proof -
  have pk: "presented_key (provider_of cfg routePath) (rq_Header rq) = Inr k"
    and get: "GetKeyByInternal sha store k = Some r" and route: "kr_Route r = routePath"
    using assms(4) ks.lookup_iff [OF assms(1)] by (auto simp: authenticated_def)
  obtain rc where rc: "map_of (cfg_Routes cfg) routePath = Some rc" using assms(3) by auto
  obtain p where p: "provider_of cfg routePath = Some p"
    using config_ok_route [OF assms(2) rc] by (auto simp: provider_of_def rc route_ok_def)
  show ?thesis
  proof (cases "rc_Quota rc = []")
    case True
    then have "ResolveQuota cfg routePath = (zero_quota, False)" by (simp add: ResolveQuota_def rc)
    with True show ?thesis
      using pk get route rc
      by (simp add: authInterceptor_def quota_result_def checked_request_def context_of_def)
  next
    case False
    then obtain q where "map_of (cfg_Quotas cfg) (rc_Quota rc) = Some q"
        "ResolveQuota cfg routePath = (q, True)"
      using ResolveQuota_some [OF assms(2) rc] by blast
    with False show ?thesis
      using pk get route rc p
      by (simp add: authInterceptor_def quota_result_def checked_request_def context_of_def Let_def)
  qed
qed

lemma authInterceptor_denied:
  assumes "store_ok sha store" "\<nexists>k r. authenticated sha cfg store routePath rq k r"
  shows "\<exists>d. authInterceptor sha cfg store env routePath rq = Inl d \<and> deny_status d = 401"
proof (cases "presented_key (provider_of cfg routePath) (rq_Header rq)")
  case (Inl d)
  then have "deny_status d = 401"
    by (auto simp: presented_key_def deny_status_def Let_def split: prod.splits if_splits list.splits)
  with Inl show ?thesis by (simp add: authInterceptor_def)
next
  case (Inr k)
  show ?thesis
  proof (cases "GetKeyByInternal sha store k")
    case None
    with Inr show ?thesis by (simp add: authInterceptor_def deny_status_def)
  next
    case (Some r)
    then have "kr_Route r \<noteq> routePath"
      using assms(2) Inr ks.lookup_iff [OF assms(1), of k r] by (auto simp: authenticated_def)
    with Inr Some show ?thesis by (simp add: authInterceptor_def deny_status_def)
  qed
qed

section \<open>Headers of the rewritten request\<close>

lemma header_values_notin: "k \<notin> fst ` set h \<Longrightarrow> header_values h k = []"
  by (simp add: header_values_def map_of_eq_None_iff [THEN iffD2])

lemma header_values_copy:
  "header_ok hs \<Longrightarrow> header_values (copy_headers p hs out) n
    = header_values out n @ (if skipped_header p n then [] else header_values hs n)"
proof (induction p hs out rule: copy_headers.induct)
  case (1 p out)
  then show ?case by (simp add: header_values_def)
next
  case (2 p key vals hs out)
  have key: "canonical_header key = key" "key \<notin> fst ` set hs" and ok: "header_ok hs"
    using "2.prems" by (auto simp: header_ok_def)
  have "header_values ((key, vals) # hs) n = (if n = key then vals else header_values hs n)"
    by (simp add: header_values_def)
  then show ?case
    using 2(1) [OF ok] header_values_notin [OF key(2)]
    by (auto simp: header_values_adds key(1))
qed

definition credential_header :: "provider_config \<Rightarrow> string" where
  "credential_header p =
     canonical_header (if pc_APIKeyPrefix p \<noteq> [] then pc_APIKeyPrefix p else ''Authorization'')"

definition credential_value :: "provider_config \<Rightarrow> string \<Rightarrow> string" where
  "credential_value p realKey =
     (if pc_APIKeyPrefix p \<noteq> [] then realKey else ''Bearer '' @ realKey)"

lemma header_values_credential:
  "header_values (set_credential p realKey h) n
    = (if n = credential_header p then [credential_value p realKey] else header_values h n)"
  by (simp add: set_credential_def credential_header_def credential_value_def)

definition body_header_names :: "string list" where
  "body_header_names = [''Host'', ''Content-Length'', ''Content-Type'', ''Accept-Encoding'']"

lemma canonical_body_names:
  "canonical_header ''Host'' = ''Host''" "canonical_header ''Content-Length'' = ''Content-Length''"
  "canonical_header ''Content-Type'' = ''Content-Type''"
  "canonical_header ''Accept-Encoding'' = ''Accept-Encoding''"
  "canonical_header ''Authorization'' = ''Authorization''"
  by (simp_all add: canonical_header_def header_token_char_def ascii_upper_letter_def
      ascii_lower_letter_def ascii_upper_def ascii_lower_def)

lemma header_values_body:
  "header_values (body_headers target body h) n =
    (if n = ''Accept-Encoding'' then []
     else if n = ''Content-Type'' then [''application/json'']
     else if n = ''Content-Length'' then [show_int (int (length body))]
     else if n = ''Host'' then [url_Host target] else header_values h n)"
  by (simp add: body_headers_def canonical_body_names)

lemma Rewrite_header_values:
  assumes "header_ok (rq_Header rq)" "n \<notin> set body_header_names"
  shows "header_values (o_Header (fst (Rewrite gj sj p target realKey rq))) n =
    (if n = credential_header p then [credential_value p realKey]
     else passed_values (rq_Header rq) n
       @ (if skipped_header p n then [] else header_values (rq_Header rq) n))"
proof -
  have "header_values (set_credential p realKey (copy_headers p (rq_Header rq)
      (outbound_headers (rq_Header rq)))) n = (if n = credential_header p then [credential_value p realKey]
     else passed_values (rq_Header rq) n
       @ (if skipped_header p n then [] else header_values (rq_Header rq) n))"
    by (simp add: header_values_credential header_values_copy [OF assms(1)] header_values_outbound)
  then show ?thesis
    using assms(2)
    by (cases "rq_Body rq" rule: read_all.cases)
       (auto simp: Rewrite_def Let_def header_values_body body_header_names_def split: option.split)
qed

section \<open>Presenting a key\<close>

lemma auth_header_plain:
  "pc_APIKeyPrefix p = [] \<Longrightarrow> auth_header_key (Some p) = (''Authorization'', False)"
  by (simp add: auth_header_key_def)

lemma fields_bearer:
  assumes "list_all visible k" "k \<noteq> []"
  shows "string_fields (''Bearer '' @ k) = [''Bearer'', k]"
proof -
  have "string_fields (''Bearer'' @ CHR '' '' # k) = [''Bearer'', k]"
    by (rule fields_two) (use assms in \<open>simp_all add: visible_def\<close>)
  then show ?thesis by simp
qed

text \<open>The header a client sends for a key: the bearer scheme, or the custom header of the provider.\<close>

lemma presented_bearer:
  assumes "auth_header_key prov = (''Authorization'', False)" "list_all visible k" "k \<noteq> []"
    and "header_get h ''Authorization'' = ''Bearer '' @ k"
  shows "presented_key prov h = Inr k"
proof -
  have "equal_fold ''Bearer'' ''bearer''"
    by code_simp
  moreover have "string_fields (header_get h ''Authorization'') = [''Bearer'', k]"
    unfolding assms(4) by (rule fields_bearer [OF assms(2,3)])
  ultimately show ?thesis by (simp add: presented_key_def assms(1))
qed

lemma presented_custom:
  assumes "auth_header_key prov = (H, True)" "list_all visible k" "k \<noteq> []" "header_get h H = k"
  shows "presented_key prov h = Inr k"
  by (simp add: presented_key_def assms fields_visible)

lemma visible_internal_key: "list_all visible (internal_key_of bytes)" "internal_key_of bytes \<noteq> []"
  using visible_hex_encode [of bytes] by (simp_all add: internal_key_of_def visible_def)

section \<open>The answer of a known provider\<close>

definition body_failed :: "response \<Rightarrow> bool" where
  "body_failed res \<longleftrightarrow> snd (read_all (rs_Body res)) \<noteq> None"

definition response_counts :: "gjson \<Rightarrow> provider_config \<Rightarrow> bool \<Rightarrow> string \<Rightarrow> token_counts" where
  "response_counts gj p isStreaming bytes =
     (if isStreaming then ParseStreamReader gj bytes p
      else (case ParseStandardJSON gj bytes p of None \<Rightarrow> (0, 0) | Some c \<Rightarrow> c))"

text \<open>The text whose tokens are counted: of a stream, what the client's copy has read.\<close>

definition counted_text :: "stream_timing \<Rightarrow> bool \<Rightarrow> response \<Rightarrow> string" where
  "counted_text tm isStreaming res =
     (if isStreaming then take (tm_copied tm) (fst (read_all (rs_Body res)))
      else fst (read_all (rs_Body res)))"

lemma ModifyResponse_known:
  assumes "pc_Usage p \<noteq> None"
  obtains res' where "ModifyResponse gj p cx routePath now tm isStreaming res =
      Some (res', if rs_Status res \<noteq> 200 \<or> \<not> isStreaming \<and> body_failed res then None
        else Some (make_record cx routePath now
          (response_counts gj p isStreaming (counted_text tm isStreaming res))))"
    "rs_Status res' = rs_Status res" "rs_Header res' = rs_Header res"
proof (cases "rs_Status res = 200")
  case False
  then show ?thesis by (intro that) (simp_all add: ModifyResponse_def StatusOK_def)
next
  case True
  obtain u where u: "pc_Usage p = Some u" using assms by auto
  obtain bytes err where body: "read_all (rs_Body res) = (bytes, err)" by fastforce
  show ?thesis
  proof (cases isStreaming)
    case str: True
    obtain seen where tee: "tee_stream p tm bytes err = (take (tm_copied tm) bytes, seen)"
      by (simp add: tee_stream_def Let_def)
    show ?thesis
      by (rule that [of "res\<lparr>rs_Body := seen\<rparr>"])
         (simp_all add: ModifyResponse_def StatusOK_def True str body response_counts_def
           tee counted_text_def)
  next
    case one: False
    show ?thesis
    proof (cases err)
      case None
      show ?thesis
        by (rule that [of "res\<lparr>rs_Body := BodyStream bytes None\<rparr>"])
           (simp_all add: ModifyResponse_def StatusOK_def True one body response_counts_def
             body_failed_def None ParseStandardJSON_def u counted_text_def)
    next
      case (Some e)
      show ?thesis
        by (rule that [of "res\<lparr>rs_Body := BodyStream [] (Some e)\<rparr>"])
           (simp_all add: ModifyResponse_def StatusOK_def True one body body_failed_def Some)
    qed
  qed
qed

lemma end_to_end_sel [simp]:
  "rs_Status (end_to_end res) = rs_Status res" "rs_Body (end_to_end res) = rs_Body res"
  by (simp_all add: end_to_end_def)

lemma ModifyResponse_status:
  "ModifyResponse gj p cx path now tm str res = Some (res', rec) \<Longrightarrow> rs_Status res' = rs_Status res"
  by (auto simp: ModifyResponse_def split: if_splits prod.splits option.splits)

lemma ModifyResponse_switching:
  "rs_Status res = StatusSwitchingProtocols \<Longrightarrow>
    ModifyResponse gj p cx path now tm str (end_to_end res) = Some (res, None)"
  by (simp add: ModifyResponse_def end_to_end_def StatusOK_def StatusSwitchingProtocols_def)

text \<open>The branches of the handler by the status of the answer.\<close>

lemma handleReverseProxy_branches:
  "handleReverseProxy gj sj cfg r upstream now tm cx rq =
    (case map_of (cfg_Providers cfg) (rc_Provider (pr_routeCfg r)) of
       None \<Rightarrow> Panicked
     | Some p \<Rightarrow>
         if \<not> printable_name (upgrade_type (rq_Header rq))
         then BadGateway None (ClientProtocol (upgrade_type (rq_Header rq)))
         else
           (let (out, str) = Rewrite gj sj p (pr_target r) (cx_realKey cx) rq
            in case upstream out of
                 Inl err \<Rightarrow> BadGateway (Some out) (TransportFault err)
               | Inr res \<Rightarrow>
                   if rs_Status res = StatusSwitchingProtocols then
                     (case upgrade_fault (o_Header out) (rs_Header res) of
                        Some err \<Rightarrow> BadGateway (Some out) err
                      | None \<Rightarrow> Forwarded out res None)
                   else (case ModifyResponse gj p cx (pr_routePath r) now tm str (end_to_end res) of
                        None \<Rightarrow> Panicked
                      | Some (res', rec) \<Rightarrow> Forwarded out res' rec)))"
  unfolding handleReverseProxy_def
  by (auto simp: ModifyResponse_switching dest: ModifyResponse_status
      split: option.split sum.split prod.split)

lemma handleReverseProxy_not_panicked:
  assumes "map_of (cfg_Providers cfg) (rc_Provider (pr_routeCfg r)) = Some p" "pc_Usage p \<noteq> None"
  shows "handleReverseProxy gj sj cfg r upstream now tm cx rq \<noteq> Panicked"
proof -
  obtain out str where rw: "Rewrite gj sj p (pr_target r) (cx_realKey cx) rq = (out, str)"
    by fastforce
  show ?thesis
  proof (cases "upstream out")
    case (Inr res)
    obtain res' rec where
      "ModifyResponse gj p cx (pr_routePath r) now tm str (end_to_end res) = Some (res', rec)"
      using ModifyResponse_known [OF assms(2)] by metis
    then show ?thesis by (simp add: handleReverseProxy_def assms(1) rw Inr split: option.split)
  qed (simp add: handleReverseProxy_def assms(1) rw)
qed

lemma handleReverseProxy_forwards:
  assumes "map_of (cfg_Providers cfg) (rc_Provider (pr_routeCfg r)) = Some p" "pc_Usage p \<noteq> None"
    and "\<And>out. \<exists>res. upstream out = Inr res \<and> rs_Status res \<noteq> 101"
    and "printable_name (upgrade_type (rq_Header rq))"
  shows "\<exists>out res rec. handleReverseProxy gj sj cfg r upstream now tm cx rq = Forwarded out res rec"
proof -
  obtain out str where rw: "Rewrite gj sj p (pr_target r) (cx_realKey cx) rq = (out, str)"
    by fastforce
  obtain res where up: "upstream out = Inr res" "rs_Status res \<noteq> 101" using assms(3) by blast
  obtain res' rec where
    "ModifyResponse gj p cx (pr_routePath r) now tm str (end_to_end res) = Some (res', rec)"
    "rs_Status res' = rs_Status res"
    using ModifyResponse_known [OF assms(2)] by (metis end_to_end_sel(1))
  then show ?thesis
    using up assms(4)
    by (simp add: handleReverseProxy_def assms(1) rw StatusSwitchingProtocols_def)
qed

lemma handleReverseProxy_forwarded:
  assumes "map_of (cfg_Providers cfg) (rc_Provider (pr_routeCfg r)) = Some p"
    and "handleReverseProxy gj sj cfg r upstream now tm cx rq = Forwarded out res' rec"
  obtains str res where "Rewrite gj sj p (pr_target r) (cx_realKey cx) rq = (out, str)"
    "upstream out = Inr res"
    "ModifyResponse gj p cx (pr_routePath r) now tm str (end_to_end res) = Some (res', rec)"
    "rs_Status res' = 101 \<longrightarrow> upgrade_fault (o_Header out) (rs_Header res') = None"
proof -
  obtain out' str where rw: "Rewrite gj sj p (pr_target r) (cx_realKey cx) rq = (out', str)"
    by fastforce
  note h = handleReverseProxy_branches [of gj sj cfg r upstream now tm cx rq,
    unfolded assms(1) option.case rw Let_def prod.case]
  show ?thesis
  proof (rule that)
    show "Rewrite gj sj p (pr_target r) (cx_realKey cx) rq = (out, str)"
      using assms(2) rw unfolding h
      by (auto split: if_splits sum.splits option.splits)
    then have "out' = out" using rw by simp
    then show "upstream out = Inr (projr (upstream out))"
      "ModifyResponse gj p cx (pr_routePath r) now tm str (end_to_end (projr (upstream out))) = Some (res', rec)"
      "rs_Status res' = 101 \<longrightarrow> upgrade_fault (o_Header out) (rs_Header res') = None"
      using assms(2) unfolding h
      by (auto simp: ModifyResponse_switching StatusSwitchingProtocols_def dest: ModifyResponse_status
          split: if_splits sum.splits option.splits)
  qed
qed

section \<open>Properties\<close>

text \<open>One route, one key and one request, for the instances here and in the root theory.\<close>

definition sample_route :: proxy_route where
  "sample_route = \<lparr>pr_routePath = ''/a'',
     pr_target = plain_url ''https'' ''api.x'' [],
     pr_routeCfg = \<lparr>rc_Provider = ''p'', rc_Quota = ''q''\<rparr>\<rparr>"

definition sample_request :: request where
  "sample_request = \<lparr>rq_Header = [(''Authorization'', [''Bearer '' @ internal_key_of ''xy''])],
     rq_Body = BodyStream ''{}'' None, rq_Query = [], rq_any = ''/v1'', rq_ClientIP = ''c'',
     rq_Start = sample_time\<rparr>"

definition sample_env :: quota_env where
  "sample_env = \<lparr>qe_engine = sample_engine, qe_gjson = sample_gjson, qe_fault = no_query_fault,
     qe_now = sample_time, qe_db = empty_db\<rparr>"

definition sample_sjson :: sjson where
  "sample_sjson = (\<lambda>body path v. (body, None))"

definition sample_upstream :: "out_request \<Rightarrow> string + response" where
  "sample_upstream out = Inr \<lparr>rs_Status = 200, rs_Header = [], rs_Body = BodyStream ''{}'' None\<rparr>"

lemma sample_setup: "setupRoutes sample_config = Inr [sample_route]"
proof -
  have "host_name ''api.x''"
    by (simp add: host_name_def unreserved_def ascii_alnum_def ascii_lower_letter_def)
  then have "url_Parse (''https'' @ ''://'' @ ''api.x'' @ [] @ []) = Inr (plain_url ''https'' (''api.x'' @ []) [])"
    by (intro url_Parse_plain)
       (simp_all add: ascii_lower_letter_def port_suffix_def plain_path_def)
  then have "buildTargetURL (cfg_BaseURI sample_config) (pc_Host sample_provider)
      = Inr (plain_url ''https'' ''api.x'' [])"
    by (simp add: buildTargetURL_def has_prefix_def sample_provider_def)
  then show ?thesis
    by (simp add: setupRoutes_def setup_route_def Let_def sample_route_def)
qed

lemma sample_routes_ok: "routes_ok sample_config"
  by (simp add: routes_ok_def has_prefix_def)

lemma sample_provider_of: "provider_of sample_config ''/a'' = Some sample_provider"
  by (simp add: provider_of_def)

lemma sample_authenticated:
  "authenticated id sample_config sample_store ''/a'' sample_request (internal_key_of ''xy'')
     sample_record"
proof -
  have "presented_key (Some sample_provider) (rq_Header sample_request) = Inr (internal_key_of ''xy'')"
    by (rule presented_bearer [OF auth_header_plain visible_internal_key])
       (simp_all add: sample_provider_def sample_request_def header_get_def header_values_def
         canonical_body_names)
  then show ?thesis
    by (simp add: authenticated_def sample_provider_of sample_records sample_record_def)
qed

lemma sample_allowed:
  "c_Allowed (quota_result sample_config sample_env ''/a'' sample_request k)"
proof -
  have "estimateInputTokens sample_gjson ''{}'' (Some sample_provider) = 1"
    by (simp add: estimateInputTokens_def sample_gjson_def sample_provider_def quot_int64_def)
  then show ?thesis
    by (simp add: quota_result_def ResolveQuota_def sample_env_def sample_request_def
        sample_provider_of QuotaCheck_def sample_quota_def check_window_def queryTokens_def
        no_query_fault_def query_table_def empty_db_def sql_sum_def scan_result_def scan_int64_def
        i64_gt_def)
qed

definition sample_timing :: stream_timing where
  "sample_timing = \<lparr>tm_copied = 2, tm_parsed = 0\<rparr>"

definition sample_outcome :: outcome where
  "sample_outcome = serve id sample_sjson sample_config sample_store sample_env sample_upstream
     sample_time sample_timing sample_route sample_request"

lemma sample_no_upgrade:
  "upgrade_type (rq_Header (checked_request sample_config path sample_request)) = []"
  by (simp add: upgrade_type_def contains_token_def header_values_def sample_request_def
      checked_request_def)

lemma sample_serve: "\<exists>out res rec. sample_outcome = Forwarded out res rec"
proof -
  have p: "map_of (cfg_Providers sample_config) (rc_Provider (pr_routeCfg sample_route))
      = Some sample_provider" and path: "pr_routePath sample_route = ''/a''"
    by (simp_all add: sample_route_def)
  have "''/a'' \<in> dom (map_of (cfg_Routes sample_config))" by simp
  from authInterceptor_ok [OF sample_ok sample_config_ok this sample_authenticated, of sample_env]
  have ic: "authInterceptor id sample_config sample_store sample_env ''/a'' sample_request
      = Inr (context_of sample_record (internal_key_of ''xy'') sample_request,
          checked_request sample_config ''/a'' sample_request)"
    using sample_allowed by simp
  have "pc_Usage sample_provider \<noteq> None" by (simp add: sample_provider_def)
  moreover have "\<exists>res. sample_upstream out = Inr res \<and> rs_Status res \<noteq> 101" for out
    by (simp add: sample_upstream_def)
  moreover have "printable_name (upgrade_type (rq_Header (checked_request sample_config ''/a'' sample_request)))"
    using sample_no_upgrade by (simp add: printable_name_def)
  ultimately show ?thesis
    using handleReverseProxy_forwards [OF p] by (simp add: sample_outcome_def serve_def path ic)
qed

text \<open>
  C2. The gate, for a validated configuration and a well-formed store: a request on a registered
  route is refused exactly when it presents no key that is registered for this very route, or when
  the quota of the route refuses it; the status is 401 in the first case and 429 in the second, and
  the quota is never consulted for a key that is not registered.
\<close>

theorem serve_gate:
  assumes "store_ok sha store" "config_ok cfg" "routes_ok cfg" "setupRoutes cfg = Inr rs"
    and "r \<in> set rs"
  shows "case serve sha sj cfg store env upstream now tm r rq of
      Denied d \<Rightarrow>
        deny_status d = 401 \<and> (\<nexists>k a. authenticated sha cfg store (pr_routePath r) rq k a)
        \<or> deny_status d = 429 \<and> (\<exists>k a. authenticated sha cfg store (pr_routePath r) rq k a
            \<and> \<not> c_Allowed (quota_result cfg env (pr_routePath r) rq k)
            \<and> d = QuotaExceeded (c_DenyReason (quota_result cfg env (pr_routePath r) rq k)))
    | _ \<Rightarrow> \<exists>k a. authenticated sha cfg store (pr_routePath r) rq k a
            \<and> c_Allowed (quota_result cfg env (pr_routePath r) rq k)"
proof (cases "\<exists>k a. authenticated sha cfg store (pr_routePath r) rq k a")
  case False
  from authInterceptor_denied [OF assms(1) False, of env] False show ?thesis
    by (auto simp: serve_def)
next
  case True
  then obtain k a where auth: "authenticated sha cfg store (pr_routePath r) rq k a" by blast
  have dom: "pr_routePath r \<in> dom (map_of (cfg_Routes cfg))"
    using registered_route [OF assms(4,5,3)] by blast
  note ic = authInterceptor_ok [OF assms(1,2) dom auth, of env]
  show ?thesis
  proof (cases "c_Allowed (quota_result cfg env (pr_routePath r) rq k)")
    case True
    with ic auth show ?thesis
      by (auto simp: serve_def handleReverseProxy_def Let_def
          split: option.splits sum.splits prod.splits outcome.split)
  next
    case False
    with ic auth show ?thesis by (auto simp: serve_def deny_status_def)
  qed
qed

lemma serve_gate_witness:
  "\<exists>k a. authenticated id sample_config sample_store ''/a'' sample_request k a
    \<and> c_Allowed (quota_result sample_config sample_env ''/a'' sample_request k)"
proof -
  have "pr_routePath sample_route = ''/a''" "sample_route \<in> set [sample_route]"
    by (simp_all add: sample_route_def)
  with serve_gate [OF sample_ok sample_config_ok sample_routes_ok sample_setup,
      where r = sample_route and sj = sample_sjson and env = sample_env
        and upstream = sample_upstream and now = sample_time and tm = sample_timing and rq = sample_request]
  show ?thesis using sample_serve by (auto simp: sample_outcome_def)
qed

text \<open>
  C21. No panic: with a configuration \<open>Parse\<close> accepts, no request on a registered route reaches the
  panic of \<open>handleReverseProxy\<close> on an unknown provider or the nil dereference of
  \<open>ParseStandardJSON\<close>, whatever the vendor answers.
\<close>

theorem serve_never_panics:
  assumes "Parse codec file = Inr cfg" "setupRoutes cfg = Inr rs" "r \<in> set rs"
  shows "serve sha sj cfg store env upstream now tm r rq \<noteq> Panicked"
proof -
  obtain p where "map_of (cfg_Providers cfg) (rc_Provider (pr_routeCfg r)) = Some p" "provider_ok p"
    using registered_provider [OF assms(2,3) Parse_routes_ok Parse_config_ok] assms(1) by metis
  then show ?thesis
    using handleReverseProxy_not_panicked
    by (auto simp: serve_def provider_ok_def split: sum.split prod.split)
qed

lemma serve_never_panics_witness:
  "serve id sample_sjson sample_config sample_store sample_env sample_upstream sample_time sample_timing
     sample_route sample_request \<noteq> Panicked"
  by (rule serve_never_panics [OF sample_Parse sample_setup]) simp


lemma sample_header_ok: "header_ok (rq_Header sample_request)"
  by (simp add: header_ok_def sample_request_def canonical_body_names)

lemma sample_credential: "credential_header sample_provider = ''Authorization''"
  by (simp add: credential_header_def sample_provider_def canonical_body_names)


text \<open>
  Duplication: a header of the client that no step treats (not removed by the reverse proxy, not
  skipped, not replaced) reaches the vendor with its list of values twice, and a hop-by-hop or
  forwarding header that the reverse proxy took off is put back as the client sent it.
\<close>

theorem Rewrite_duplicates_client_headers:
  assumes "header_ok (rq_Header rq)" "n \<notin> set body_header_names" "n \<noteq> credential_header p"
    and "\<not> skipped_header p n" "n \<notin> {''Connection'', ''Upgrade'', ''Te''}"
  shows "header_values (o_Header (fst (Rewrite gj sj p target realKey rq))) n
    = (if n \<in> removed_names (rq_Header rq) then header_values (rq_Header rq) n
       else header_values (rq_Header rq) n @ header_values (rq_Header rq) n)"
  using Rewrite_header_values [OF assms(1,2)] assms(3-5) by (simp add: passed_values_def)

definition trace_request :: request where
  "trace_request = sample_request\<lparr>rq_Header := [(''Accept'', [''x'']), (''Keep-Alive'', [''y''])]\<rparr>"

lemma Rewrite_duplicates_client_headers_witness:
  "header_values (o_Header (fst (Rewrite sample_gjson sample_sjson sample_provider
     (pr_target sample_route) ''real'' trace_request))) ''Keep-Alive'' = [''y'']"
proof -
  have "canonical_header ''Accept'' = ''Accept''" "canonical_header ''Keep-Alive'' = ''Keep-Alive''"
    by (simp_all add: canonical_header_def header_token_char_def ascii_upper_letter_def
        ascii_lower_letter_def ascii_upper_def ascii_lower_def)
  then have ok: "header_ok (rq_Header trace_request)"
    and "''Keep-Alive'' \<in> removed_names (rq_Header trace_request)"
    by (simp_all add: header_ok_def trace_request_def removed_names_def hop_headers_def)
  moreover have "\<not> skipped_header sample_provider ''Keep-Alive''"
    by (simp add: skipped_header_def equal_fold_def sample_provider_def)
  moreover have "header_values (rq_Header trace_request) ''Keep-Alive'' = [''y'']"
    by (simp add: header_values_def trace_request_def)
  ultimately show ?thesis
    using Rewrite_duplicates_client_headers [OF ok, of "''Keep-Alive''" sample_provider sample_gjson
        sample_sjson "pr_target sample_route" "''real''"]
    by (simp add: sample_credential body_header_names_def)
qed

section \<open>Protocol upgrades\<close>

lemma token_upgrade: "contains_token (''Upgrade'' # vs) ''Upgrade''"
  by (simp add: contains_token_def token_equal_def trim_ows_def equal_fold_def)

text \<open>The rewritten request asks for the protocol the client asked for.\<close>

lemma upgrade_type_Rewrite:
  assumes "header_ok (rq_Header rq)" "credential_header p \<notin> {''Connection'', ''Upgrade''}"
    and "\<not> skipped_header p ''Connection''" "\<not> skipped_header p ''Upgrade''"
  shows "upgrade_type (o_Header (fst (Rewrite gj sj p target realKey rq))) = upgrade_type (rq_Header rq)"
proof -
  let ?h = "rq_Header rq" and ?o = "o_Header (fst (Rewrite gj sj p target realKey rq))"
  have con: "header_values ?o ''Connection'' = passed_values ?h ''Connection'' @ header_values ?h ''Connection''"
    using Rewrite_header_values [OF assms(1), of "''Connection''"] assms(2,3)
    by (auto simp: body_header_names_def)
  have up: "header_values ?o ''Upgrade'' = passed_values ?h ''Upgrade'' @ header_values ?h ''Upgrade''"
    using Rewrite_header_values [OF assms(1), of "''Upgrade''"] assms(2,4)
    by (auto simp: body_header_names_def)
  show ?thesis
  proof (cases "upgrade_type ?h = []")
    case False
    then show ?thesis
      using con up token_upgrade
      by (simp add: upgrade_type_def header_get_def canonical_hop_names passed_values_def)
  next
    case True
    moreover have "''Connection'' \<in> removed_names ?h" "''Upgrade'' \<in> removed_names ?h"
      by (auto simp: removed_names_def hop_headers_def canonical_hop_names intro!: image_eqI)
    ultimately show ?thesis
      using con up by (simp add: upgrade_type_def header_get_def canonical_hop_names passed_values_def
          split: if_splits)
  qed
qed


definition upgrade_headers :: http_header where
  "upgrade_headers = [(''Connection'', [''keep-alive, upgrade'']), (''Upgrade'', [''websocket''])]"

definition websocket_response :: response where
  "websocket_response = \<lparr>rs_Status = 101, rs_Header = upgrade_headers, rs_Body = BodyStream ''frames'' None\<rparr>"


text \<open>
  The body for the vendor: a readable body arrives complete and unchanged unless it asks for
  streaming, in which case the vendor options are merged into it; its length is announced exactly,
  in the request and in the header, the content type is JSON and no encoding is accepted, so that
  the answer can be parsed.
\<close>

theorem Rewrite_body:
  assumes "rq_Body rq = BodyStream bytes None"
  shows "\<exists>out body. Rewrite gj sj p target realKey rq = (out, is_streaming gj bytes)
    \<and> o_Body out = BodyStream body None \<and> o_ContentLength out = Some (int (length body))
    \<and> header_values (o_Header out) ''Content-Length'' = [show_int (int (length body))]
    \<and> header_values (o_Header out) ''Content-Type'' = [''application/json'']
    \<and> header_values (o_Header out) ''Accept-Encoding'' = []
    \<and> o_Host out = url_Host target \<and> header_values (o_Header out) ''Host'' = [url_Host target]
    \<and> (\<not> is_streaming gj bytes \<longrightarrow> body = bytes)
    \<and> (is_streaming gj bytes \<longrightarrow> (\<forall>s. pc_Streaming p = Some s \<longrightarrow>
         body = merge_options sj (sc_RequestOption s) bytes))"
proof -
  have "out_body gj sj p bytes = merge_options sj (sc_RequestOption s) bytes"
    if "is_streaming gj bytes" "pc_Streaming p = Some s" for s
    using that by (simp add: out_body_def executeMergeOptionsInline_def is_streaming_def)
  moreover have "out_body gj sj p bytes = bytes" if "\<not> is_streaming gj bytes"
    using that by (simp add: out_body_def split: option.split)
  ultimately show ?thesis
    by (simp add: Rewrite_def assms Let_def header_values_body)
qed

lemma Rewrite_body_witness:
  "\<exists>out. Rewrite length_gjson sample_sjson sample_provider (pr_target sample_route) ''real''
      sample_request = (out, False) \<and> o_Body out = BodyStream ''{}'' None"
  using Rewrite_body [of sample_request "''{}''" length_gjson sample_sjson sample_provider
      "pr_target sample_route" "''real''"]
  by (auto simp: sample_request_def is_streaming_def length_gjson_def)

lemma serve_forwarded:
  assumes "store_ok sha store" "config_ok cfg" "routes_ok cfg" "setupRoutes cfg = Inr rs"
    and "r \<in> set rs" and "serve sha sj cfg store env upstream now tm r rq = Forwarded out res' rec"
  obtains k a p res str where "authenticated sha cfg store (pr_routePath r) rq k a"
    "provider_of cfg (pr_routePath r) = Some p" "pc_Usage p \<noteq> None"
    "Rewrite (qe_gjson env) sj p (pr_target r) (kr_RealKey a)
        (checked_request cfg (pr_routePath r) rq) = (out, str)"
    "upstream out = Inr res"
    "ModifyResponse (qe_gjson env) p (context_of a k rq) (pr_routePath r) now tm str (end_to_end res)
        = Some (res', rec)"
proof -
  obtain p where p: "map_of (cfg_Providers cfg) (rc_Provider (pr_routeCfg r)) = Some p"
      "provider_of cfg (pr_routePath r) = Some p" "provider_ok p"
    using registered_provider [OF assms(4,5,3,2)] by blast
  have dom: "pr_routePath r \<in> dom (map_of (cfg_Routes cfg))"
    using registered_route [OF assms(4,5,3)] by blast
  have "\<exists>k a. authenticated sha cfg store (pr_routePath r) rq k a"
    using authInterceptor_denied [OF assms(1), of cfg "pr_routePath r" rq env] assms(6)
    by (fastforce simp: serve_def)
  then obtain k a where auth: "authenticated sha cfg store (pr_routePath r) rq k a" by blast
  with authInterceptor_ok [OF assms(1,2) dom auth, of env] assms(6)
  have "handleReverseProxy (qe_gjson env) sj cfg r upstream now tm (context_of a k rq)
      (checked_request cfg (pr_routePath r) rq) = Forwarded out res' rec"
    by (simp add: serve_def split: if_splits)
  then obtain str res where "Rewrite (qe_gjson env) sj p (pr_target r)
        (cx_realKey (context_of a k rq)) (checked_request cfg (pr_routePath r) rq) = (out, str)"
    "upstream out = Inr res"
    "ModifyResponse (qe_gjson env) p (context_of a k rq) (pr_routePath r) now tm str (end_to_end res)
        = Some (res', rec)"
    by (rule handleReverseProxy_forwarded [OF p(1)])
  moreover have "pc_Usage p \<noteq> None" using p(3) by (auto simp: provider_ok_def)
  ultimately show ?thesis using that auth p(2) by (simp add: context_of_def)
qed

lemma ModifyResponse_record:
  assumes "pc_Usage p \<noteq> None"
    and "ModifyResponse gj p cx routePath now tm str res = Some (res', rec)"
  shows "rs_Status res' = rs_Status res" "rs_Header res' = rs_Header res"
    "rec = (if rs_Status res \<noteq> 200 \<or> \<not> str \<and> body_failed res then None
      else Some (make_record cx routePath now (response_counts gj p str (counted_text tm str res))))"
proof -
  obtain res2 where "ModifyResponse gj p cx routePath now tm str res
      = Some (res2, if rs_Status res \<noteq> 200 \<or> \<not> str \<and> body_failed res then None
        else Some (make_record cx routePath now (response_counts gj p str (counted_text tm str res))))"
      "rs_Status res2 = rs_Status res" "rs_Header res2 = rs_Header res"
    by (rule ModifyResponse_known [OF assms(1)])
  with assms(2) show "rs_Status res' = rs_Status res" "rs_Header res' = rs_Header res"
    "rec = (if rs_Status res \<noteq> 200 \<or> \<not> str \<and> body_failed res then None
      else Some (make_record cx routePath now (response_counts gj p str (counted_text tm str res))))"
    by simp_all
qed

text \<open>
  C18. Billing: a forwarded request produces at most one usage record, and exactly one when the vendor
  answered 200 and, for a one-shot answer, its body could be read. The record is charged to the key
  that was authenticated, to the route and to the client's address, its total is the (wrapping) sum
  of its two counts, taken from the text the client's copy has read. The status stays as it came, and
  so do the headers but for the hop-by-hop ones.
\<close>

theorem serve_bills_once:
  assumes "store_ok sha store" "config_ok cfg" "routes_ok cfg" "setupRoutes cfg = Inr rs"
    and "r \<in> set rs" and "serve sha sj cfg store env upstream now tm r rq = Forwarded out res' rec"
  shows "\<exists>k a p res str. authenticated sha cfg store (pr_routePath r) rq k a
    \<and> provider_of cfg (pr_routePath r) = Some p
    \<and> Rewrite (qe_gjson env) sj p (pr_target r) (kr_RealKey a)
        (checked_request cfg (pr_routePath r) rq) = (out, str)
    \<and> upstream out = Inr res \<and> rs_Status res' = rs_Status res \<and> rs_Header res' = rs_Header (end_to_end res)
    \<and> (rec \<noteq> None \<longleftrightarrow> rs_Status res = 200 \<and> (str \<or> \<not> body_failed res))
    \<and> (\<forall>u. rec = Some u \<longrightarrow> r_LocalKey u = k \<and> r_RoutePath u = pr_routePath r
        \<and> r_ClientIP u = rq_ClientIP rq \<and> r_CreatedAt u = now
        \<and> r_TotalTokens u = r_PromptTokens u + r_CompletionTokens u
        \<and> (r_PromptTokens u, r_CompletionTokens u)
            = response_counts (qe_gjson env) p str (counted_text tm str res))"
proof -
  obtain k a p res str where auth: "authenticated sha cfg store (pr_routePath r) rq k a"
      and p: "provider_of cfg (pr_routePath r) = Some p" "pc_Usage p \<noteq> None"
      and rw: "Rewrite (qe_gjson env) sj p (pr_target r) (kr_RealKey a)
        (checked_request cfg (pr_routePath r) rq) = (out, str)"
      and res: "upstream out = Inr res"
      and mr: "ModifyResponse (qe_gjson env) p (context_of a k rq) (pr_routePath r) now tm str
        (end_to_end res) = Some (res', rec)"
    by (rule serve_forwarded [OF assms])
  note rec = ModifyResponse_record [OF p(2) mr]
  have same: "body_failed (end_to_end res) = body_failed res"
      "counted_text tm str (end_to_end res) = counted_text tm str res"
    by (simp_all add: body_failed_def counted_text_def)
  have some: "rec \<noteq> None \<longleftrightarrow> rs_Status res = 200 \<and> (str \<or> \<not> body_failed res)"
    using rec(3) by (simp add: same del: not_None_eq)
  have status: "rs_Status res' = rs_Status res" using rec(1) by simp
  have billed: "r_LocalKey u = k \<and> r_RoutePath u = pr_routePath r \<and> r_ClientIP u = rq_ClientIP rq
      \<and> r_CreatedAt u = now \<and> r_TotalTokens u = r_PromptTokens u + r_CompletionTokens u
      \<and> (r_PromptTokens u, r_CompletionTokens u)
          = response_counts (qe_gjson env) p str (counted_text tm str res)"
    if "rec = Some u" for u
    using that rec(3) by (auto simp: make_record_sel context_of_def same split: if_splits)
  show ?thesis
    by (rule exI [of _ k], rule exI [of _ a], rule exI [of _ p], rule exI [of _ res],
        rule exI [of _ str])
       (intro conjI auth p(1) res rw rec(2) status some allI impI billed)
qed

lemma serve_bills_once_witness:
  "\<exists>out res rec. sample_outcome = Forwarded out res rec
    \<and> (\<forall>u. rec = Some u \<longrightarrow> r_RoutePath u = ''/a'' \<and> r_ClientIP u = ''c'')"
proof -
  obtain out res rec where o: "sample_outcome = Forwarded out res rec" using sample_serve by blast
  have "sample_route \<in> set [sample_route]" by simp
  from serve_bills_once [OF sample_ok sample_config_ok sample_routes_ok sample_setup this
      o [unfolded sample_outcome_def]]
  have "\<forall>u. rec = Some u \<longrightarrow> r_RoutePath u = pr_routePath sample_route
      \<and> r_ClientIP u = rq_ClientIP sample_request"
    by blast
  then have "\<forall>u. rec = Some u \<longrightarrow> r_RoutePath u = ''/a'' \<and> r_ClientIP u = ''c''"
    by (simp add: sample_route_def sample_request_def)
  with o show ?thesis by blast
qed

section \<open>Streams\<close>

lemma parser_reads_valid:
  "pc_Streaming p = Some s \<Longrightarrow> streaming_ok s \<Longrightarrow> parser_reads p"
  by (auto simp: parser_reads_def streaming_ok_def)

lemma ModifyResponse_stream:
  assumes "rs_Status res = 200" "read_all (rs_Body res) = (bytes, err)"
  shows "ModifyResponse gj p cx routePath now tm True res =
    Some (res\<lparr>rs_Body := snd (tee_stream p tm bytes err)\<rparr>,
      Some (make_record cx routePath now (ParseStreamReader gj (take (tm_copied tm) bytes) p)))"
  using assms by (simp add: ModifyResponse_def StatusOK_def tee_stream_def Let_def)

text \<open>
  C26. Delivery of a stream, for a provider with a validated streaming block: the client never gets
  anything but a prefix of the vendor's stream. A stream whose lines all fit the parser's buffer
  arrives complete, with the vendor's own end, when the client takes all of it; when a line does not
  fit, the client's copy fails at the first byte the parser did not take. What is counted is what the
  copy has read.
\<close>

theorem stream_delivery:
  assumes "pc_Streaming p = Some s" "streaming_ok s" "rs_Status res = 200"
    and "read_all (rs_Body res) = (bytes, err)"
  shows "\<exists>seen. ModifyResponse gj p cx routePath now tm True res =
      Some (res\<lparr>rs_Body := seen\<rparr>,
        Some (make_record cx routePath now (ParseStreamReader gj (take (tm_copied tm) bytes) p)))
    \<and> prefix (fst (read_all seen)) bytes
    \<and> (length bytes \<le> tm_copied tm \<longrightarrow> \<not> snd (scan_lines bytes) \<longrightarrow> read_all seen = (bytes, err))
    \<and> (length bytes \<le> tm_copied tm \<longrightarrow> snd (scan_lines bytes) \<longrightarrow> tm_parsed tm < length bytes \<longrightarrow>
        read_all seen = (take (tm_parsed tm) bytes, Some ''io: read/write on closed pipe''))"
  by (rule exI [of _ "snd (tee_stream p tm bytes err)"])
     (simp add: ModifyResponse_stream [OF assms(3,4)] tee_stream_def
       parser_reads_valid [OF assms(1,2)] Let_def take_is_prefix)

definition stream_response :: "string \<Rightarrow> response" where
  "stream_response text = \<lparr>rs_Status = 200, rs_Header = [], rs_Body = BodyStream text None\<rparr>"

lemma stream_delivery_witness:
  "\<exists>res u. ModifyResponse length_gjson sample_provider (context_of sample_record (internal_key_of ''xy'') sample_request) ''/a''
      sample_time \<lparr>tm_copied = length (sse_stream sample_payloads), tm_parsed = 0\<rparr> True
      (stream_response (sse_stream sample_payloads)) = Some (res, Some u)
    \<and> read_all (rs_Body res) = (sse_stream sample_payloads, None)"
proof -
  have s: "pc_Streaming sample_provider = Some (the (pc_Streaming sample_provider))"
    "streaming_ok (the (pc_Streaming sample_provider))"
    by (simp_all add: sample_provider_def streaming_ok_def)
  have fits: "\<not> snd (scan_lines (sse_stream sample_payloads))"
    using sse_stream_payloads(2) [OF sample_sse] by simp
  from stream_delivery [OF s, of "stream_response (sse_stream sample_payloads)"
      "sse_stream sample_payloads" None length_gjson "context_of sample_record (internal_key_of ''xy'') sample_request" "''/a''"
      sample_time "\<lparr>tm_copied = length (sse_stream sample_payloads), tm_parsed = 0\<rparr>"]
  show ?thesis using fits by (auto simp: stream_response_def)
qed

text \<open>
  An abandoned stream is charged for what it had shown: a client that gives up after some lines of
  a stream is billed as if the stream had ended there. In \<open>last\<close> mode, where vendors put the counts
  in the final event, giving up before it makes the whole answer free.
\<close>

theorem abandoned_stream_counts:
  assumes "rs_Status res = 200" "read_all (rs_Body res) = (text_of_lines ls @ rest, err)"
    and "tm_copied tm = length (text_of_lines ls)"
    and "pc_Streaming p = Some s" "streaming_ok s" "sc_Mode s = ''last''"
    and "\<forall>j \<in> set (payloads (text_of_lines ls)).
      \<not> g_Exists (gj j (sc_InputTokens s)) \<and> \<not> g_Exists (gj j (sc_OutputTokens s))"
  shows "\<exists>res' u. ModifyResponse gj p cx routePath now tm True res = Some (res', Some u)
    \<and> r_PromptTokens u = 0 \<and> r_CompletionTokens u = 0 \<and> r_TotalTokens u = 0"
proof -
  have none: "sc_Input s = None" using assms(5,6) by (auto simp: streaming_ok_def)
  have "ParseStreamReader gj (text_of_lines ls) p = (0, 0)"
    using assms(7) by (simp add: ParseStreamReader_values [OF assms(4,5)] none last_value_def)
  then show ?thesis
    by (simp add: ModifyResponse_stream [OF assms(1,2)] assms(3) make_record_sel)
qed

lemma abandoned_stream_counts_witness:
  "\<exists>res u. ModifyResponse length_gjson sample_provider (context_of sample_record (internal_key_of ''xy'') sample_request) ''/a''
      sample_time \<lparr>tm_copied = length (text_of_lines (sse_event ''{1}'')), tm_parsed = 0\<rparr> True
      (stream_response (text_of_lines (sse_event ''{1}'') @ ''data: {2}'')) = Some (res, Some u)
    \<and> r_TotalTokens u = 0"
proof -
  have s: "pc_Streaming sample_provider = Some (the (pc_Streaming sample_provider))"
    "streaming_ok (the (pc_Streaming sample_provider))"
    "sc_Mode (the (pc_Streaming sample_provider)) = ''last''"
    by (simp_all add: sample_provider_def streaming_ok_def)
  have "payloads (text_of_lines (sse_event ''{1}'')) = [''{1}'']"
    by (rule payloads_event) (use sample_sse in \<open>simp add: sample_payloads_def\<close>)
  then have none: "\<forall>j \<in> set (payloads (text_of_lines (sse_event ''{1}''))).
      \<not> g_Exists (length_gjson j (sc_InputTokens (the (pc_Streaming sample_provider))))
      \<and> \<not> g_Exists (length_gjson j (sc_OutputTokens (the (pc_Streaming sample_provider))))"
    by (simp add: length_gjson_def)
  from abandoned_stream_counts [OF _ _ _ s none, of
      "stream_response (text_of_lines (sse_event ''{1}'') @ ''data: {2}'')" "''data: {2}''" None
      "\<lparr>tm_copied = length (text_of_lines (sse_event ''{1}'')), tm_parsed = 0\<rparr>"]
  show ?thesis by (fastforce simp: stream_response_def)
qed

section \<open>Targets\<close>

definition scheme_of_base :: "string \<Rightarrow> string" where
  "scheme_of_base baseURI = (if has_prefix baseURI ''http://'' then ''http'' else ''https'')"

lemma buildTargetURL_plain:
  assumes "host_name h" "port_suffix p" "plain_path path"
  shows "buildTargetURL baseURI (''https://'' @ h @ p @ path) = Inr (plain_url ''https'' (h @ p) path)"
    and "buildTargetURL baseURI (''http://'' @ h @ p @ path) = Inr (plain_url ''http'' (h @ p) path)"
    and "buildTargetURL baseURI (h @ p @ path) = Inr (plain_url (scheme_of_base baseURI) (h @ p) path)"
proof -
  have parse: "url_Parse (scheme @ ''://'' @ h @ p @ path) = Inr (plain_url scheme (h @ p) path)"
    if "scheme = ''https'' \<or> scheme = ''http''" for scheme
    using that by (intro url_Parse_plain assms) (auto simp: ascii_lower_letter_def)
  note parse = parse [of "''https''"] parse [of "''http''"]
  have "\<not> has_prefix (h @ p @ path) (s @ ''://'')" for s
    using no_scheme_in_host [OF assms] by (auto simp: has_prefix_iff contains_at_iff)
  from this [of "''http''"] this [of "''https''"]
  have none: "\<not> has_prefix (h @ p @ path) ''http://''" "\<not> has_prefix (h @ p @ path) ''https://''"
    by simp_all
  have pre: "has_prefix (''https://'' @ h @ p @ path) ''https://''"
    "has_prefix (''http://'' @ h @ p @ path) ''http://''"
    by (rule has_prefix_append)+
  show "buildTargetURL baseURI (''https://'' @ h @ p @ path) = Inr (plain_url ''https'' (h @ p) path)"
    using pre(1) parse(1) by (simp add: buildTargetURL_def)
  show "buildTargetURL baseURI (''http://'' @ h @ p @ path) = Inr (plain_url ''http'' (h @ p) path)"
    using pre(2) parse(2) by (simp add: buildTargetURL_def)
  show "buildTargetURL baseURI (h @ p @ path) = Inr (plain_url (scheme_of_base baseURI) (h @ p) path)"
    using none parse by (simp add: buildTargetURL_def scheme_of_base_def)
qed

text \<open>A provider whose host is a name, with or without scheme, port and path.\<close>

definition plain_provider_host :: "string \<Rightarrow> bool" where
  "plain_provider_host host \<longleftrightarrow> (\<exists>pre h p path. host = pre @ h @ p @ path
     \<and> pre \<in> {[], ''https://'', ''http://''} \<and> host_name h \<and> port_suffix p \<and> plain_path path)"

text \<open>
  Where requests go: for a provider whose host is a name, an optional port and an optional path,
  the route is registered, and the target has the host as written, with the scheme as written or else
  the one of the gateway's own base URI. A path in the provider's host never reaches the vendor: the
  path of every rewritten request is what the wildcard of the route matched.
\<close>

theorem target_of_provider:
  assumes "host_name h" "port_suffix p" "plain_path path"
  shows "buildTargetURL baseURI (''https://'' @ h @ p @ path) = Inr (plain_url ''https'' (h @ p) path)
    \<and> buildTargetURL baseURI (''http://'' @ h @ p @ path) = Inr (plain_url ''http'' (h @ p) path)
    \<and> buildTargetURL baseURI (h @ p @ path) = Inr (plain_url (scheme_of_base baseURI) (h @ p) path)
    \<and> o_URL (fst (Rewrite gj sj prov (plain_url scheme (h @ p) path) realKey rq))
      = plain_url scheme (h @ p) (if rq_any rq = [] then ''/'' else rq_any rq)\<lparr>url_RawQuery := rq_Query rq\<rparr>"
  using buildTargetURL_plain [OF assms]
  by (cases "rq_Body rq" rule: read_all.cases)
     (simp_all add: Rewrite_def Let_def out_url_def plain_url_def zero_url_def join_query_def
       split: option.split)

lemma target_of_provider_witness:
  "buildTargetURL ''http://gw'' ''api.x:8/v1'' = Inr (plain_url ''http'' ''api.x:8'' ''/v1'')"
proof -
  have "scheme_of_base ''http://gw'' = ''http''" by (simp add: scheme_of_base_def has_prefix_def)
  then show ?thesis
    using target_of_provider [of "''api.x''" "'':8''" "''/v1''" "''http://gw''"]
    by (simp add: host_name_def port_suffix_def plain_path_def unreserved_def ascii_alnum_def
        ascii_lower_letter_def ascii_digit_def)
qed

text \<open>
  With such provider hosts the gateway starts: \<open>setupRoutes\<close> registers every route of a validated
  configuration, each with the target of its provider.
\<close>

theorem plain_hosts_register:
  assumes "config_ok cfg" "routes_ok cfg"
    and "\<forall>p \<in> snd ` set (cfg_Providers cfg). plain_provider_host (pc_Host p)"
  shows "\<exists>rs. setupRoutes cfg = Inr rs
    \<and> map (\<lambda>r. (pr_routePath r, pr_routeCfg r)) rs = cfg_Routes cfg"
proof -
  have "\<exists>r. setup_route cfg (path, route) = Inr r" if mem: "(path, route) \<in> set (cfg_Routes cfg)" for path route
  proof -
    have "gmap_ok (cfg_Routes cfg)" using assms(2) unfolding routes_ok_def by blast
    from gmap_mem_iff [OF this] mem have "map_of (cfg_Routes cfg) path = Some route" by blast
    from config_ok_route [OF assms(1) this] obtain p where
      p: "map_of (cfg_Providers cfg) (rc_Provider route) = Some p"
      by (auto simp: route_ok_def)
    then have "plain_provider_host (pc_Host p)" using assms(3) by (force dest: map_of_SomeD)
    then obtain pre h q s where host: "pc_Host p = pre @ h @ q @ s"
        "pre \<in> {[], ''https://'', ''http://''}" "host_name h" "port_suffix q" "plain_path s"
      unfolding plain_provider_host_def by blast
    have "\<exists>u. buildTargetURL (cfg_BaseURI cfg) (pc_Host p) = Inr u"
    proof -
      from host(2) consider "pre = []" | "pre = ''https://''" | "pre = ''http://''" by blast
      then show ?thesis
        by cases (use host(1) buildTargetURL_plain [OF host(3-5), of "cfg_BaseURI cfg"] in simp_all)
    qed
    then show ?thesis using p by (auto simp: setup_route_def Let_def)
  qed
  then have "\<forall>pr \<in> set (cfg_Routes cfg). \<exists>r. setup_route cfg pr = Inr r" by auto
  from setup_loop_ok [OF this] obtain rs where "setup_loop cfg (cfg_Routes cfg) = Inr rs" by blast
  then show ?thesis using setup_loop_paths [of cfg "cfg_Routes cfg"] by (auto simp: setupRoutes_def)
qed

lemma plain_hosts_register_witness: "\<exists>rs. setupRoutes sample_config = Inr rs"
proof -
  have "host_name ''api.x''" "port_suffix []" "plain_path []"
    by (simp_all add: host_name_def port_suffix_def plain_path_def unreserved_def ascii_alnum_def
        ascii_lower_letter_def)
  then have "plain_provider_host ''api.x''"
    unfolding plain_provider_host_def
    by (intro exI [of _ "[]"] exI [of _ "''api.x''"]) simp
  then have "\<forall>p \<in> snd ` set (cfg_Providers sample_config). plain_provider_host (pc_Host p)"
    by (simp add: sample_config_def sample_provider_def)
  from plain_hosts_register [OF sample_config_ok sample_routes_ok this] show ?thesis by blast
qed

end
