(* ===== verification/LogX.thy ===== *)
theory LogX
  imports Prelude
begin

text \<open>
  The logger of \<open>internal/logx/logger.go\<close>: package variables behind a \<open>sync.Once\<close>. A line is its tag
  and its formatted message; the rotating file and standard output behind the two loggers are one
  list of lines. Until \<open>Init\<close> succeeded the loggers are nil and every call is silent.
\<close>

record log_state =
  lg_done :: bool  \<comment> \<open>\<open>once\<close> has run\<close>
  lg_initErr :: "string option"
  lg_ready :: bool  \<comment> \<open>\<open>appLogger\<close> and \<open>accessLogger\<close> are set\<close>
  lg_debug :: bool
  lg_lines :: "(string \<times> string) list"

definition fresh_log :: log_state where
  "fresh_log = \<lparr>lg_done = False, lg_initErr = None, lg_ready = False, lg_debug = False,
     lg_lines = []\<rparr>"

text \<open>\<open>Init\<close>; the argument \<open>mkdir\<close> is the result of \<open>os.MkdirAll\<close>.\<close>

definition Init :: "string option \<Rightarrow> bool \<Rightarrow> log_state \<Rightarrow> string option \<times> log_state" where
  "Init mkdir defaultDebug s =
     (let s' = (if lg_done s then s
                else (case mkdir of
                        Some err \<Rightarrow> s\<lparr>lg_done := True, lg_initErr := Some err\<rparr>
                      | None \<Rightarrow> s\<lparr>lg_done := True, lg_ready := True, lg_debug := defaultDebug\<rparr>))
      in (lg_initErr s', s'))"

definition log_line :: "string \<Rightarrow> string \<Rightarrow> log_state \<Rightarrow> log_state" where
  "log_line tag msg s = (if \<not> lg_ready s then s else s\<lparr>lg_lines := lg_lines s @ [(tag, msg)]\<rparr>)"

definition AppInfof :: "string \<Rightarrow> log_state \<Rightarrow> log_state" where
  "AppInfof = log_line ''[INFO]''"

definition AppWarnf :: "string \<Rightarrow> log_state \<Rightarrow> log_state" where
  "AppWarnf = log_line ''[WARN]''"

definition AppErrorf :: "string \<Rightarrow> log_state \<Rightarrow> log_state" where
  "AppErrorf = log_line ''[ERROR]''"

definition AppDebugf :: "string \<Rightarrow> log_state \<Rightarrow> log_state" where
  "AppDebugf msg s = (if \<not> lg_ready s \<or> \<not> lg_debug s then s else log_line ''[DEBUG]'' msg s)"

definition Accessf :: "string \<Rightarrow> log_state \<Rightarrow> log_state" where
  "Accessf = log_line ''[ACCESS]''"

definition AccessDebugf :: "string \<Rightarrow> log_state \<Rightarrow> log_state" where
  "AccessDebugf msg s =
     (if \<not> lg_ready s \<or> \<not> lg_debug s then s else log_line ''[ACCESS_DEBUG]'' msg s)"

definition EnableDebug :: "log_state \<Rightarrow> log_state" where
  "EnableDebug s = AppInfof ''debug mode enabled'' (s\<lparr>lg_debug := True\<rparr>)"

definition DisableDebug :: "log_state \<Rightarrow> log_state" where
  "DisableDebug s = AppInfof ''debug mode disabled'' (s\<lparr>lg_debug := False\<rparr>)"

definition DebugEnabled :: "log_state \<Rightarrow> bool" where
  "DebugEnabled s = lg_debug s"

section \<open>Calls\<close>

datatype log_call =
    InitCall "string option" bool
  | Info string
  | Warn string
  | Error string
  | Debug string
  | Access string
  | AccessDebug string
  | Enable
  | Disable

fun run_call :: "log_call \<Rightarrow> log_state \<Rightarrow> log_state" where
  "run_call (InitCall mkdir dbg) s = snd (Init mkdir dbg s)"
| "run_call (Info m) s = AppInfof m s"
| "run_call (Warn m) s = AppWarnf m s"
| "run_call (Error m) s = AppErrorf m s"
| "run_call (Debug m) s = AppDebugf m s"
| "run_call (Access m) s = Accessf m s"
| "run_call (AccessDebug m) s = AccessDebugf m s"
| "run_call Enable s = EnableDebug s"
| "run_call Disable s = DisableDebug s"

lemmas log_defs = Init_def log_line_def AppInfof_def AppWarnf_def AppErrorf_def AppDebugf_def
  Accessf_def AccessDebugf_def EnableDebug_def DisableDebug_def DebugEnabled_def

text \<open>The states calls can reach: the result of the one initialisation never changes.\<close>

definition log_ok :: "log_state \<Rightarrow> bool" where
  "log_ok s \<longleftrightarrow> (lg_ready s \<longrightarrow> lg_done s \<and> lg_initErr s = None)
     \<and> (lg_done s \<longrightarrow> lg_ready s \<or> lg_initErr s \<noteq> None) \<and> (\<not> lg_ready s \<longrightarrow> lg_lines s = [])
     \<and> (\<not> lg_done s \<longrightarrow> lg_initErr s = None)"

inductive log_step :: "log_state \<Rightarrow> log_state \<Rightarrow> bool" where
  log_step: "log_step s (run_call c s)"

inductive_cases log_stepE: "log_step s t"

lemma run_call_ok: "log_ok s \<Longrightarrow> log_ok (run_call c s)"
  by (cases c) (auto simp: log_ok_def log_defs Let_def split: option.splits)

interpretation log_run: inductive_invariant "\<lambda>s. s = fresh_log" log_step log_ok
proof
  show "s = fresh_log \<Longrightarrow> log_ok s" for s by (simp add: fresh_log_def log_ok_def)
  show "log_ok s \<Longrightarrow> log_step s t \<Longrightarrow> log_ok t" for s t
    by (auto elim!: log_stepE intro: run_call_ok)
qed

lemma run_call_frozen:
  "lg_done s \<Longrightarrow> lg_done (run_call c s) \<and> lg_initErr (run_call c s) = lg_initErr s
    \<and> lg_ready (run_call c s) = lg_ready s"
  by (cases c) (simp_all add: log_defs Let_def)

lemma run_calls_frozen:
  "lg_done s \<Longrightarrow> lg_done (fold run_call cs s) \<and> lg_initErr (fold run_call cs s) = lg_initErr s
    \<and> lg_ready (fold run_call cs s) = lg_ready s"
  by (induction cs arbitrary: s) (simp_all add: run_call_frozen)

lemma run_call_appends:
  "\<exists>ls. lg_lines (run_call c s) = lg_lines s @ ls
    \<and> (\<not> lg_debug s \<longrightarrow> fst ` set ls \<inter> {''[DEBUG]'', ''[ACCESS_DEBUG]''} = {})"
  by (cases c) (auto simp: log_defs Let_def split: option.splits)

fun switches_on :: "log_call \<Rightarrow> bool" where
  "switches_on Enable = True"
| "switches_on (InitCall mkdir dbg) = dbg"
| "switches_on c = False"

lemma run_call_debug_off: "\<not> switches_on c \<Longrightarrow> \<not> lg_debug s \<Longrightarrow> \<not> lg_debug (run_call c s)"
  by (cases c) (auto simp: log_defs Let_def split: option.splits)

lemma no_debug_lines:
  assumes "\<not> lg_debug s" "\<forall>c \<in> set cs. \<not> switches_on c"
  shows "\<exists>ls. lg_lines (fold run_call cs s) = lg_lines s @ ls
    \<and> fst ` set ls \<inter> {''[DEBUG]'', ''[ACCESS_DEBUG]''} = {}"
  using assms
proof (induction cs arbitrary: s)
  case (Cons c cs)
  obtain ls where ls: "lg_lines (run_call c s) = lg_lines s @ ls"
      "fst ` set ls \<inter> {''[DEBUG]'', ''[ACCESS_DEBUG]''} = {}"
    using run_call_appends [of c s] Cons.prems(1) by blast
  have "\<not> lg_debug (run_call c s)" using Cons.prems run_call_debug_off by simp
  then obtain ms where ms: "lg_lines (fold run_call cs (run_call c s)) = lg_lines (run_call c s) @ ms"
      "fst ` set ms \<inter> {''[DEBUG]'', ''[ACCESS_DEBUG]''} = {}"
    using Cons.IH [of "run_call c s"] Cons.prems(2) by auto
  with ls show ?case by (intro exI [of _ "ls @ ms"]) (simp add: image_Un Int_Un_distrib2)
qed simp

section \<open>Properties\<close>

text \<open>
  The logger is initialised once: after any calls that include an \<open>Init\<close>, every further \<open>Init\<close>
  returns what the first one returned and changes nothing; when that was an error, no call ever
  writes a line.
\<close>

theorem Init_once:
  assumes "reach (\<lambda>s. s = fresh_log) log_step s" "lg_done s"
  shows "(\<forall>mkdir dbg. Init mkdir dbg (fold run_call cs s) = (lg_initErr s, fold run_call cs s))
    \<and> (lg_initErr s \<noteq> None \<longrightarrow> lg_lines (fold run_call cs s) = [])"
proof
  note frozen = run_calls_frozen [OF assms(2), of cs]
  show "\<forall>mkdir dbg. Init mkdir dbg (fold run_call cs s) = (lg_initErr s, fold run_call cs s)"
    using frozen by (simp add: Init_def Let_def)
  have ok: "log_ok s" by (rule log_run.reach_inv [OF assms(1)])
  then have "log_ok (fold run_call cs s)"
    by (induction cs arbitrary: s) (simp_all add: run_call_ok)
  with ok frozen show "lg_initErr s \<noteq> None \<longrightarrow> lg_lines (fold run_call cs s) = []"
    unfolding log_ok_def by metis
qed

lemma Init_once_witness:
  "Init None True (snd (Init (Some ''denied'') False fresh_log))
    = (Some ''denied'', snd (Init (Some ''denied'') False fresh_log))"
proof -
  have "reach (\<lambda>s. s = fresh_log) log_step (run_call (InitCall (Some ''denied'') False) fresh_log)"
    by (rule reach_step [where s = fresh_log], rule reach_init, rule refl, rule log_step)
  from Init_once [OF this, of "[]"] show ?thesis by (simp add: Init_def fresh_log_def)
qed

text \<open>
  Debug lines, of the application and of the access log, which may hold whole request and
  response bodies, are written only while the switch is on: calls that never turn it on only append
  lines of the other kinds.
\<close>

theorem debug_lines_need_switch:
  assumes "\<not> DebugEnabled s" "\<forall>c \<in> set cs. \<not> switches_on c"
  shows "\<exists>ls. lg_lines (fold run_call cs s) = lg_lines s @ ls
    \<and> (\<forall>l \<in> set ls. fst l \<noteq> ''[DEBUG]'' \<and> fst l \<noteq> ''[ACCESS_DEBUG]'')"
proof -
  obtain ls where "lg_lines (fold run_call cs s) = lg_lines s @ ls"
      "fst ` set ls \<inter> {''[DEBUG]'', ''[ACCESS_DEBUG]''} = {}"
    using no_debug_lines [OF assms(1) [unfolded DebugEnabled_def] assms(2)] by blast
  then show ?thesis by (intro exI [of _ ls]) force
qed

lemma debug_lines_need_switch_witness:
  "\<exists>ls. lg_lines (fold run_call [Debug ''secret'', Info ''x''] fresh_log) = lg_lines fresh_log @ ls
    \<and> (\<forall>l \<in> set ls. fst l \<noteq> ''[DEBUG]'' \<and> fst l \<noteq> ''[ACCESS_DEBUG]'')"
  by (rule debug_lines_need_switch) (simp_all add: DebugEnabled_def fresh_log_def)

end
