(* ===== verification/Admin.thy ===== *)
theory Admin
  imports KeyStore UsageStore LogX
begin

text \<open>
  The control plane, \<open>grpc/handler.go\<close>: every remote call of the administrator, on the configuration,
  the credential store, the usage database and the logger. The message types stand for the generated
  code of \<open>proto/\<close>, field by field. The log lines of the handlers are in \<open>AuditLog\<close>;
  \<open>ConfigureDebug\<close> acts on the logger's state.
\<close>

section \<open>Messages\<close>

record route_info =
  ri_Uri :: string
  ri_Quota :: string
  ri_Provider :: string

record quota_info =
  qi_Name :: string
  qi_Daily :: int64
  qi_Monthly :: int64
  qi_Mode :: string
  qi_Status :: string

record key_info =
  ki_Uuid :: string
  ki_Alias :: string
  ki_Route :: string
  ki_RealKey :: string
  ki_InternalKey :: string

datatype stats_mode = DAILY | MONTHLY | VERBOSE | OtherMode int

record stats_request =
  sr_Mode :: stats_mode
  sr_StartDate :: string
  sr_EndDate :: string
  sr_Year :: "32 word"
  sr_MaxCount :: "32 word"

record stats_response =
  DailyRows :: "stat_row list"
  MonthlyRows :: "stat_row list"
  VerboseRows :: "verbose_row list"

datatype admin_error =
    RouteNotConfigured string
  | EmptyRealKey
  | KeystoreError keystore_error
  | UsageNotConfigured
  | NilRequest
  | DailyStatsFailed stats_error
  | MonthlyStatsFailed stats_error
  | VerboseLogsFailed stats_error
  | UnsupportedMode int

section \<open>Listings\<close>

definition ListRoutes :: "apml_config \<Rightarrow> route_info list" where
  "ListRoutes cfg =
     map (\<lambda>(uri, route). \<lparr>ri_Uri = uri,
            ri_Quota = (if rc_Quota route = [] then ''None'' else rc_Quota route),
            ri_Provider = rc_Provider route\<rparr>) (cfg_Routes cfg)"

definition applied_quotas :: "apml_config \<Rightarrow> string list" where
  "applied_quotas cfg = filter (\<lambda>q. q \<noteq> []) (map (\<lambda>(path, route). rc_Quota route) (cfg_Routes cfg))"

definition ListQuotas :: "apml_config \<Rightarrow> quota_info list" where
  "ListQuotas cfg =
     map (\<lambda>(name, q). \<lparr>qi_Name = name, qi_Daily = q_Daily q, qi_Monthly = q_Monthly q,
            qi_Mode = (if q_Daily q = 0 \<and> q_Monthly q = 0 then ''unlimited'' else q_Mode q),
            qi_Status = (if name \<in> set (applied_quotas cfg) then ''APPLIED'' else ''IDLE'')\<rparr>)
       (cfg_Quotas cfg)"

definition key_info_of :: "key_record \<Rightarrow> key_info" where
  "key_info_of r = \<lparr>ki_Uuid = kr_UUID r, ki_Alias = kr_Alias r, ki_Route = kr_Route r,
     ki_RealKey = MaskKey (kr_RealKey r), ki_InternalKey = kr_InternalKey r\<rparr>"

definition handle_ListKeys :: "key_store \<Rightarrow> key_info list" where
  "handle_ListKeys store = map key_info_of (ListKeys store)"

section \<open>Keys\<close>

definition handle_AddKey ::
  "(string \<Rightarrow> string) \<Rightarrow> apml_config \<Rightarrow> string \<Rightarrow> string \<Rightarrow> string \<Rightarrow> string + string \<Rightarrow> string + string
     \<Rightarrow> key_store \<Rightarrow> (admin_error + string) \<times> key_store" where
  "handle_AddKey sha cfg route realKey al uuid_draw rand_draw store =
     (if map_of (cfg_Routes cfg) route = None then (Inl (RouteNotConfigured route), store)
      else if trim_space realKey = [] then (Inl EmptyRealKey, store)
      else (case AddKey sha route realKey al uuid_draw rand_draw store of
              (Inl e, store') \<Rightarrow> (Inl (KeystoreError e), store')
            | (Inr r, store') \<Rightarrow> (Inr (kr_InternalKey r), store')))"

definition handle_DeleteKey :: "string \<Rightarrow> key_store \<Rightarrow> bool \<times> key_store" where
  "handle_DeleteKey uid store = DeleteKey uid store"

section \<open>Statistics\<close>

definition default_date :: "string \<Rightarrow> string \<Rightarrow> string" where
  "default_date today d = (if trim_space d = [] then today else trim_space d)"

definition default_year :: "go_time \<Rightarrow> 32 word \<Rightarrow> int" where
  "default_year now y = (if sint y \<le> 0 then t_year now else sint y)"

definition default_limit :: "32 word \<Rightarrow> int" where
  "default_limit n = (if sint n \<le> 0 then 100 else sint n)"

definition empty_response :: stats_response where
  "empty_response = \<lparr>DailyRows = [], MonthlyRows = [], VerboseRows = []\<rparr>"

text \<open>The usage store and the request are pointers, \<open>None\<close> is nil.\<close>

definition GetStats ::
  "sqlite \<Rightarrow> stats_fault \<Rightarrow> go_time \<Rightarrow> usage_db option \<Rightarrow> stats_request option
     \<Rightarrow> admin_error + stats_response" where
  "GetStats E fault now usage req =
     (case usage of
        None \<Rightarrow> Inl UsageNotConfigured
      | Some db \<Rightarrow>
          (case req of
             None \<Rightarrow> Inl NilRequest
           | Some r \<Rightarrow>
               (case sr_Mode r of
                  DAILY \<Rightarrow>
                    (let today = format_date now;
                         startDate = default_date today (sr_StartDate r);
                         endDate = default_date today (sr_EndDate r)
                     in case GetDailyStats E fault db startDate endDate of
                          Inl e \<Rightarrow> Inl (DailyStatsFailed e)
                        | Inr rows \<Rightarrow> Inr (empty_response\<lparr>DailyRows := rows\<rparr>))
                | MONTHLY \<Rightarrow>
                    (case GetMonthlyStats E fault db (default_year now (sr_Year r)) of
                       Inl e \<Rightarrow> Inl (MonthlyStatsFailed e)
                     | Inr rows \<Rightarrow> Inr (empty_response\<lparr>MonthlyRows := rows\<rparr>))
                | VERBOSE \<Rightarrow>
                    (case GetVerboseLogs fault db (default_limit (sr_MaxCount r)) of
                       Inl e \<Rightarrow> Inl (VerboseLogsFailed e)
                     | Inr rows \<Rightarrow> Inr (empty_response\<lparr>VerboseRows := rows\<rparr>))
                | OtherMode m \<Rightarrow> Inl (UnsupportedMode m))))"

definition ConfigureDebug :: "bool option \<Rightarrow> log_state \<Rightarrow> (admin_error + bool) \<times> log_state" where
  "ConfigureDebug req s =
     (case req of
        None \<Rightarrow> (Inl NilRequest, s)
      | Some enable \<Rightarrow>
          (let s' = (if enable then EnableDebug s else DisableDebug s)
           in (Inr (DebugEnabled s'), s')))"

section \<open>Properties\<close>

lemma handle_AddKey_store:
  "snd (handle_AddKey sha cfg route realKey al ud rd store) = store
    \<or> snd (handle_AddKey sha cfg route realKey al ud rd store)
      = snd (AddKey sha route realKey al ud rd store)"
  by (auto simp: handle_AddKey_def split: prod.split sum.split)

text \<open>
  The administrator's key list covers the store and hides the upstream keys: on a well-formed
  store it has one entry for each record, under its UUID, alias, route and internal key, and what it
  shows of the real key depends on its first 12 bytes and its length only.
\<close>

theorem ListKeys_masked:
  assumes "store_ok sha store"
  shows "ki_Uuid ` set (handle_ListKeys store) = kr_UUID ` records store
    \<and> distinct (map ki_Uuid (handle_ListKeys store))
    \<and> (\<forall>i \<in> set (handle_ListKeys store). \<exists>r \<in> records store.
        ki_Uuid i = kr_UUID r \<and> ki_Alias i = kr_Alias r \<and> ki_Route i = kr_Route r
        \<and> ki_InternalKey i = kr_InternalKey r
        \<and> (\<forall>key. take 12 key = take 12 (kr_RealKey r) \<longrightarrow> length key = length (kr_RealKey r)
              \<longrightarrow> ki_RealKey i = MaskKey key))"
proof (intro conjI ballI)
  have uid: "map ki_Uuid (handle_ListKeys store) = map fst (ks_keys store)"
  proof -
    have "kr_UUID (snd x) = fst x" if "x \<in> set (ks_keys store)" for x
      using gmap_mem_iff [OF store_okD(1) [OF assms], of "fst x" "snd x"] that
        store_okD(3) [OF assms, of "fst x" "snd x"] by simp
    then show ?thesis by (simp add: handle_ListKeys_def ListKeys_def key_info_of_def)
  qed
  then show "distinct (map ki_Uuid (handle_ListKeys store))"
    using store_okD(1) [OF assms] by simp
  show "ki_Uuid ` set (handle_ListKeys store) = kr_UUID ` records store"
    by (simp add: handle_ListKeys_def ListKeys_def records_def image_image key_info_of_def)
  fix i assume "i \<in> set (handle_ListKeys store)"
  then obtain r where r: "r \<in> records store" "i = key_info_of r"
    by (auto simp: handle_ListKeys_def ListKeys_def records_def)
  have mask: "MaskKey key = MaskKey (kr_RealKey r)"
    if "take 12 key = take 12 (kr_RealKey r)" "length key = length (kr_RealKey r)" for key
  proof -
    have "take n key = take n (kr_RealKey r)" if "n \<le> 12" for n
      using arg_cong [OF \<open>take 12 key = take 12 (kr_RealKey r)\<close>, of "take n"] that
      by (simp add: min_absorb1)
    with that(2) show ?thesis by (simp add: MaskKey_def Let_def)
  qed
  show "\<exists>r \<in> records store. ki_Uuid i = kr_UUID r \<and> ki_Alias i = kr_Alias r \<and> ki_Route i = kr_Route r
        \<and> ki_InternalKey i = kr_InternalKey r
        \<and> (\<forall>key. take 12 key = take 12 (kr_RealKey r) \<longrightarrow> length key = length (kr_RealKey r)
              \<longrightarrow> ki_RealKey i = MaskKey key)"
  proof (intro bexI [of _ r] conjI allI impI)
    show "ki_Uuid i = kr_UUID r" "ki_Alias i = kr_Alias r" "ki_Route i = kr_Route r"
      "ki_InternalKey i = kr_InternalKey r"
      by (simp_all add: r(2) key_info_of_def)
    fix key assume "take 12 key = take 12 (kr_RealKey r)" "length key = length (kr_RealKey r)"
    from mask [OF this] show "ki_RealKey i = MaskKey key" by (simp add: r(2) key_info_of_def)
  qed (rule r(1))
qed

lemma ListKeys_masked_witness: "ki_Uuid ` set (handle_ListKeys sample_store) = {''u''}"
  using conjunct1 [OF ListKeys_masked [OF sample_ok]] unfolding sample_records
  by (simp add: sample_record_def)

text \<open>
  The guards of adding a key: it succeeds exactly when the route is configured, the upstream key is
  not blank, no record has the same route and key, and both random draws succeed; the internal key it
  then returns finds a record with that route, key and alias. In every other case the store is
  unchanged.
\<close>

theorem handle_AddKey_guards:
  assumes "store_ok sha store"
    and "\<And>uid bytes. ud = Inr uid \<Longrightarrow> rd = Inr bytes \<Longrightarrow> fresh_for sha uid bytes store"
  shows "case handle_AddKey sha cfg route realKey al ud rd store of
      (Inr k, store') \<Rightarrow> route \<in> dom (map_of (cfg_Routes cfg)) \<and> trim_space realKey \<noteq> []
        \<and> (\<forall>r \<in> records store. kr_Route r = route \<longrightarrow> kr_RealKey r \<noteq> realKey)
        \<and> (\<exists>r. GetKeyByInternal sha store' k = Some r \<and> kr_Route r = route
            \<and> kr_RealKey r = realKey \<and> kr_Alias r = al)
    | (Inl e, store') \<Rightarrow> store' = store
        \<and> (route \<notin> dom (map_of (cfg_Routes cfg)) \<or> trim_space realKey = []
           \<or> (\<exists>r \<in> records store. kr_Route r = route \<and> kr_RealKey r = realKey)
           \<or> (\<exists>m. ud = Inl m \<or> rd = Inl m))"
proof (cases "route \<in> dom (map_of (cfg_Routes cfg)) \<and> trim_space realKey \<noteq> []")
  case False
  then show ?thesis by (auto simp: handle_AddKey_def)
next
  case True
  then have h: "handle_AddKey sha cfg route realKey al ud rd store
      = (case AddKey sha route realKey al ud rd store of
           (Inl e, store') \<Rightarrow> (Inl (KeystoreError e), store')
         | (Inr r, store') \<Rightarrow> (Inr (kr_InternalKey r), store'))"
    by (auto simp: handle_AddKey_def)
  show ?thesis
  proof (cases rule: AddKey_cases [of sha route realKey al ud rd store])
    case (err e)
    have "(\<exists>r \<in> records store. kr_Route r = route \<and> kr_RealKey r = realKey) \<or> (\<exists>m. ud = Inl m \<or> rd = Inl m)"
    proof (rule ccontr)
      assume contra: "\<not> ?thesis"
      then obtain uid bytes where "ud = Inr uid" "rd = Inr bytes" by (metis sum.exhaust)
      with contra AddKey_success [of store route realKey sha al uid bytes] err show False by auto
    qed
    with err True show ?thesis by (simp add: h)
  next
    case (ok uid bytes r)
    let ?s = "snd (AddKey sha route realKey al ud rd store)"
    have add: "AddKey sha route realKey al (Inr uid) (Inr bytes) store = (Inr r, ?s)"
      using ok by simp
    have "GetKeyByInternal sha ?s (kr_InternalKey r) = Some r"
      using GetKey_AddKey [OF assms(1) assms(2) [OF ok(1,2)] add] by simp
    moreover have "handle_AddKey sha cfg route realKey al ud rd store = (Inr (kr_InternalKey r), ?s)"
      unfolding h by (simp add: ok(5))
    ultimately show ?thesis using True ok(3,4) by (simp only: prod.case sum.case) auto
  qed
qed

lemma handle_AddKey_guards_witness:
  "\<exists>r. GetKeyByInternal id (snd (handle_AddKey id sample_config ''/a'' ''k2'' ''al'' (Inr ''v'') (Inr ''ab'')
       sample_store)) (internal_key_of ''ab'') = Some r \<and> kr_RealKey r = ''k2''"
proof -
  have trim: "trim_space ''k2'' = ''k2''" by (rule trim_space_visible) (simp add: visible_def)
  have "\<forall>q \<in> records sample_store. \<not> (kr_Route q = ''/a'' \<and> kr_RealKey q = ''k2'')"
    by (simp add: sample_records sample_record_def)
  from AddKey_success [OF this, of id "''al''" "''v''" "''ab''"]
  obtain s2 where "AddKey id ''/a'' ''k2'' ''al'' (Inr ''v'') (Inr ''ab'') sample_store
      = (Inr (new_record id ''/a'' ''k2'' ''al'' ''v'' ''ab''), s2)"
    by blast
  then have "handle_AddKey id sample_config ''/a'' ''k2'' ''al'' (Inr ''v'') (Inr ''ab'') sample_store
      = (Inr (internal_key_of ''ab''), s2)"
    by (simp add: handle_AddKey_def trim)
  moreover have "fresh_for id uid bytes sample_store" if "Inr ''v'' = Inr uid" "Inr ''ab'' = Inr bytes"
    for uid bytes using that sample_fresh by simp
  ultimately show ?thesis
    using handle_AddKey_guards [OF sample_ok, where ud = "Inr ''v''" and rd = "Inr ''ab''"
        and cfg = sample_config and route = "''/a''" and realKey = "''k2''" and al = "''al''"]
    by auto
qed

text \<open>
  The quota list: one entry for each declared quota; it is marked applied exactly when some route
  names it, and shown as unlimited exactly when both limits are zero; on a validated configuration
  every entry is marked with a known mode.
\<close>

theorem ListQuotas_status:
  assumes "config_ok cfg"
  shows "map qi_Name (ListQuotas cfg) = map fst (cfg_Quotas cfg)
    \<and> (\<forall>i \<in> set (ListQuotas cfg).
        (qi_Status i = ''APPLIED'' \<longleftrightarrow> (\<exists>(path, r) \<in> set (cfg_Routes cfg). rc_Quota r = qi_Name i))
        \<and> qi_Status i \<in> {''APPLIED'', ''IDLE''}
        \<and> (qi_Mode i = ''unlimited'' \<longleftrightarrow> qi_Daily i = 0 \<and> qi_Monthly i = 0)
        \<and> qi_Mode i \<in> {''unlimited'', ''per_key'', ''shared''})"
proof (intro conjI ballI)
  show "map qi_Name (ListQuotas cfg) = map fst (cfg_Quotas cfg)"
    by (simp add: ListQuotas_def split_beta comp_def)
  fix i assume "i \<in> set (ListQuotas cfg)"
  then obtain n q where nq: "(n, q) \<in> set (cfg_Quotas cfg)"
    and i: "i = \<lparr>qi_Name = n, qi_Daily = q_Daily q, qi_Monthly = q_Monthly q,
            qi_Mode = (if q_Daily q = 0 \<and> q_Monthly q = 0 then ''unlimited'' else q_Mode q),
            qi_Status = (if n \<in> set (applied_quotas cfg) then ''APPLIED'' else ''IDLE'')\<rparr>"
    by (auto simp: ListQuotas_def)
  have ok: "alphaName n" "quota_ok q" using assms nq by (auto simp: config_ok_def)
  then have "n \<noteq> []" by (auto simp: alphaName_def)
  then have "n \<in> set (applied_quotas cfg) \<longleftrightarrow> (\<exists>(path, r) \<in> set (cfg_Routes cfg). rc_Quota r = n)"
    by (force simp: applied_quotas_def)
  then show "qi_Status i = ''APPLIED'' \<longleftrightarrow> (\<exists>(path, r) \<in> set (cfg_Routes cfg). rc_Quota r = qi_Name i)"
    by (simp add: i)
  show "qi_Status i \<in> {''APPLIED'', ''IDLE''}" by (simp add: i)
  show "qi_Mode i = ''unlimited'' \<longleftrightarrow> qi_Daily i = 0 \<and> qi_Monthly i = 0"
    "qi_Mode i \<in> {''unlimited'', ''per_key'', ''shared''}"
    using ok(2) by (auto simp: i quota_ok_def)
qed

lemma ListQuotas_status_witness:
  "\<forall>i \<in> set (ListQuotas sample_config). qi_Mode i \<in> {''unlimited'', ''per_key'', ''shared''}"
  using ListQuotas_status [OF sample_config_ok] by blast

end
