(* ===== verification/UsageWorker.thy ===== *)
theory UsageWorker
  imports UsageLedger
begin

text \<open>
  The background writer of \<open>internal/usage/worker.go\<close>: the buffered channel, \<open>EmitNonBlocking\<close>, the
  worker goroutine with its drain loop, and \<open>Stop\<close>. The goroutines interleave freely, so the
  component is a step relation: a producer may emit between any two steps of the worker, and the
  receive from the channel and the write of the record are separate steps. Every event carries what
  the environment decides (faults of the database, the clocks).
\<close>

section \<open>State\<close>

datatype worker_state =
    NotStarted
  | Selecting
  | Writing usage_record
  | Draining
  | DrainWriting usage_record
  | Exited

record backend =
  b_queue :: "usage_record list"
  b_dropped :: int64
  b_done :: bool
  b_worker :: worker_state
  b_db :: usage_db

definition defaultQueueSize :: nat where
  "defaultQueueSize = 1024"

definition NewUsageBackend :: "usage_db \<Rightarrow> backend" where
  "NewUsageBackend db = \<lparr>b_queue = [], b_dropped = 0, b_done = False, b_worker = NotStarted,
     b_db = db\<rparr>"

definition EmitNonBlocking :: "usage_record \<Rightarrow> backend \<Rightarrow> backend" where
  "EmitNonBlocking rec b =
     (if length (b_queue b) < defaultQueueSize then b\<lparr>b_queue := b_queue b @ [rec]\<rparr>
      else b\<lparr>b_dropped := b_dropped b + 1\<rparr>)"

definition DroppedCount :: "backend \<Rightarrow> int64" where
  "DroppedCount b = b_dropped b"

text \<open>\<open>Stop\<close> returns when the wait group is empty: the worker was never started or has exited.\<close>

definition stop_returns :: "backend \<Rightarrow> bool" where
  "stop_returns b \<longleftrightarrow> b_done b \<and> (b_worker b = NotStarted \<or> b_worker b = Exited)"

section \<open>Steps\<close>

datatype backend_event =
    Accept usage_record
  | Drop usage_record
  | StartWorker
  | Receive usage_record
  | Write usage_record write_fault go_time string
  | CloseDone
  | SeeDone
  | WorkerExit

inductive backend_step :: "sqlite \<Rightarrow> backend \<Rightarrow> backend_event \<Rightarrow> backend \<Rightarrow> bool" for E where
  bs_accept: "length (b_queue b) < defaultQueueSize \<Longrightarrow>
    backend_step E b (Accept rec) (EmitNonBlocking rec b)"
| bs_drop: "\<not> length (b_queue b) < defaultQueueSize \<Longrightarrow>
    backend_step E b (Drop rec) (EmitNonBlocking rec b)"
| bs_start: "b_worker b = NotStarted \<Longrightarrow>
    backend_step E b StartWorker (b\<lparr>b_worker := Selecting\<rparr>)"
| bs_receive: "b_worker b = Selecting \<Longrightarrow> b_queue b = rec # q \<Longrightarrow>
    backend_step E b (Receive rec) (b\<lparr>b_queue := q, b_worker := Writing rec\<rparr>)"
| bs_write: "b_worker b = Writing rec \<Longrightarrow>
    backend_step E b (Write rec fault now clock)
      (b\<lparr>b_db := writeRecord E fault now clock rec (b_db b), b_worker := Selecting\<rparr>)"
| bs_close: "backend_step E b CloseDone (b\<lparr>b_done := True\<rparr>)"
| bs_see_done: "b_worker b = Selecting \<Longrightarrow> b_done b \<Longrightarrow>
    backend_step E b SeeDone (b\<lparr>b_worker := Draining\<rparr>)"
| bs_drain_receive: "b_worker b = Draining \<Longrightarrow> b_queue b = rec # q \<Longrightarrow>
    backend_step E b (Receive rec) (b\<lparr>b_queue := q, b_worker := DrainWriting rec\<rparr>)"
| bs_drain_write: "b_worker b = DrainWriting rec \<Longrightarrow>
    backend_step E b (Write rec fault now clock)
      (b\<lparr>b_db := writeRecord E fault now clock rec (b_db b), b_worker := Draining\<rparr>)"
| bs_exit: "b_worker b = Draining \<Longrightarrow> b_queue b = [] \<Longrightarrow>
    backend_step E b WorkerExit (b\<lparr>b_worker := Exited\<rparr>)"

inductive_cases backend_stepE: "backend_step E b ev b'"

inductive_simps exit_step: "backend_step E b WorkerExit b'"

inductive backend_run ::
  "sqlite \<Rightarrow> backend \<Rightarrow> backend_event list \<Rightarrow> backend \<Rightarrow> bool" for E b where
  run_nil: "backend_run E b [] b"
| run_snoc: "backend_run E b evs b' \<Longrightarrow> backend_step E b' ev b'' \<Longrightarrow>
    backend_run E b (evs @ [ev]) b''"

text \<open>What the events of a run did, in order.\<close>

fun accepted :: "backend_event list \<Rightarrow> usage_record list" where
  "accepted [] = []"
| "accepted (Accept rec # evs) = rec # accepted evs"
| "accepted (ev # evs) = accepted evs"

fun received :: "backend_event list \<Rightarrow> usage_record list" where
  "received [] = []"
| "received (Receive rec # evs) = rec # received evs"
| "received (ev # evs) = received evs"

fun processed :: "backend_event list \<Rightarrow> usage_record list" where
  "processed [] = []"
| "processed (Write rec fault now clock # evs) = rec # processed evs"
| "processed (ev # evs) = processed evs"

fun dropped_events :: "backend_event list \<Rightarrow> nat" where
  "dropped_events [] = 0"
| "dropped_events (Drop rec # evs) = Suc (dropped_events evs)"
| "dropped_events (ev # evs) = dropped_events evs"

definition fault_free :: "write_fault \<Rightarrow> bool" where
  "fault_free fault \<longleftrightarrow> (\<forall>st. fault st = None)"

text \<open>The write attempts, as booked, and those of them that no fault stopped.\<close>

fun attempts :: "backend_event list \<Rightarrow> (usage_record \<times> bool) list" where
  "attempts [] = []"
| "attempts (Write rec fault now clock # evs) = (booked rec now, fault_free fault) # attempts evs"
| "attempts (ev # evs) = attempts evs"

definition committed :: "backend_event list \<Rightarrow> usage_record list" where
  "committed evs = map fst (filter snd (attempts evs))"

lemma accepted_append [simp]: "accepted (evs @ evs') = accepted evs @ accepted evs'"
  by (induction evs rule: accepted.induct) simp_all

lemma received_append [simp]: "received (evs @ evs') = received evs @ received evs'"
  by (induction evs rule: received.induct) simp_all

lemma processed_append [simp]: "processed (evs @ evs') = processed evs @ processed evs'"
  by (induction evs rule: processed.induct) simp_all

lemma attempts_append [simp]: "attempts (evs @ evs') = attempts evs @ attempts evs'"
  by (induction evs rule: attempts.induct) simp_all

lemma dropped_events_append [simp]:
  "dropped_events (evs @ evs') = dropped_events evs + dropped_events evs'"
  by (induction evs rule: dropped_events.induct) simp_all

lemma committed_append [simp]: "committed (evs @ evs') = committed evs @ committed evs'"
  by (simp add: committed_def)

lemma committed_other [simp]: "attempts [ev] = [] \<Longrightarrow> committed [ev] = []"
  by (simp add: committed_def)

section \<open>Invariants of a run\<close>

fun in_flight :: "worker_state \<Rightarrow> usage_record list" where
  "in_flight (Writing rec) = [rec]"
| "in_flight (DrainWriting rec) = [rec]"
| "in_flight w = []"

definition run_inv :: "backend \<Rightarrow> backend_event list \<Rightarrow> backend \<Rightarrow> bool" where
  "run_inv b evs b' \<longleftrightarrow>
     b_queue b @ accepted evs = received evs @ b_queue b'
     \<and> received evs = processed evs @ in_flight (b_worker b')
     \<and> b_dropped b' = b_dropped b + of_nat (dropped_events evs)
     \<and> length (b_queue b') \<le> defaultQueueSize"

lemma run_inv:
  assumes "backend_run E b evs b'" "in_flight (b_worker b) = []"
    "length (b_queue b) \<le> defaultQueueSize"
  shows "run_inv b evs b'"
  using assms(1)
proof (induction rule: backend_run.induct)
  case run_nil
  then show ?case using assms(2,3) by (simp add: run_inv_def)
next
  case (run_snoc evs b' ev b'')
  from run_snoc.hyps(2) run_snoc.IH show ?case
    by (cases rule: backend_step.cases) (auto simp: run_inv_def EmitNonBlocking_def)
qed

section \<open>The database of a run\<close>

lemma fits_subseq: "subseq xs ys \<Longrightarrow> fits ys \<Longrightarrow> fits xs"
proof -
  assume sub: "subseq xs ys" and fits: "fits ys"
  have le: "tally f xs \<le> tally f ys" if "\<forall>r \<in> set ys. 0 \<le> sint (f r)" for f
    using sub that
  proof (induction rule: list_emb.induct)
    case (list_emb_Nil ys)
    then show ?case by (simp add: tally_nonneg)
  qed auto
  have "set xs \<subseteq> set ys" using sub by (auto elim: list_emb_set)
  with fits le [of r_PromptTokens] le [of r_CompletionTokens] le [of r_TotalTokens]
    list_emb_length [OF sub]
  show ?thesis unfolding fits_def by (auto dest: subsetD)
qed

lemma fits_committed:
  assumes "fits (hist @ map fst (attempts evs))"
  shows "fits (hist @ committed evs)"
proof -
  have "subseq (committed evs) (map fst (attempts evs))"
    unfolding committed_def by (intro subseq_map subseq_filter_left)
  then have "subseq (hist @ committed evs) (hist @ map fst (attempts evs))"
    by (simp add: subseq_append')
  then show ?thesis using assms by (rule fits_subseq)
qed

text \<open>
  The tables account exactly for the committed write attempts: a failed attempt leaves no trace in
  any of the three tables, a committed one is in all of them.
\<close>

lemma writeRecord_ledger:
  assumes "ledger hist db" "fits (hist @ [booked rec now])"
  shows "ledger (hist @ (if fault_free fault then [booked rec now] else []))
    (writeRecord E fault now clock rec db)"
proof -
  have "int (length hist) < 2 ^ 63 - 1" using assms(2) by (simp add: fits_def)
  then have seq: "db_sequence db < 2 ^ 63 - 1" using assms(1) by (simp add: ledger_sequence)
  show ?thesis
  proof (cases "fault_free fault")
    case True
    then show ?thesis
      using executeTripleWrite_ok [of fault db E now clock rec] seq committed_ledger [OF assms]
      by (simp add: writeRecord_def fault_free_def)
  next
    case False
    then show ?thesis
      using executeTripleWrite_err [of fault db E now clock rec] assms(1)
      by (auto simp: writeRecord_def fault_free_def)
  qed
qed

lemma run_ledger:
  assumes "backend_run E b evs b'" "ledger hist (b_db b)" "fits (hist @ map fst (attempts evs))"
  shows "ledger (hist @ committed evs) (b_db b')"
  using assms
proof (induction rule: backend_run.induct)
  case run_nil
  then show ?case by (simp add: committed_def)
next
  case (run_snoc evs b' ev b'')
  have fits: "fits (hist @ map fst (attempts evs))"
    using run_snoc.prems(2) fits_prefix [of "hist @ map fst (attempts evs)"] by simp
  have led: "ledger (hist @ committed evs) (b_db b')"
    using run_snoc.IH [OF run_snoc.prems(1) fits] .
  have one: "fits ((hist @ committed evs) @ [booked rec now])"
    if "ev = Write rec fault now clock" for rec fault now clock
  proof (rule fits_subseq)
    have "subseq (committed evs) (map fst (attempts evs))"
      unfolding committed_def by (intro subseq_map subseq_filter_left)
    then show "subseq ((hist @ committed evs) @ [booked rec now])
        (hist @ map fst (attempts (evs @ [ev])))"
      using that by (simp add: list_emb_append_mono)
  qed (rule run_snoc.prems(2))
  from run_snoc.hyps(2) show ?case
  proof (cases rule: backend_step.cases)
    case (bs_write rec fault now clock)
    then show ?thesis
      using writeRecord_ledger [OF led one [OF bs_write(1)], of fault E clock]
      by (simp add: committed_def split: if_splits)
  next
    case (bs_drain_write rec fault now clock)
    then show ?thesis
      using writeRecord_ledger [OF led one [OF bs_drain_write(1)], of fault E clock]
      by (simp add: committed_def split: if_splits)
  qed (use led in \<open>simp_all add: EmitNonBlocking_def\<close>)
qed

section \<open>Shutdown\<close>

text \<open>The steps the worker takes on its own, with no producer and no further call of \<open>Stop\<close>.\<close>

fun worker_event :: "backend_event \<Rightarrow> bool" where
  "worker_event (Receive rec) = True"
| "worker_event (Write rec fault now clock) = True"
| "worker_event SeeDone = True"
| "worker_event WorkerExit = True"
| "worker_event ev = False"

fun worker_rank :: "worker_state \<Rightarrow> nat" where
  "worker_rank NotStarted = 0"
| "worker_rank Selecting = 2"
| "worker_rank (Writing rec) = 3"
| "worker_rank Draining = 1"
| "worker_rank (DrainWriting rec) = 2"
| "worker_rank Exited = 0"

definition drain_measure :: "backend \<Rightarrow> nat" where
  "drain_measure b = 2 * length (b_queue b) + worker_rank (b_worker b)"

lemma worker_step_decreases:
  "backend_step E b ev b' \<Longrightarrow> worker_event ev \<Longrightarrow> drain_measure b' < drain_measure b"
  by (cases rule: backend_step.cases) (auto simp: drain_measure_def)

lemma worker_step_exists:
  assumes "b_done b" "\<not> stop_returns b"
  shows "\<exists>ev b'. worker_event ev \<and> backend_step E b ev b'"
proof (cases "b_worker b")
  case Selecting
  then show ?thesis using bs_see_done [OF Selecting assms(1)] worker_event.simps(3) by blast
next
  case (Writing rec)
  then show ?thesis using bs_write worker_event.simps(2) by blast
next
  case Draining
  then show ?thesis
    using bs_exit [OF Draining] bs_drain_receive [OF Draining] worker_event.simps(1,4)
    by (cases "b_queue b") blast+
next
  case (DrainWriting rec)
  then show ?thesis using bs_drain_write worker_event.simps(2) by blast
qed (use assms in \<open>simp_all add: stop_returns_def\<close>)

lemma worker_run_bounded:
  assumes "backend_run E b evs b'" "list_all worker_event evs"
  shows "length evs + drain_measure b' \<le> drain_measure b"
  using assms
proof (induction rule: backend_run.induct)
  case (run_snoc evs b' ev b'')
  then show ?case using worker_step_decreases [OF run_snoc.hyps(2)] by simp
qed simp

lemma step_done: "backend_step E b ev b' \<Longrightarrow> b_done b \<Longrightarrow> b_done b'"
  by (auto elim!: backend_stepE simp: EmitNonBlocking_def)

lemma run_done: "backend_run E b evs b' \<Longrightarrow> b_done b \<Longrightarrow> b_done b'"
  by (induction rule: backend_run.induct) (auto dest: step_done)

text \<open>\<open>Stop\<close> returns: whatever the worker does, it can go on until it has exited.\<close>

lemma drain_exists:
  assumes "b_done b"
  shows "\<exists>evs b'. list_all worker_event evs \<and> backend_run E b evs b' \<and> stop_returns b'"
  using assms
proof (induction "drain_measure b" arbitrary: b rule: less_induct)
  case less
  show ?case
  proof (cases "stop_returns b")
    case True
    then show ?thesis using run_nil by (intro exI [of _ "[]"]) auto
  next
    case False
    then obtain ev c where ev: "worker_event ev" "backend_step E b ev c"
      using worker_step_exists [OF less.prems] by blast
    then obtain evs b' where run: "list_all worker_event evs" "backend_run E c evs b'" "stop_returns b'"
      using less.hyps [OF worker_step_decreases [OF ev(2,1)]] step_done [OF ev(2) less.prems] by blast
    have "backend_run E b (ev # evs) b'"
      using run(2)
    proof (induction rule: backend_run.induct)
      case run_nil
      show ?case using backend_run.run_snoc [OF backend_run.run_nil ev(2)] by simp
    next
      case (run_snoc evs b' ev' b'')
      then show ?case using backend_run.run_snoc by fastforce
    qed
    with ev(1) run show ?thesis by (intro exI [of _ "ev # evs"] exI [of _ b']) simp
  qed
qed

text \<open>When the worker exits, everything accepted so far has been processed.\<close>

lemma exit_drained:
  assumes "backend_run E b evs b'" "backend_step E b' WorkerExit b''"
    "in_flight (b_worker b) = []" "length (b_queue b) \<le> defaultQueueSize"
  shows "processed evs = b_queue b @ accepted evs" "b_queue b'' = []" "b_worker b'' = Exited"
  using run_inv [OF assms(1,3,4)] assms(2) by (auto simp: exit_step run_inv_def)

lemma exited_step:
  "backend_step E b ev b' \<Longrightarrow> b_worker b = Exited \<Longrightarrow>
    b_worker b' = Exited \<and> received [ev] = [] \<and> processed [ev] = []"
  by (cases rule: backend_step.cases) (auto simp: EmitNonBlocking_def)

lemma exited_run:
  assumes "backend_run E b evs b'" "b_worker b = Exited"
  shows "b_worker b' = Exited \<and> received evs = [] \<and> processed evs = []"
  using assms
  by (induction rule: backend_run.induct) (auto dest: exited_step)

section \<open>The interface of the queue\<close>

text \<open>
  What a producer relies on: offering never blocks, keeps the order, and counts what it could not
  keep. A burst that meets no receive keeps its first records up to the capacity.
\<close>

locale bounded_queue =
  fixes contents :: "'q \<Rightarrow> 'a list"
    and lost :: "'q \<Rightarrow> int64"
    and offer :: "'a \<Rightarrow> 'q \<Rightarrow> 'q"
    and cap :: nat
  assumes offer_room: "length (contents q) < cap \<Longrightarrow>
      contents (offer x q) = contents q @ [x] \<and> lost (offer x q) = lost q"
    and offer_full: "\<not> length (contents q) < cap \<Longrightarrow>
      contents (offer x q) = contents q \<and> lost (offer x q) = lost q + 1"
begin

lemma burst:
  assumes "length (contents q) \<le> cap"
  shows "contents (fold offer xs q) = contents q @ take (cap - length (contents q)) xs"
    and "lost (fold offer xs q)
      = lost q + of_nat (length xs - (cap - length (contents q)))"
  using assms
proof (induction xs arbitrary: q)
  case (Cons x xs)
  {
    case 1
    show ?case
    proof (cases "length (contents q) < cap")
      case True
      with Cons.IH(1) [of "offer x q"] offer_room [OF True, of x] show ?thesis
        by (simp add: Suc_diff_Suc flip: take_Suc_Cons)
    next
      case False
      with Cons.IH(1) [of "offer x q"] offer_full [OF False, of x] 1 show ?thesis by simp
    qed
  next
    case 2
    show ?case
    proof (cases "length (contents q) < cap")
      case True
      with Cons.IH(2) [of "offer x q"] offer_room [OF True, of x] show ?thesis
        by (simp add: Suc_diff_Suc)
    next
      case False
      with Cons.IH(2) [of "offer x q"] offer_full [OF False, of x] 2 show ?thesis by simp
    qed
  }
qed simp_all

end

interpretation channel: bounded_queue b_queue b_dropped EmitNonBlocking defaultQueueSize
  by unfold_locales (simp_all add: EmitNonBlocking_def)

section \<open>Properties\<close>

lemma run_from_new:
  assumes "backend_run E (NewUsageBackend db) evs b"
  shows "accepted evs = received evs @ b_queue b"
    "received evs = processed evs @ in_flight (b_worker b)"
    "b_dropped b = of_nat (dropped_events evs)" "length (b_queue b) \<le> defaultQueueSize"
  using run_inv [OF assms] by (simp_all add: run_inv_def NewUsageBackend_def)

lemma exited_by:
  "backend_step E b ev b' \<Longrightarrow> b_worker b' = Exited \<Longrightarrow> b_worker b \<noteq> Exited \<Longrightarrow> ev = WorkerExit"
  by (cases rule: backend_step.cases) (auto simp: EmitNonBlocking_def split: if_splits)

text \<open>An exited worker exited at some point of the run; what was accepted later stays queued.\<close>

lemma exit_point:
  assumes "backend_run E b evs b'" "b_worker b' = Exited" "b_worker b = NotStarted"
    "length (b_queue b) \<le> defaultQueueSize"
  shows "\<exists>pre post. evs = pre @ WorkerExit # post \<and> b_queue b @ accepted pre = processed pre
    \<and> b_queue b' = accepted post \<and> processed post = []"
  using assms(1,2)
proof (induction rule: backend_run.induct)
  case run_nil
  then show ?case using assms(3) by simp
next
  case (run_snoc evs b1 ev b2)
  show ?case
  proof (cases "b_worker b1 = Exited")
    case True
    then obtain pre post where *: "evs = pre @ WorkerExit # post"
        "b_queue b @ accepted pre = processed pre" "b_queue b1 = accepted post" "processed post = []"
      using run_snoc.IH by blast
    have "b_queue b2 = b_queue b1 @ accepted [ev] \<and> processed [ev] = []"
      using run_snoc.hyps(2) True by (cases rule: backend_step.cases) (auto simp: EmitNonBlocking_def)
    with * show ?thesis by (intro exI [of _ pre] exI [of _ "post @ [ev]"]) simp
  next
    case False
    then have ev: "ev = WorkerExit"
      by (rule exited_by [OF run_snoc.hyps(2) run_snoc.prems])
    with run_snoc.hyps(2) have "backend_step E b1 WorkerExit b2" by simp
    from exit_drained [OF run_snoc.hyps(1) this] assms(3,4)
    show ?thesis by (intro exI [of _ evs] exI [of _ "[]"]) (simp add: ev)
  qed
qed

text \<open>A run of five events, for the instances.\<close>

definition sample_backend :: backend where
  "sample_backend = NewUsageBackend empty_db"

definition sample_events :: "backend_event list" where
  "sample_events = [StartWorker, Accept sample_usage, Receive sample_usage,
     Write sample_usage no_fault sample_time ''now'']"

definition sample_after :: backend where
  "sample_after = \<lparr>b_queue = [], b_dropped = 0, b_done = False, b_worker = Selecting,
     b_db = writeRecord sample_engine no_fault sample_time ''now'' sample_usage empty_db\<rparr>"

definition sample_stopped :: backend where
  "sample_stopped = sample_after\<lparr>b_done := True, b_worker := Exited\<rparr>"

lemma step_eq: "backend_step E b ev c \<Longrightarrow> c = d \<Longrightarrow> backend_step E b ev d"
  by simp

lemma sample_run: "backend_run sample_engine sample_backend sample_events sample_after"
proof -
  let ?E = sample_engine
  let ?b1 = "sample_backend\<lparr>b_worker := Selecting\<rparr>"
  let ?b2 = "?b1\<lparr>b_queue := [sample_usage]\<rparr>"
  let ?b3 = "?b1\<lparr>b_worker := Writing sample_usage\<rparr>"
  have 1: "backend_step ?E sample_backend StartWorker ?b1"
    by (rule bs_start) (simp add: sample_backend_def NewUsageBackend_def)
  have 2: "backend_step ?E ?b1 (Accept sample_usage) ?b2"
    by (rule step_eq, rule bs_accept)
       (simp_all add: sample_backend_def NewUsageBackend_def defaultQueueSize_def EmitNonBlocking_def)
  have 3: "backend_step ?E ?b2 (Receive sample_usage) ?b3"
    by (rule step_eq, rule bs_receive) (simp_all add: sample_backend_def NewUsageBackend_def)
  have 4: "backend_step ?E ?b3 (Write sample_usage no_fault sample_time ''now'') sample_after"
    by (rule step_eq, rule bs_write)
       (simp_all add: sample_backend_def NewUsageBackend_def sample_after_def)
  show ?thesis
    using run_snoc [OF run_snoc [OF run_snoc [OF run_snoc [OF run_nil 1] 2] 3] 4]
    by (simp add: sample_events_def)
qed

lemma sample_stop_run:
  "backend_run sample_engine sample_backend (sample_events @ [CloseDone, SeeDone, WorkerExit])
    sample_stopped"
proof -
  let ?E = sample_engine
  have 1: "backend_step ?E sample_after CloseDone (sample_after\<lparr>b_done := True\<rparr>)"
    by (rule bs_close)
  have 2: "backend_step ?E (sample_after\<lparr>b_done := True\<rparr>) SeeDone
      (sample_after\<lparr>b_done := True, b_worker := Draining\<rparr>)"
    by (rule step_eq, rule bs_see_done) (simp_all add: sample_after_def)
  have 3: "backend_step ?E (sample_after\<lparr>b_done := True, b_worker := Draining\<rparr>) WorkerExit
      sample_stopped"
    by (rule step_eq, rule bs_exit) (simp_all add: sample_after_def sample_stopped_def)
  show ?thesis
    using run_snoc [OF run_snoc [OF run_snoc [OF sample_run 1] 2] 3] by simp
qed

text \<open>
  C4. Conservation of records in every interleaving of producers and worker: the accepted records
  are, in order, those processed, the one being written and those queued (so none is lost, repeated
  or reordered); the queue never exceeds 1024; and the drop counter counts the refused records.
\<close>

theorem queue_conservation:
  assumes "backend_run E (NewUsageBackend db) evs b"
  shows "accepted evs = processed evs @ in_flight (b_worker b) @ b_queue b
    \<and> length (b_queue b) \<le> 1024 \<and> DroppedCount b = of_nat (dropped_events evs)"
  using run_from_new [OF assms] by (simp add: DroppedCount_def defaultQueueSize_def)

lemma queue_conservation_witness:
  "accepted sample_events = processed sample_events @ in_flight (b_worker sample_after)
    @ b_queue sample_after"
  using queue_conservation [OF sample_run [unfolded sample_backend_def]] by blast


lemma sample_attempts: "attempts sample_events = [(sample_usage, True)]"
  by (simp add: sample_events_def sample_booked fault_free_def no_fault_def)


text \<open>
  C37. The two summaries agree after every run: from an empty database, whatever the interleaving of
  producers and worker was and whichever writes failed at whichever statement, the tokens of each key,
  route and month in \<open>monthly_usages\<close> (zero if there is no row) are the sum of the token totals of
  the rows of \<open>daily_usages\<close> with that key and route whose date lies in the month; as long as the totals
  stay within 64 bits (\<open>fits\<close>, no count negative) and the days of the records have two digits.
\<close>

theorem monthly_is_sum_of_daily:
  assumes "backend_run E (NewUsageBackend empty_db) evs b" "fits (map fst (attempts evs))"
    and "\<forall>u \<in> set (committed evs). t_day (r_CreatedAt u) < 100"
  shows "spent_rows (db_monthly (b_db b)) (k, path, m) =
    (\<Sum>d \<leftarrow> filter (\<lambda>d. u_local_key d = k \<and> u_route_path d = path \<and> date_month (u_period d) = m)
       (db_daily (b_db b)). cell_int (u_tokens d))"
proof -
  have "ledger ([] @ committed evs) (b_db b)"
    by (rule run_ledger [OF assms(1)]) (use assms(2) ledger_empty in \<open>simp_all add: NewUsageBackend_def\<close>)
  moreover have "fits ([] @ committed evs)" by (rule fits_committed) (use assms(2) in simp)
  ultimately show ?thesis using ledger_month_sum assms(3) by simp
qed

lemma sample_after_ledger: "ledger [sample_usage] (b_db sample_after)"
  using run_ledger [OF sample_run [unfolded sample_backend_def], of "[]"] ledger_empty sample_usage_fits
  by (simp add: NewUsageBackend_def sample_attempts committed_def)

lemma monthly_is_sum_of_daily_witness:
  "spent_rows (db_monthly (b_db sample_after)) (''k'', ''/a'', format_month sample_time) =
    (\<Sum>d \<leftarrow> filter (\<lambda>d. u_local_key d = ''k'' \<and> u_route_path d = ''/a''
       \<and> date_month (u_period d) = format_month sample_time) (db_daily (b_db sample_after)). cell_int (u_tokens d))
    \<and> spent_rows (db_monthly (b_db sample_after)) (''k'', ''/a'', format_month sample_time) = 7"
proof
  show "spent_rows (db_monthly (b_db sample_after)) (''k'', ''/a'', format_month sample_time) =
    (\<Sum>d \<leftarrow> filter (\<lambda>d. u_local_key d = ''k'' \<and> u_route_path d = ''/a''
       \<and> date_month (u_period d) = format_month sample_time) (db_daily (b_db sample_after)). cell_int (u_tokens d))"
    using monthly_is_sum_of_daily [OF sample_run [unfolded sample_backend_def], of "''k''" "''/a''" "format_month sample_time"]
      sample_usage_fits
    by (simp add: sample_attempts committed_def) (simp add: sample_usage_def sample_time_def zero_time_def)
  show "spent_rows (db_monthly (b_db sample_after)) (''k'', ''/a'', format_month sample_time) = 7"
    using ledger_spent(2) [OF sample_after_ledger sample_usage_fits, of "(''k'', ''/a'', format_month sample_time)"]
    by (simp add: bucket_def bucket_of_def) (simp add: sample_usage_def)
qed

text \<open>
  C35. \<open>Stop\<close> terminates once \<open>done\<close> is closed and no producer interferes: the worker takes at most
  two steps for each queued record plus three, never gets stuck before it has exited, and can reach
  the state where \<open>Stop\<close> returns.
\<close>

theorem Stop_terminates:
  assumes "b_done b"
  shows "(\<forall>evs b'. backend_run E b evs b' \<longrightarrow> list_all worker_event evs \<longrightarrow>
        length evs \<le> 2 * length (b_queue b) + 3
        \<and> (stop_returns b' \<or> (\<exists>ev b''. worker_event ev \<and> backend_step E b' ev b'')))
    \<and> (\<exists>evs b'. list_all worker_event evs \<and> backend_run E b evs b' \<and> stop_returns b')"
proof (intro conjI allI impI)
  fix evs b'
  assume run: "backend_run E b evs b'" "list_all worker_event evs"
  have "worker_rank w \<le> 3" for w by (cases w) simp_all
  then have "drain_measure b \<le> 2 * length (b_queue b) + 3"
    by (simp add: drain_measure_def)
  with worker_run_bounded [OF run] show "length evs \<le> 2 * length (b_queue b) + 3" by simp
  show "stop_returns b' \<or> (\<exists>ev b''. worker_event ev \<and> backend_step E b' ev b'')"
    using worker_step_exists [OF run_done [OF run(1) assms]] by blast
qed (rule drain_exists [OF assms])

lemma Stop_terminates_witness:
  "\<exists>evs b'. list_all worker_event evs
    \<and> backend_run sample_engine (sample_after\<lparr>b_done := True\<rparr>) evs b' \<and> stop_returns b'"
  using Stop_terminates [of "sample_after\<lparr>b_done := True\<rparr>" sample_engine] by simp

text \<open>
  What a shutdown saves and what it does not: the exit of the worker
  splits every run that ends with it exited: every record accepted before it has been processed, and every record accepted after
  it is still in the channel, unprocessed and not counted as dropped.
\<close>

theorem shutdown_boundary:
  assumes "backend_run E (NewUsageBackend db) evs b" "b_worker b = Exited"
  shows "\<exists>pre post. evs = pre @ WorkerExit # post \<and> processed evs = accepted pre
    \<and> b_queue b = accepted post \<and> DroppedCount b = of_nat (dropped_events (pre @ post))"
proof -
  obtain pre post where *: "evs = pre @ WorkerExit # post" "accepted pre = processed pre"
      "b_queue b = accepted post" "processed post = []"
    using exit_point [OF assms] by (auto simp: NewUsageBackend_def)
  moreover have "dropped_events evs = dropped_events (pre @ post)"
    using dropped_events_append [of "[WorkerExit]" post] by (simp add: *(1))
  moreover have "processed evs = processed pre"
    using processed_append [of "[WorkerExit]" post] by (simp add: *)
  ultimately show ?thesis
    using run_from_new(3) [OF assms(1)]
    by (intro exI [of _ pre] exI [of _ post]) (simp add: DroppedCount_def)
qed

lemma shutdown_boundary_witness:
  "\<exists>pre post. sample_events @ [CloseDone, SeeDone, WorkerExit] = pre @ WorkerExit # post
    \<and> processed (sample_events @ [CloseDone, SeeDone, WorkerExit]) = accepted pre"
  using shutdown_boundary [OF sample_stop_run [unfolded sample_backend_def]]
  by (auto simp: sample_stopped_def)

text \<open>
  A burst of calls of \<open>EmitNonBlocking\<close> that meets no receive: the queue keeps the first records
  of the burst up to its capacity, in order, and the drop counter grows by the number of the others.
\<close>

theorem burst_fills_queue:
  assumes "length (b_queue b) \<le> 1024"
  shows "b_queue (fold EmitNonBlocking recs b)
      = b_queue b @ take (1024 - length (b_queue b)) recs
    \<and> DroppedCount (fold EmitNonBlocking recs b)
      = DroppedCount b + of_nat (length recs - (1024 - length (b_queue b)))"
  using channel.burst [of b recs] assms by (simp add: DroppedCount_def defaultQueueSize_def)

lemma burst_fills_queue_witness:
  "b_queue (fold EmitNonBlocking [sample_usage, sample_usage] sample_backend)
    = [sample_usage, sample_usage]"
  using burst_fills_queue [of sample_backend "[sample_usage, sample_usage]"]
  by (simp add: sample_backend_def NewUsageBackend_def)

end
