(* ===== verification/UsageLive.thy ===== *)
theory UsageLive
  imports UsageWorker
begin

text \<open>
  Liveness of the background writer of \<open>internal/usage/worker.go\<close>: on an infinite run in which the Go
  scheduler does not forget the worker goroutine for ever, every record that was accepted before the
  worker exited is written (or its write attempted) sooner or later, and \<open>Stop\<close> returns once no more records are accepted.
\<close>

section \<open>Infinite runs\<close>

definition worker_enabled :: "sqlite \<Rightarrow> backend \<Rightarrow> bool" where
  "worker_enabled E b \<longleftrightarrow> (\<exists>ev b'. worker_event ev \<and> backend_step E b ev b')"

definition infinite_run :: "sqlite \<Rightarrow> (nat \<Rightarrow> backend) \<Rightarrow> (nat \<Rightarrow> backend_event) \<Rightarrow> bool" where
  "infinite_run E s e \<longleftrightarrow> (\<forall>i. backend_step E (s i) (e i) (s (Suc i)))"

text \<open>Weak fairness: a worker that could go on from some point on does go on at some later point.\<close>

definition worker_fair :: "sqlite \<Rightarrow> (nat \<Rightarrow> backend) \<Rightarrow> (nat \<Rightarrow> backend_event) \<Rightarrow> bool" where
  "worker_fair E s e \<longleftrightarrow>
     (\<forall>i. (\<forall>j\<ge>i. worker_enabled E (s j)) \<longrightarrow> (\<exists>j\<ge>i. worker_event (e j)))"

definition worker_running :: "backend \<Rightarrow> bool" where
  "worker_running b \<longleftrightarrow> b_worker b \<noteq> NotStarted \<and> b_worker b \<noteq> Exited"

text \<open>The records the worker still has to write.\<close>

definition pending :: "backend \<Rightarrow> usage_record list" where
  "pending b = in_flight (b_worker b) @ b_queue b"

lemma infinite_run_segment:
  assumes "infinite_run E s e" "i \<le> j"
  shows "backend_run E (s i) (map e [i..<j]) (s j)"
  using assms(2)
proof (induction j rule: dec_induct)
  case base
  then show ?case by (simp add: run_nil)
next
  case (step j)
  have "backend_step E (s j) (e j) (s (Suc j))" using assms(1) by (simp add: infinite_run_def)
  with step show ?case using run_snoc [OF step.IH] by simp
qed

text \<open>Conservation of records from any state on.\<close>

lemma pending_step:
  "backend_step E b ev b' \<Longrightarrow> pending b @ accepted [ev] = processed [ev] @ pending b'"
  by (cases rule: backend_step.cases) (auto simp: pending_def EmitNonBlocking_def)

lemma pending_run:
  "backend_run E b evs b' \<Longrightarrow> pending b @ accepted evs = processed evs @ pending b'"
proof (induction rule: backend_run.induct)
  case (run_snoc evs b' ev b'')
  then show ?case using pending_step [OF run_snoc.hyps(2)] by (metis accepted_append append_assoc processed_append)
qed simp

section \<open>Progress of the worker\<close>

fun live_rank :: "worker_state \<Rightarrow> nat" where
  "live_rank Selecting = 2"
| "live_rank (Writing rec) = 1"
| "live_rank Draining = 1"
| "live_rank w = 0"

text \<open>A step of the worker processes a record or moves it closer to the next one.\<close>

lemma live_step:
  assumes "backend_step E b ev b'" "worker_running b" "pending b \<noteq> []"
  shows "worker_running b'"
    and "\<not> worker_event ev \<Longrightarrow> processed [ev] = [] \<and> live_rank (b_worker b') = live_rank (b_worker b)"
    and "worker_event ev \<Longrightarrow> live_rank (b_worker b') < live_rank (b_worker b) + 3 * length (processed [ev])"
  using assms
  by (cases rule: backend_step.cases;
      simp add: worker_running_def pending_def EmitNonBlocking_def)+

lemma pending_enabled:
  assumes "worker_running b" "pending b \<noteq> []"
  shows "worker_enabled E b"
proof (cases "b_worker b")
  case Selecting
  then obtain rec q where "b_queue b = rec # q" using assms(2) by (cases "b_queue b") (auto simp: pending_def)
  from bs_receive [OF Selecting this] show ?thesis unfolding worker_enabled_def using worker_event.simps(1) by blast
next
  case (Writing rec)
  then show ?thesis unfolding worker_enabled_def using bs_write worker_event.simps(2) by blast
next
  case Draining
  then obtain rec q where "b_queue b = rec # q" using assms(2) by (cases "b_queue b") (auto simp: pending_def)
  from bs_drain_receive [OF Draining this] show ?thesis
    unfolding worker_enabled_def using worker_event.simps(1) by blast
next
  case (DrainWriting rec)
  then show ?thesis unfolding worker_enabled_def using bs_drain_write worker_event.simps(2) by blast
qed (use assms(1) in \<open>simp_all add: worker_running_def\<close>)

text \<open>The number of records written in a segment of a run, and how it grows.\<close>

definition written :: "(nat \<Rightarrow> backend_event) \<Rightarrow> nat \<Rightarrow> nat \<Rightarrow> nat" where
  "written e i j = length (processed (map e [i..<j]))"

lemma written_Suc: "i \<le> j \<Longrightarrow> written e i (Suc j) = written e i j + length (processed [e j])"
  by (simp add: written_def)

lemma written_mono: "j \<le> k \<Longrightarrow> i \<le> j \<Longrightarrow> written e i j \<le> written e i k"
  by (induction k rule: dec_induct) (auto simp: written_Suc)

text \<open>Until the records pending at the start are written, the worker runs and has something to do.\<close>

lemma missed_pending:
  assumes "infinite_run E s e" "i \<le> j" "written e i j < length (pending (s i))"
  shows "pending (s j) \<noteq> []"
proof -
  have "length (pending (s i)) + length (accepted (map e [i..<j]))
      = written e i j + length (pending (s j))"
    using arg_cong [OF pending_run [OF infinite_run_segment [OF assms(1,2)]], of length]
    by (simp add: written_def)
  with assms(3) show ?thesis by auto
qed

lemma missed_running:
  assumes "infinite_run E s e" "worker_running (s i)" "i \<le> j"
    and "written e i j < length (pending (s i))"
  shows "worker_running (s j)"
  using assms(3,4)
proof (induction j rule: dec_induct)
  case (step j)
  have le: "written e i j < length (pending (s i))"
    using step.prems written_mono [of j "Suc j" i e] step.hyps(1) by simp
  have "backend_step E (s j) (e j) (s (Suc j))" using assms(1) by (simp add: infinite_run_def)
  from live_step(1) [OF this step.IH [OF le] missed_pending [OF assms(1) step.hyps(1) le]]
  show ?case .
qed (rule assms(2))

lemma pending_written:
  assumes run: "infinite_run E s e" and fair: "worker_fair E s e" and start: "worker_running (s i)"
  shows "\<exists>j\<ge>i. length (pending (s i)) \<le> written e i j"
proof (rule eventually_by_measure)
  let ?m = "\<lambda>j. 3 * (length (pending (s i)) - written e i j) + live_rank (b_worker (s j))"
  fix j
  have one: "if worker_event (e k) then ?m (Suc k) < ?m k else ?m (Suc k) = ?m k"
    if k: "i \<le> k" "\<not> length (pending (s i)) \<le> written e i k" for k
  proof -
    have less: "written e i k < length (pending (s i))" using k(2) by simp
    have step: "backend_step E (s k) (e k) (s (Suc k))" using run by (simp add: infinite_run_def)
    note live = live_step [OF step missed_running [OF run start k(1) less] missed_pending [OF run k(1) less]]
    have "length (processed [e k]) \<le> 1" by (cases "e k") simp_all
    with live(2,3) less written_Suc [OF k(1), of e] show ?thesis by auto
  qed
  assume ij: "i \<le> j"
  show "?m (Suc j) \<le> ?m j" if "\<not> length (pending (s i)) \<le> written e i j"
    using one [OF ij that] by (simp split: if_splits)
  assume missed: "\<forall>k\<ge>j. \<not> length (pending (s i)) \<le> written e i k"
  have "worker_enabled E (s k)" if "j \<le> k" for k
  proof -
    have k: "i \<le> k" "written e i k < length (pending (s i))" using ij that missed by auto
    show ?thesis
      by (rule pending_enabled [OF missed_running [OF run start k] missed_pending [OF run k]])
  qed
  then obtain k where "j \<le> k" "worker_event (e k)" using fair by (auto simp: worker_fair_def)
  with one [of k] missed ij show "\<exists>k\<ge>j. ?m (Suc k) < ?m k" by (metis order_trans)
qed

section \<open>Progress of Stop\<close>

lemma quiet_step:
  "backend_step E b ev b' \<Longrightarrow> accepted [ev] = [] \<Longrightarrow> \<not> worker_event ev \<Longrightarrow> b_worker b \<noteq> NotStarted \<Longrightarrow>
    drain_measure b' = drain_measure b"
  by (cases rule: backend_step.cases) (auto simp: drain_measure_def EmitNonBlocking_def)

lemma step_started:
  "backend_step E b ev b' \<Longrightarrow> b_worker b \<noteq> NotStarted \<Longrightarrow> b_worker b' \<noteq> NotStarted"
  by (cases rule: backend_step.cases) (auto simp: EmitNonBlocking_def)

lemma quiet_stop:
  assumes run: "infinite_run E s e" and fair: "worker_fair E s e"
    and start: "b_worker (s i) \<noteq> NotStarted" "b_done (s i)"
    and quiet: "\<forall>j\<ge>i. accepted [e j] = []"
  shows "\<exists>j\<ge>i. stop_returns (s j)"
proof (rule eventually_by_measure)
  have step: "backend_step E (s k) (e k) (s (Suc k))" for k using run by (simp add: infinite_run_def)
  have inv: "b_worker (s k) \<noteq> NotStarted \<and> b_done (s k)" if "i \<le> k" for k
    using that by (induction k rule: dec_induct) (use start step_started step_done step in blast)+
  have one: "if worker_event (e k) then drain_measure (s (Suc k)) < drain_measure (s k)
      else drain_measure (s (Suc k)) = drain_measure (s k)" if "i \<le> k" for k
    using worker_step_decreases [OF step] quiet_step [OF step] quiet inv [OF that] that by simp
  fix j
  assume ij: "i \<le> j"
  show "drain_measure (s (Suc j)) \<le> drain_measure (s j)" if "\<not> stop_returns (s j)"
    using one [OF ij] by (simp split: if_splits)
  assume missed: "\<forall>k\<ge>j. \<not> stop_returns (s k)"
  then have "worker_enabled E (s k)" if "j \<le> k" for k
    unfolding worker_enabled_def using worker_step_exists [of "s k" E] inv [of k] ij that by simp
  then obtain k where "j \<le> k" "worker_event (e k)" using fair by (auto simp: worker_fair_def)
  with one [of k] ij show "\<exists>k\<ge>j. drain_measure (s (Suc k)) < drain_measure (s k)"
    by (metis order_trans)
qed

section \<open>Properties\<close>

text \<open>A run that drains one record and then only sees further calls of \<open>Stop\<close>.\<close>

definition live_states :: "nat \<Rightarrow> backend" where
  "live_states i =
     (let b = (NewUsageBackend empty_db)\<lparr>b_done := True\<rparr>;
          d = b\<lparr>b_db := writeRecord sample_engine no_fault sample_time ''now'' sample_usage empty_db\<rparr>
      in if i = 0 then b\<lparr>b_queue := [sample_usage], b_worker := Draining\<rparr>
         else if i = 1 then b\<lparr>b_worker := DrainWriting sample_usage\<rparr>
         else if i = 2 then d\<lparr>b_worker := Draining\<rparr>
         else d\<lparr>b_worker := Exited\<rparr>)"

definition live_events :: "nat \<Rightarrow> backend_event" where
  "live_events i =
     (if i = 0 then Receive sample_usage
      else if i = 1 then Write sample_usage no_fault sample_time ''now''
      else if i = 2 then WorkerExit
      else CloseDone)"

lemma live_run: "infinite_run sample_engine live_states live_events"
  unfolding infinite_run_def
proof
  fix i :: nat
  consider "i = 0" | "i = 1" | "i = 2" | "3 \<le> i" by linarith
  then show "backend_step sample_engine (live_states i) (live_events i) (live_states (Suc i))"
  proof cases
    case 1
    show ?thesis unfolding 1
      by (simp add: live_events_def)
         (rule step_eq, rule bs_drain_receive, simp_all add: live_states_def Let_def NewUsageBackend_def)
  next
    case 2
    show ?thesis unfolding 2
      by (simp add: live_events_def)
         (rule step_eq, rule bs_drain_write, simp_all add: live_states_def Let_def NewUsageBackend_def)
  next
    case 3
    show ?thesis unfolding 3
      by (simp add: live_events_def)
         (rule step_eq, rule bs_exit, simp_all add: live_states_def Let_def NewUsageBackend_def)
  next
    case 4
    then show ?thesis
      by (simp add: live_events_def)
         (rule step_eq, rule bs_close, simp_all add: live_states_def Let_def NewUsageBackend_def)
  qed
qed

lemma live_fair: "worker_fair sample_engine live_states live_events"
  unfolding worker_fair_def
proof (intro allI impI)
  fix i
  assume enabled: "\<forall>j\<ge>i. worker_enabled sample_engine (live_states j)"
  have "b_worker (live_states (i + 3)) = Exited" by (simp add: live_states_def Let_def)
  then have "\<not> worker_enabled sample_engine (live_states (i + 3))"
    by (auto simp: worker_enabled_def elim!: backend_stepE)
  with enabled show "\<exists>j\<ge>i. worker_event (live_events j)" by (meson le_add1)
qed

text \<open>
  C12. What is accepted while the worker runs is taken to the database in the end: on an infinite run
  on which the started worker is not starved, what is in flight and queued at a moment at which the
  worker has not exited is, from then on, attempted to be written, in that order, after finitely
  many steps; producers and calls of \<open>Stop\<close> cannot prevent it. The exit of the worker is the exact
  boundary: after it nothing is written any more, whatever is accepted.
\<close>

theorem accepted_eventually_written:
  assumes "infinite_run E s e" "worker_fair E s e" "b_worker (s i) \<noteq> NotStarted"
  shows "if b_worker (s i) = Exited then \<forall>j\<ge>i. processed (map e [i..<j]) = []
    else \<exists>j\<ge>i. prefix (in_flight (b_worker (s i)) @ b_queue (s i)) (processed (map e [i..<j]))"
proof (cases "b_worker (s i) = Exited")
  case True
  then show ?thesis using exited_run [OF infinite_run_segment [OF assms(1)]] by simp
next
  case False
  then have "worker_running (s i)" using assms(3) by (simp add: worker_running_def)
  from pending_written [OF assms(1,2) this]
  obtain j where j: "i \<le> j" "length (pending (s i)) \<le> length (processed (map e [i..<j]))"
    by (auto simp: written_def)
  have "pending (s i) @ accepted (map e [i..<j]) = processed (map e [i..<j]) @ pending (s j)"
    by (rule pending_run [OF infinite_run_segment [OF assms(1) j(1)]])
  then have "prefix (pending (s i)) (processed (map e [i..<j]))"
    using j(2) by (metis prefixI prefix_length_prefix)
  with j(1) False show ?thesis by (auto simp: pending_def)
qed

lemma accepted_eventually_written_witness:
  "\<exists>j. sample_usage \<in> set (processed (map live_events [0..<j]))"
proof -
  have "b_worker (live_states 0) = Draining" "b_queue (live_states 0) = [sample_usage]"
    by (simp_all add: live_states_def Let_def)
  with accepted_eventually_written [OF live_run live_fair, of 0]
  obtain j where "prefix [sample_usage] (processed (map live_events [0..<j]))" by auto
  then obtain t where "processed (map live_events [0..<j]) = [sample_usage] @ t" by (rule prefixE)
  then show ?thesis by (intro exI [of _ j]) simp
qed

text \<open>
  C27. \<open>Stop\<close> returns in the end: once the channel \<open>done\<close> is closed and no further record is
  accepted, a worker that is not starved exits after finitely many steps, whatever is dropped and
  however often \<open>Stop\<close> is called meanwhile.
\<close>

theorem Stop_eventually_returns:
  assumes "infinite_run E s e" "worker_fair E s e"
    and "b_worker (s i) \<noteq> NotStarted" "b_done (s i)" "\<forall>j\<ge>i. accepted [e j] = []"
  shows "\<exists>j\<ge>i. stop_returns (s j) \<and> b_worker (s j) = Exited"
proof -
  obtain j where j: "i \<le> j" "stop_returns (s j)" using quiet_stop [OF assms] by blast
  have step: "backend_step E (s k) (e k) (s (Suc k))" for k
    using assms(1) by (simp add: infinite_run_def)
  have "b_worker (s j) \<noteq> NotStarted"
    using j(1) by (induction j rule: dec_induct) (use assms(3) step_started step in blast)+
  with j show ?thesis by (auto simp: stop_returns_def)
qed

lemma Stop_eventually_returns_witness: "\<exists>j. stop_returns (live_states j)"
proof -
  have "accepted [live_events j] = []" for j by (simp add: live_events_def)
  moreover have "b_worker (live_states 0) \<noteq> NotStarted" "b_done (live_states 0)"
    by (simp_all add: live_states_def Let_def)
  ultimately show ?thesis using Stop_eventually_returns [OF live_run live_fair, of 0] by blast
qed

end
