(* ===== verification/Gateway.thy ===== *)
theory Gateway
  imports Proxy Admin UsageLive "HOL-Library.Multiset"
begin

text \<open>
  The running gateway as a whole: the administrator changes the credential store, requests pass the
  interceptor of \<open>internal/proxy/proxy.go\<close> and are in flight until the vendor has answered and their
  usage record was emitted, and the background worker writes the records to the database that the
  interceptor reads. All these interleave, so the composition is a step relation over the store, the
  requests in flight and the backend. The interceptor is one step: it writes nothing, and what it
  reads of the store and the database it reads in that step (\<open>Admission\<close> takes it apart). What a request in flight does depends on
  nothing that changes, so it is one step too, at the time its record is emitted.
\<close>

section \<open>State and steps\<close>

text \<open>What does not change while the gateway runs.\<close>

record deployment =
  d_sha :: "string \<Rightarrow> string"
  d_gjson :: gjson
  d_sjson :: sjson
  d_engine :: sqlite
  d_cfg :: apml_config
  d_routes :: "proxy_route list"

text \<open>A request that passed the interceptor: its route, the values set in its context, its rest.\<close>

record flight =
  fl_route :: proxy_route
  fl_context :: auth_context
  fl_request :: request

record gateway =
  gw_store :: key_store
  gw_flights :: "flight list"
  gw_backend :: backend

definition quota_env_of :: "deployment \<Rightarrow> (string \<Rightarrow> string option) \<Rightarrow> go_time \<Rightarrow> gateway \<Rightarrow> quota_env" where
  "quota_env_of D fault now g =
     \<lparr>qe_engine = d_engine D, qe_gjson = d_gjson D, qe_fault = fault, qe_now = now,
      qe_db = b_db (gw_backend g)\<rparr>"

definition proxy_outcome ::
  "deployment \<Rightarrow> (out_request \<Rightarrow> string + response) \<Rightarrow> go_time \<Rightarrow> stream_timing \<Rightarrow> flight \<Rightarrow> outcome" where
  "proxy_outcome D upstream now tm fl =
     handleReverseProxy (d_gjson D) (d_sjson D) (d_cfg D) (fl_route fl) upstream now tm
       (fl_context fl) (fl_request fl)"

datatype gw_event =
    KeyAdded "admin_error + string"
  | KeyDeleted string bool
  | Admitted "string \<Rightarrow> string option" go_time request flight
  | Refused deny
  | Answered flight "backend_event option"
  | Failed flight
  | Background backend_event

fun own_event :: "backend_event \<Rightarrow> bool" where
  "own_event (Accept rec) = False"
| "own_event (Drop rec) = False"
| "own_event ev = True"

inductive gw_step :: "deployment \<Rightarrow> gateway \<Rightarrow> gw_event \<Rightarrow> gateway \<Rightarrow> bool" for D where
  gw_add: "handle_AddKey (d_sha D) (d_cfg D) route realKey al ud rd (gw_store g) = (res, store) \<Longrightarrow>
    (\<And>uid bytes. ud = Inr uid \<Longrightarrow> rd = Inr bytes \<Longrightarrow> fresh_for (d_sha D) uid bytes (gw_store g)) \<Longrightarrow>
    gw_step D g (KeyAdded res) (g\<lparr>gw_store := store\<rparr>)"
| gw_delete: "handle_DeleteKey uid (gw_store g) = (found, store) \<Longrightarrow>
    gw_step D g (KeyDeleted uid found) (g\<lparr>gw_store := store\<rparr>)"
| gw_admit: "r \<in> set (d_routes D) \<Longrightarrow>
    authInterceptor (d_sha D) (d_cfg D) (gw_store g) (quota_env_of D fault now g) (pr_routePath r) rq
      = Inr (cx, rq') \<Longrightarrow>
    fl = \<lparr>fl_route = r, fl_context = cx, fl_request = rq'\<rparr> \<Longrightarrow>
    gw_step D g (Admitted fault now rq fl) (g\<lparr>gw_flights := gw_flights g @ [fl]\<rparr>)"
| gw_refuse: "r \<in> set (d_routes D) \<Longrightarrow>
    authInterceptor (d_sha D) (d_cfg D) (gw_store g) (quota_env_of D fault now g) (pr_routePath r) rq
      = Inl d \<Longrightarrow>
    gw_step D g (Refused d) g"
| gw_silent: "fl \<in> set (gw_flights g) \<Longrightarrow>
    proxy_outcome D upstream now tm fl = Forwarded out res None \<Longrightarrow>
    gw_step D g (Answered fl None) (g\<lparr>gw_flights := remove1 fl (gw_flights g)\<rparr>)"
| gw_billed: "fl \<in> set (gw_flights g) \<Longrightarrow>
    proxy_outcome D upstream now tm fl = Forwarded out res (Some rec) \<Longrightarrow>
    ev = Accept rec \<or> ev = Drop rec \<Longrightarrow> backend_step (d_engine D) (gw_backend g) ev b \<Longrightarrow>
    gw_step D g (Answered fl (Some ev))
      (g\<lparr>gw_flights := remove1 fl (gw_flights g), gw_backend := b\<rparr>)"
| gw_failed: "fl \<in> set (gw_flights g) \<Longrightarrow>
    (\<exists>out err. proxy_outcome D upstream now tm fl = BadGateway out err)
      \<or> proxy_outcome D upstream now tm fl = Panicked \<Longrightarrow>
    gw_step D g (Failed fl) (g\<lparr>gw_flights := remove1 fl (gw_flights g)\<rparr>)"
| gw_background: "own_event ev \<Longrightarrow> backend_step (d_engine D) (gw_backend g) ev b \<Longrightarrow>
    gw_step D g (Background ev) (g\<lparr>gw_backend := b\<rparr>)"

inductive_cases gw_stepE: "gw_step D g ev g'"

inductive_cases gw_admitE: "gw_step D g (Admitted fault now rq fl) g'"

inductive gw_run :: "deployment \<Rightarrow> gateway \<Rightarrow> gw_event list \<Rightarrow> gateway \<Rightarrow> bool" for D g where
  gw_nil: "gw_run D g [] g"
| gw_snoc: "gw_run D g evs g' \<Longrightarrow> gw_step D g' ev g'' \<Longrightarrow> gw_run D g (evs @ [ev]) g''"

text \<open>The gateway as \<open>initServices\<close> builds it, the worker not yet started: no keys, no requests, and the database as it was found.\<close>

definition gw_start :: "usage_db \<Rightarrow> gateway" where
  "gw_start db = \<lparr>gw_store = NewStore, gw_flights = [], gw_backend = NewUsageBackend db\<rparr>"

section \<open>What a run did\<close>

fun backend_events :: "gw_event list \<Rightarrow> backend_event list" where
  "backend_events [] = []"
| "backend_events (Answered fl (Some ev) # evs) = ev # backend_events evs"
| "backend_events (Background ev # evs) = ev # backend_events evs"
| "backend_events (ev # evs) = backend_events evs"

fun admitted :: "gw_event list \<Rightarrow> flight list" where
  "admitted [] = []"
| "admitted (Admitted fault now rq fl # evs) = fl # admitted evs"
| "admitted (ev # evs) = admitted evs"

text \<open>Requests that ended without a usage record.\<close>

fun unbilled :: "gw_event list \<Rightarrow> flight list" where
  "unbilled [] = []"
| "unbilled (Answered fl None # evs) = fl # unbilled evs"
| "unbilled (Failed fl # evs) = fl # unbilled evs"
| "unbilled (ev # evs) = unbilled evs"

text \<open>Requests that ended with a usage record.\<close>

fun billed :: "gw_event list \<Rightarrow> flight list" where
  "billed [] = []"
| "billed (Answered fl (Some ev) # evs) = fl # billed evs"
| "billed (ev # evs) = billed evs"

text \<open>The records handed to the backend, kept or not.\<close>

fun offered :: "backend_event list \<Rightarrow> usage_record list" where
  "offered [] = []"
| "offered (Accept rec # evs) = rec # offered evs"
| "offered (Drop rec # evs) = rec # offered evs"
| "offered (ev # evs) = offered evs"

text \<open>The records among them that met a full queue.\<close>

fun dropped :: "backend_event list \<Rightarrow> usage_record list" where
  "dropped [] = []"
| "dropped (Drop rec # evs) = rec # dropped evs"
| "dropped (ev # evs) = dropped evs"

lemma backend_events_append [simp]:
  "backend_events (evs @ evs') = backend_events evs @ backend_events evs'"
  by (induction evs rule: backend_events.induct) simp_all

lemma admitted_append [simp]: "admitted (evs @ evs') = admitted evs @ admitted evs'"
  by (induction evs rule: admitted.induct) simp_all

lemma unbilled_append [simp]: "unbilled (evs @ evs') = unbilled evs @ unbilled evs'"
  by (induction evs rule: unbilled.induct) simp_all

lemma offered_append [simp]: "offered (evs @ evs') = offered evs @ offered evs'"
  by (induction evs rule: offered.induct) simp_all

lemma billed_append [simp]: "billed (evs @ evs') = billed evs @ billed evs'"
  by (induction evs rule: billed.induct) simp_all

lemma dropped_append [simp]: "dropped (evs @ evs') = dropped evs @ dropped evs'"
  by (induction evs rule: dropped.induct) simp_all

lemma length_dropped: "length (dropped evs) = dropped_events evs"
  by (induction evs rule: dropped.induct) simp_all

lemma mset_offered: "mset (offered evs) = mset (dropped evs) + mset (accepted evs)"
  by (induction evs rule: offered.induct) simp_all

lemma offered_own [simp]: "own_event ev \<Longrightarrow> offered [ev] = [] \<and> accepted [ev] = []"
  by (cases ev) simp_all

section \<open>The parts of a run\<close>

text \<open>A run of the gateway is a run of the backend under the records it emits.\<close>

lemma gw_run_backend:
  "gw_run D g evs g' \<Longrightarrow>
    backend_run (d_engine D) (gw_backend g) (backend_events evs) (gw_backend g')"
proof (induction rule: gw_run.induct)
  case gw_nil
  then show ?case by (simp add: run_nil)
next
  case (gw_snoc evs g' ev g'')
  from gw_snoc.hyps(2) gw_snoc.IH show ?case
    by (cases rule: gw_step.cases) (auto intro: run_snoc)
qed

lemma gw_run_store:
  "gw_run D g evs g' \<Longrightarrow> store_ok (d_sha D) (gw_store g) \<Longrightarrow> store_ok (d_sha D) (gw_store g')"
proof (induction rule: gw_run.induct)
  case (gw_snoc evs g' ev g'')
  from gw_snoc.hyps(2) gw_snoc.IH [OF gw_snoc.prems] show ?case
  proof (cases rule: gw_step.cases)
    case (gw_add route realKey al ud rd res store)
    then have "store = gw_store g'
        \<or> store = snd (AddKey (d_sha D) route realKey al ud rd (gw_store g'))"
      using handle_AddKey_store [of "d_sha D" "d_cfg D" route realKey al ud rd "gw_store g'"] by simp
    then show ?thesis
      using gw_snoc.IH [OF gw_snoc.prems] gw_add AddKey_ok by auto
  next
    case (gw_delete uid found store)
    then show ?thesis
      using DeleteKey_ok [OF gw_snoc.IH [OF gw_snoc.prems], of uid] by (simp add: handle_DeleteKey_def)
  qed simp_all
qed

text \<open>Every request that was admitted is in flight or has ended, with or without a record.\<close>

lemma gw_run_flights_mset:
  "gw_run D g evs g' \<Longrightarrow>
    mset (gw_flights g) + mset (admitted evs)
      = mset (gw_flights g') + mset (unbilled evs) + mset (billed evs)"
proof (induction rule: gw_run.induct)
  case (gw_snoc evs g' ev g'')
  from gw_snoc.hyps(2) gw_snoc.IH show ?case by (cases rule: gw_step.cases) simp_all
qed simp

text \<open>How a request ends without a record.\<close>

definition without_record :: "outcome \<Rightarrow> bool" where
  "without_record o1 \<longleftrightarrow>
     (case o1 of
        Denied d \<Rightarrow> False
      | Panicked \<Rightarrow> True
      | BadGateway out err \<Rightarrow> True
      | Forwarded out res rec \<Rightarrow> rec = None \<and> (rs_Status res \<noteq> 200 \<or> body_failed res))"

lemma ModifyResponse_silent:
  "ModifyResponse gj p cx path now tm str res = Some (res', None) \<Longrightarrow> rs_Status res' \<noteq> 200 \<or> body_failed res'"
  by (auto simp: ModifyResponse_def StatusOK_def body_failed_def Let_def
      split: if_splits prod.splits option.splits)

lemma silent_without_record:
  assumes "proxy_outcome D upstream now tm fl = Forwarded out res None"
  shows "without_record (proxy_outcome D upstream now tm fl)"
  using assms
  by (auto simp: without_record_def proxy_outcome_def handleReverseProxy_branches StatusSwitchingProtocols_def
      Let_def dest!: ModifyResponse_silent split: option.splits if_splits prod.splits sum.splits)

lemma gw_run_unbilled:
  "gw_run D g evs g' \<Longrightarrow> fl \<in> set (unbilled evs) \<Longrightarrow>
    \<exists>upstream now tm. without_record (proxy_outcome D upstream now tm fl)"
proof (induction rule: gw_run.induct)
  case (gw_snoc evs g' ev g'')
  from gw_snoc.hyps(2) show ?case
  proof (cases rule: gw_step.cases)
    case (gw_silent fl' upstream now tm out res)
    have "fl \<in> set (unbilled evs) \<or> fl = fl'" using gw_snoc.prems gw_silent(1) by auto
    then show ?thesis using gw_snoc.IH silent_without_record [OF gw_silent(4)] by blast
  next
    case (gw_failed fl' upstream now tm)
    have "without_record (proxy_outcome D upstream now tm fl')"
      using gw_failed(4) by (auto simp: without_record_def)
    moreover have "fl \<in> set (unbilled evs) \<or> fl = fl'" using gw_snoc.prems gw_failed(1) by auto
    ultimately show ?thesis using gw_snoc.IH by blast
  qed (use gw_snoc in auto)
qed simp

section \<open>Where a record comes from\<close>

lemma authInterceptor_authenticated:
  assumes "store_ok sha store" "authInterceptor sha cfg store env routePath rq = Inr (cx, rq')"
  obtains a where "authenticated sha cfg store routePath rq (cx_localKey cx) a"
    "cx = context_of a (cx_localKey cx) rq"
  using assms(2) ks.lookup_iff [OF assms(1)]
  by (auto simp: authInterceptor_def Let_def authenticated_def context_of_def
      split: sum.splits option.splits if_splits)

definition record_of :: "flight \<Rightarrow> usage_record \<Rightarrow> bool" where
  "record_of fl u \<longleftrightarrow> r_LocalKey u = cx_localKey (fl_context fl)
     \<and> r_RoutePath u = pr_routePath (fl_route fl) \<and> r_ClientIP u = cx_clientIP (fl_context fl)"

lemma ModifyResponse_record_of:
  "ModifyResponse gj p cx routePath now tm str res = Some (res', Some u) \<Longrightarrow>
    r_LocalKey u = cx_localKey cx \<and> r_RoutePath u = routePath \<and> r_ClientIP u = cx_clientIP cx"
  by (auto simp: ModifyResponse_def Let_def make_record_sel split: if_splits prod.splits option.splits)

lemma proxy_outcome_record:
  assumes "proxy_outcome D upstream now tm fl = Forwarded out res (Some u)"
  shows "record_of fl u"
proof -
  obtain p where "map_of (cfg_Providers (d_cfg D)) (rc_Provider (pr_routeCfg (fl_route fl))) = Some p"
    using assms
    by (cases "map_of (cfg_Providers (d_cfg D)) (rc_Provider (pr_routeCfg (fl_route fl)))")
       (simp_all add: proxy_outcome_def handleReverseProxy_def)
  from handleReverseProxy_forwarded [OF this assms [unfolded proxy_outcome_def]]
  show ?thesis using ModifyResponse_record_of unfolding record_of_def by metis
qed

lemma gw_run_flight_origin:
  "gw_run D g evs g' \<Longrightarrow> fl \<in> set (gw_flights g') \<Longrightarrow> fl \<in> set (gw_flights g) \<or> fl \<in> set (admitted evs)"
proof (induction arbitrary: fl rule: gw_run.induct)
  case (gw_snoc evs g' ev g'')
  from gw_snoc.hyps(2) gw_snoc.prems
  have "fl \<in> set (gw_flights g') \<or> fl \<in> set (admitted [ev])"
    by (cases rule: gw_step.cases) (auto dest: notin_set_remove1 [rotated] in_set_remove1 [THEN iffD1, rotated] set_remove1_subset [THEN subsetD])
  with gw_snoc.IH show ?case by auto
qed simp

lemma gw_run_billed:
  "gw_run D g evs g' \<Longrightarrow> list_all2 record_of (billed evs) (offered (backend_events evs))"
proof (induction rule: gw_run.induct)
  case (gw_snoc evs g' ev g'')
  from gw_snoc.hyps(2) gw_snoc.IH show ?case
    by (cases rule: gw_step.cases) (auto intro!: list_all2_appendI dest: proxy_outcome_record)
qed simp

lemma gw_run_record_origin:
  "gw_run D g evs g' \<Longrightarrow> u \<in> set (offered (backend_events evs)) \<Longrightarrow>
    \<exists>fl. (fl \<in> set (gw_flights g) \<or> fl \<in> set (admitted evs)) \<and> record_of fl u"
proof (induction rule: gw_run.induct)
  case (gw_snoc evs g' ev g'')
  show ?case
  proof (cases "u \<in> set (offered (backend_events evs))")
    case True
    then show ?thesis using gw_snoc.IH by auto
  next
    case False
    then have new: "u \<in> set (offered (backend_events [ev]))" using gw_snoc.prems by simp
    from gw_snoc.hyps(2) show ?thesis
    proof (cases rule: gw_step.cases)
      case (gw_billed fl upstream now tm out res rec bev b)
      then have "rec = u" using new by auto
      with gw_billed show ?thesis
        using proxy_outcome_record gw_run_flight_origin [OF gw_snoc.hyps(1), of fl] by auto
    qed (use new in auto)
  qed
qed simp

lemma gw_run_admission:
  "gw_run D g evs g' \<Longrightarrow> store_ok (d_sha D) (gw_store g) \<Longrightarrow> fl \<in> set (admitted evs) \<Longrightarrow>
    \<exists>pre post fault now rq g1 a. evs = pre @ Admitted fault now rq fl # post \<and> gw_run D g pre g1
      \<and> authenticated (d_sha D) (d_cfg D) (gw_store g1) (pr_routePath (fl_route fl)) rq
          (cx_localKey (fl_context fl)) a
      \<and> fl_context fl = context_of a (cx_localKey (fl_context fl)) rq"
proof (induction rule: gw_run.induct)
  case (gw_snoc evs g' ev g'')
  show ?case
  proof (cases "fl \<in> set (admitted evs)")
    case True
    then obtain pre post fault now rq g1 a where
      "evs = pre @ Admitted fault now rq fl # post" "gw_run D g pre g1"
      "authenticated (d_sha D) (d_cfg D) (gw_store g1) (pr_routePath (fl_route fl)) rq
          (cx_localKey (fl_context fl)) a"
      "fl_context fl = context_of a (cx_localKey (fl_context fl)) rq"
      using gw_snoc.IH [OF gw_snoc.prems(1)] by blast
    then show ?thesis
      by (intro exI [of _ pre] exI [of _ "post @ [ev]"] exI [of _ fault] exI [of _ now] exI [of _ rq]
          exI [of _ g1] exI [of _ a]) simp
  next
    case False
    then have new: "fl \<in> set (admitted [ev])" using gw_snoc.prems by simp
    from gw_snoc.hyps(2) show ?thesis
    proof (cases rule: gw_step.cases)
      case (gw_admit r fault now rq cx rq' fl')
      then have fl: "fl' = fl" using new by simp
      obtain a where "authenticated (d_sha D) (d_cfg D) (gw_store g') (pr_routePath r) rq (cx_localKey cx) a"
        "cx = context_of a (cx_localKey cx) rq"
        by (rule authInterceptor_authenticated
            [OF gw_run_store [OF gw_snoc.hyps(1) gw_snoc.prems(1)] gw_admit(4)])
      then show ?thesis
        using gw_admit fl gw_snoc.hyps(1)
        by (intro exI [of _ evs] exI [of _ "[]"] exI [of _ fault] exI [of _ now] exI [of _ rq]
            exI [of _ g'] exI [of _ a]) auto
    qed (use new in auto)
  qed
qed simp

section \<open>One window of a quota\<close>

definition window_flight :: "string \<Rightarrow> string \<Rightarrow> string \<Rightarrow> flight \<Rightarrow> bool" where
  "window_flight mode localKey routePath fl \<longleftrightarrow>
     pr_routePath (fl_route fl) = routePath \<and> (mode = ''shared'' \<or> cx_localKey (fl_context fl) = localKey)"

definition window_record :: "string \<Rightarrow> string \<Rightarrow> string \<Rightarrow> usage_record \<Rightarrow> bool" where
  "window_record mode localKey routePath u \<longleftrightarrow>
     r_RoutePath u = routePath \<and> (mode = ''shared'' \<or> r_LocalKey u = localKey)"

text \<open>
  The requests of a window that were admitted and whose tokens are not booked yet: in flight, queued,
  or being written.
\<close>

definition pipeline :: "string \<Rightarrow> string \<Rightarrow> string \<Rightarrow> gateway \<Rightarrow> nat" where
  "pipeline mode localKey routePath g =
     length (filter (window_flight mode localKey routePath) (gw_flights g))
     + length (filter (window_record mode localKey routePath) (pending (gw_backend g)))"

definition tried :: "gw_event list \<Rightarrow> usage_record list" where
  "tried evs = map fst (attempts (backend_events evs))"

lemma tried_append [simp]: "tried (evs @ evs') = tried evs @ tried evs'"
  by (simp add: tried_def)

lemma window_record_of:
  "record_of fl u \<Longrightarrow> window_record mode localKey routePath u = window_flight mode localKey routePath fl"
  by (simp add: record_of_def window_record_def window_flight_def)

lemma window_record_booked [simp]:
  "window_record mode localKey routePath (booked rec now) = window_record mode localKey routePath rec"
  by (simp add: window_record_def booked_def)

lemma filter_remove1_length:
  "x \<in> set xs \<Longrightarrow> length (filter P (remove1 x xs)) + (if P x then 1 else 0) = length (filter P xs)"
  by (induction xs) auto

text \<open>A request of the window is admitted to the pipeline, and leaves it when its record is written.\<close>

lemma pipeline_step:
  assumes "gw_step D g ev g'"
  shows "length (filter (window_record mode k path) (tried [ev])) + pipeline mode k path g'
    \<le> pipeline mode k path g + length (filter (window_flight mode k path) (admitted [ev]))"
  using assms
proof (cases rule: gw_step.cases)
  case (gw_silent fl)
  then show ?thesis
    using filter_remove1_length [of fl "gw_flights g" "window_flight mode k path"]
    by (auto simp: pipeline_def tried_def split: if_splits)
next
  case (gw_failed fl)
  then show ?thesis
    using filter_remove1_length [of fl "gw_flights g" "window_flight mode k path"]
    by (auto simp: pipeline_def tried_def split: if_splits)
next
  case (gw_billed fl upstream now tm out res rec bev b)
  then have "window_record mode k path rec = window_flight mode k path fl"
    using window_record_of [OF proxy_outcome_record] by blast
  moreover have "pending b = pending (gw_backend g) @ accepted [bev]"
    using pending_step [OF gw_billed(6)] gw_billed(5) by auto
  ultimately show ?thesis
    using gw_billed filter_remove1_length [of fl "gw_flights g" "window_flight mode k path"]
    by (auto simp: pipeline_def tried_def split: if_splits)
next
  case (gw_background bev b)
  have "pending (gw_backend g) = processed [bev] @ pending b"
    using pending_step [OF gw_background(4)] offered_own [OF gw_background(3)] by simp
  moreover have "length (filter (window_record mode k path) (map fst (attempts [bev])))
      = length (filter (window_record mode k path) (processed [bev]))"
    by (cases bev) simp_all
  ultimately show ?thesis using gw_background by (simp add: pipeline_def tried_def)
qed (simp_all add: pipeline_def tried_def)

lemma pipeline_run:
  "gw_run D g evs g' \<Longrightarrow> filter (window_flight mode k path) (admitted evs) = [] \<Longrightarrow>
    length (filter (window_record mode k path) (tried evs)) + pipeline mode k path g'
      \<le> pipeline mode k path g"
proof (induction rule: gw_run.induct)
  case (gw_snoc evs g' ev g'')
  then show ?case using pipeline_step [OF gw_snoc.hyps(2), of mode k path] by simp
qed (simp add: tried_def)

section \<open>An admission\<close>

text \<open>The routes are those \<open>setupRoutes\<close> registered for a configuration \<open>Parse\<close> accepted.\<close>

definition deployed :: "deployment \<Rightarrow> bool" where
  "deployed D \<longleftrightarrow> config_ok (d_cfg D) \<and> routes_ok (d_cfg D)
     \<and> setupRoutes (d_cfg D) = Inr (d_routes D)"

lemma ResolveQuota_ok: "config_ok c \<Longrightarrow> ResolveQuota c path = (q, True) \<Longrightarrow> quota_ok q"
  by (auto simp: ResolveQuota_def config_ok_quota split: option.splits if_splits)

lemma admission:
  assumes "deployed D" "store_ok (d_sha D) (gw_store g)"
    and "gw_step D g (Admitted fault now rq fl) g'"
  shows "c_Allowed (quota_result (d_cfg D) (quota_env_of D fault now g) (pr_routePath (fl_route fl)) rq
      (cx_localKey (fl_context fl)))"
    and "gw_store g' = gw_store g" "gw_backend g' = gw_backend g" "gw_flights g' = gw_flights g @ [fl]"
proof -
  from assms(3) obtain r cx rq' where
    r: "r \<in> set (d_routes D)"
    and ic: "authInterceptor (d_sha D) (d_cfg D) (gw_store g) (quota_env_of D fault now g)
      (pr_routePath r) rq = Inr (cx, rq')"
    and fl: "fl = \<lparr>fl_route = r, fl_context = cx, fl_request = rq'\<rparr>"
    and g': "g' = g\<lparr>gw_flights := gw_flights g @ [fl]\<rparr>"
    by (rule gw_admitE) blast
  show "gw_store g' = gw_store g" "gw_backend g' = gw_backend g" "gw_flights g' = gw_flights g @ [fl]"
    by (simp_all add: g')
  from assms(1) have ok: "config_ok (d_cfg D)" "routes_ok (d_cfg D)"
    "setupRoutes (d_cfg D) = Inr (d_routes D)"
    by (simp_all add: deployed_def)
  have dom: "pr_routePath r \<in> dom (map_of (cfg_Routes (d_cfg D)))"
    using registered_route [OF ok(3) r ok(2)] by blast
  obtain a where auth: "authenticated (d_sha D) (d_cfg D) (gw_store g) (pr_routePath r) rq (cx_localKey cx) a"
    by (rule authInterceptor_authenticated [OF assms(2) ic])
  from authInterceptor_ok [OF assms(2) ok(1) dom auth, of "quota_env_of D fault now g"] ic
  show "c_Allowed (quota_result (d_cfg D) (quota_env_of D fault now g) (pr_routePath (fl_route fl)) rq
      (cx_localKey (fl_context fl)))"
    by (simp add: fl split: if_splits)
qed

text \<open>A window after an admission and everything that was written since.\<close>

lemma window_after:
  assumes run: "gw_run D g1 evs g2"
    and quiet: "filter (window_flight mode k path) (admitted evs) = []"
    and bound: "\<forall>u \<in> set (tried evs). window_record mode k path u \<longrightarrow> sint (r_TotalTokens u) \<le> B" "0 \<le> B"
  shows "used_tokens mode k path fmt now (committed (backend_events evs))
    \<le> int (pipeline mode k path g1) * B"
proof (rule used_tokens_bounded)
  let ?c = "committed (backend_events evs)"
  have sub: "subseq ?c (tried evs)"
    unfolding committed_def tried_def by (intro subseq_map subseq_filter_left)
  then have "set ?c \<subseteq> set (tried evs)" by (auto elim: list_emb_set)
  then show "\<forall>r \<in> set ?c. r_RoutePath r = path \<longrightarrow> (mode = ''shared'' \<or> r_LocalKey r = k) \<longrightarrow>
      sint (r_TotalTokens r) \<le> B"
    using bound(1) by (auto simp: window_record_def)
  have "length (filter (window_record mode k path) ?c)
      \<le> length (filter (window_record mode k path) (tried evs))"
    by (rule list_emb_length [OF subseq_filter [OF sub]])
  also have "\<dots> \<le> pipeline mode k path g1"
    using pipeline_run [OF run quiet] by simp
  finally show "length (filter (\<lambda>r. r_RoutePath r = path \<and> (mode = ''shared'' \<or> r_LocalKey r = k)) ?c)
      \<le> pipeline mode k path g1"
    by (simp add: window_record_def [abs_def])
qed (rule bound(2))

section \<open>Properties\<close>

text \<open>One key, one admitted request and its record, for the instances.\<close>

definition sample_deployment :: deployment where
  "sample_deployment = \<lparr>d_sha = id, d_gjson = sample_gjson, d_sjson = sample_sjson,
     d_engine = sample_engine, d_cfg = sample_config, d_routes = [sample_route]\<rparr>"

definition sample_gateway :: gateway where
  "sample_gateway = (gw_start empty_db)\<lparr>gw_store := sample_store\<rparr>"

definition sample_flight :: flight where
  "sample_flight = \<lparr>fl_route = sample_route,
     fl_context = context_of sample_record (internal_key_of ''xy'') sample_request,
     fl_request = checked_request sample_config ''/a'' sample_request\<rparr>"

definition sample_admission :: gw_event where
  "sample_admission = Admitted no_query_fault sample_time sample_request sample_flight"

definition sample_emitted :: usage_record where
  "sample_emitted = make_record (fl_context sample_flight) ''/a'' sample_time (0, 0)"

definition sample_gateway_run :: "gw_event list" where
  "sample_gateway_run = [KeyAdded (Inr (internal_key_of ''xy'')), sample_admission,
     Answered sample_flight (Some (Accept sample_emitted))]"

lemma sample_path: "pr_routePath sample_route = ''/a''"
  by (simp add: sample_route_def)

lemma sample_deployed: "deployed sample_deployment"
  by (simp add: deployed_def sample_deployment_def sample_config_ok sample_routes_ok sample_setup)

text \<open>The three steps of the sample, whatever the state of the backend is.\<close>

lemma sample_added_with:
  "gw_step sample_deployment ((gw_start empty_db)\<lparr>gw_backend := b\<rparr>)
     (KeyAdded (Inr (internal_key_of ''xy''))) (sample_gateway\<lparr>gw_backend := b\<rparr>)"
proof -
  have "trim_space ''real'' = ''real''" by (rule trim_space_visible) (simp add: visible_def)
  moreover have "\<forall>q \<in> records NewStore. \<not> (kr_Route q = ''/a'' \<and> kr_RealKey q = ''real'')"
    by (simp add: NewStore_def records_def)
  ultimately have "handle_AddKey (d_sha sample_deployment) (d_cfg sample_deployment) ''/a'' ''real'' ''al''
      (Inr ''u'') (Inr ''xy'') (gw_store ((gw_start empty_db)\<lparr>gw_backend := b\<rparr>))
    = (Inr (internal_key_of ''xy''), sample_store)"
    by (simp add: handle_AddKey_def sample_deployment_def gw_start_def sample_store_def AddKey_success)
  from gw_add [OF this] show ?thesis
    by (simp add: fresh_for_def NewStore_def gw_start_def sample_gateway_def)
qed

lemma sample_added:
  "gw_step sample_deployment (gw_start empty_db) (KeyAdded (Inr (internal_key_of ''xy'')))
     sample_gateway"
  using sample_added_with [of "gw_backend (gw_start empty_db)"]
  by (simp add: sample_gateway_def gw_start_def)

lemma sample_admitted_with:
  assumes "b_db b = empty_db"
  shows "gw_step sample_deployment (sample_gateway\<lparr>gw_backend := b\<rparr>) sample_admission
     (sample_gateway\<lparr>gw_backend := b, gw_flights := [sample_flight]\<rparr>)"
proof -
  have env: "quota_env_of sample_deployment no_query_fault sample_time (sample_gateway\<lparr>gw_backend := b\<rparr>)
      = sample_env"
    by (simp add: quota_env_of_def sample_env_def sample_deployment_def assms)
  have "''/a'' \<in> dom (map_of (cfg_Routes sample_config))" by simp
  from authInterceptor_ok [OF sample_ok sample_config_ok this sample_authenticated, of sample_env]
  have "authInterceptor id sample_config sample_store sample_env ''/a'' sample_request
      = Inr (fl_context sample_flight, fl_request sample_flight)"
    using sample_allowed by (simp add: sample_flight_def)
  then have "gw_step sample_deployment (sample_gateway\<lparr>gw_backend := b\<rparr>) sample_admission
      (sample_gateway\<lparr>gw_backend := b, gw_flights := gw_flights sample_gateway @ [sample_flight]\<rparr>)"
    unfolding sample_admission_def
    using gw_admit [where r = sample_route and D = sample_deployment and fault = no_query_fault
        and now = sample_time and g = "sample_gateway\<lparr>gw_backend := b\<rparr>" and rq = sample_request
        and cx = "fl_context sample_flight" and rq' = "fl_request sample_flight" and fl = sample_flight]
    by (simp add: env sample_path sample_flight_def)
       (simp add: sample_deployment_def sample_gateway_def)
  then show ?thesis by (simp add: sample_gateway_def gw_start_def)
qed

lemma sample_admitted:
  "gw_step sample_deployment sample_gateway sample_admission
     (sample_gateway\<lparr>gw_flights := [sample_flight]\<rparr>)"
  using sample_admitted_with [of "gw_backend sample_gateway"]
  by (simp add: sample_gateway_def gw_start_def NewUsageBackend_def)

lemma sample_outcome_billed:
  "\<exists>out res. proxy_outcome sample_deployment sample_upstream sample_time sample_timing sample_flight
      = Forwarded out res (Some sample_emitted)"
proof -
  have counts: "ParseStreamReader sample_gjson ''{}'' sample_provider = (0, 0)"
    by (simp add: ParseStreamReader_def sample_provider_def parseLastStream_def scan_lines.simps LF_def
        max_token_size_def drop_cr_def CR_def last_line_def extractSSEData_def has_prefix_def)
  have p: "map_of (cfg_Providers sample_config) (rc_Provider (pr_routeCfg sample_route))
      = Some sample_provider"
    by (simp add: sample_route_def)
  obtain out where rw: "Rewrite sample_gjson sample_sjson sample_provider (pr_target sample_route)
      (cx_realKey (fl_context sample_flight)) (fl_request sample_flight) = (out, True)"
    by (auto simp: Rewrite_def Let_def sample_flight_def checked_request_def ResolveQuota_def
        sample_request_def is_streaming_def sample_gjson_def)
  obtain res where "ModifyResponse sample_gjson sample_provider (fl_context sample_flight) ''/a''
      sample_time sample_timing True (end_to_end \<lparr>rs_Status = 200, rs_Header = [], rs_Body = BodyStream ''{}'' None\<rparr>)
      = Some (res, Some sample_emitted)" and "rs_Status res = 200"
    by (simp add: ModifyResponse_stream sample_emitted_def sample_timing_def counts)
  moreover have "upgrade_type (rq_Header (fl_request sample_flight)) = []"
    by (simp add: upgrade_type_def header_values_def contains_token_def sample_flight_def
        checked_request_def sample_request_def)
  ultimately show ?thesis
    using rw p by (simp add: proxy_outcome_def sample_deployment_def handleReverseProxy_def
        sample_upstream_def sample_path sample_flight_def printable_name_def StatusSwitchingProtocols_def)
qed

lemma sample_billed_with:
  assumes "b_queue b = []"
  shows "gw_step sample_deployment (sample_gateway\<lparr>gw_backend := b, gw_flights := [sample_flight]\<rparr>)
     (Answered sample_flight (Some (Accept sample_emitted)))
     (sample_gateway\<lparr>gw_backend := EmitNonBlocking sample_emitted b\<rparr>)"
proof -
  obtain out res where out: "proxy_outcome sample_deployment sample_upstream sample_time sample_timing
      sample_flight = Forwarded out res (Some sample_emitted)"
    using sample_outcome_billed by blast
  have "backend_step (d_engine sample_deployment) b (Accept sample_emitted) (EmitNonBlocking sample_emitted b)"
    by (rule bs_accept) (simp add: assms defaultQueueSize_def)
  from gw_billed [OF _ out _ , of "sample_gateway\<lparr>gw_backend := b, gw_flights := [sample_flight]\<rparr>"] this
  show ?thesis by (simp add: sample_gateway_def gw_start_def)
qed

lemma sample_billed:
  "gw_step sample_deployment (sample_gateway\<lparr>gw_flights := [sample_flight]\<rparr>)
     (Answered sample_flight (Some (Accept sample_emitted)))
     (sample_gateway\<lparr>gw_backend := EmitNonBlocking sample_emitted (gw_backend sample_gateway)\<rparr>)"
  using sample_billed_with [of "gw_backend sample_gateway"]
  by (simp add: sample_gateway_def gw_start_def NewUsageBackend_def)

lemma sample_gateway_ran:
  "gw_run sample_deployment (gw_start empty_db) sample_gateway_run
     (sample_gateway\<lparr>gw_backend := EmitNonBlocking sample_emitted (gw_backend sample_gateway)\<rparr>)"
  using gw_snoc [OF gw_snoc [OF gw_snoc [OF gw_nil sample_added] sample_admitted] sample_billed]
  by (simp add: sample_gateway_run_def)



text \<open>
  C22. Every charge goes back to an admission: for each record that was ever handed to the backend,
  whatever ran in between, there is a moment in the past at which a request with the record's key
  was admitted on the record's route, coming from the record's address, and at that moment the key
  store held that key for that route.
\<close>

theorem every_charge_was_admitted:
  assumes "gw_run D (gw_start db) evs g" "u \<in> set (offered (backend_events evs))"
  shows "\<exists>pre post fault now rq fl g1 a. evs = pre @ Admitted fault now rq fl # post
    \<and> gw_run D (gw_start db) pre g1
    \<and> authenticated (d_sha D) (d_cfg D) (gw_store g1) (r_RoutePath u) rq (r_LocalKey u) a
    \<and> r_ClientIP u = rq_ClientIP rq"
proof -
  obtain fl where fl: "fl \<in> set (admitted evs)" "record_of fl u"
    using gw_run_record_origin [OF assms] by (auto simp: gw_start_def)
  have "store_ok (d_sha D) (gw_store (gw_start db))" by (simp add: gw_start_def NewStore_ok)
  from gw_run_admission [OF assms(1) this fl(1)] fl(2)
  show ?thesis unfolding record_of_def context_of_def
    by (metis auth_context.select_convs(3))
qed

lemma every_charge_was_admitted_witness:
  "\<exists>store rq a. authenticated id sample_config store ''/a'' rq (internal_key_of ''xy'') a"
proof -
  have "sample_emitted \<in> set (offered (backend_events sample_gateway_run))"
    by (simp add: sample_gateway_run_def sample_admission_def)
  moreover have "r_RoutePath sample_emitted = ''/a''" "r_LocalKey sample_emitted = internal_key_of ''xy''"
    by (simp_all add: sample_emitted_def make_record_sel sample_flight_def context_of_def)
  ultimately show ?thesis
    using every_charge_was_admitted [OF sample_gateway_ran]
    by (fastforce simp: sample_deployment_def)
qed

text \<open>
  C5. A bound on how far a quota can be exceeded. The check and the booking of the tokens are separate
  steps, so requests that overlap can exceed a limit together. Take the last admission of a window (of
  the key, or in shared mode of the route) whose check met no failing query (a failing query admits
  without a limit), while all totals stay within 64 bits (\<open>fits\<close>, no count negative). Then from this
  admission on the tokens booked for the window, plus the estimate, exceed its limit by at most \<open>n * B\<close>,
  where \<open>n\<close> is the number of requests of the window in the pipeline right after that admission (in flight,
  itself included, queued or being written) and \<open>B\<close> bounds the tokens of each record. The windows are
  the day and the month of the server's local clock at that admission (not of UTC). That the bound is
  reached is not claimed.
\<close>

theorem quota_overshoot:
  assumes "deployed D" "store_ok (d_sha D) (gw_store g)"
    and "gw_step D g (Admitted fault now rq fl) g1" "gw_run D g1 evs g2"
    and "path = pr_routePath (fl_route fl)" "k = cx_localKey (fl_context fl)"
    and "ResolveQuota (d_cfg D) path = (q, True)" "\<forall>p. fault p = None"
    and "filter (window_flight (q_Mode q) k path) (admitted evs) = []"
    and "ledger hist (b_db (gw_backend g))" "fits (hist @ tried evs)"
    and "est = estimateInputTokens (d_gjson D) (fst (read_all (rq_Body rq))) (provider_of (d_cfg D) path)"
    and "0 \<le> sint est" "tally r_TotalTokens hist + sint est < 2 ^ 63"
    and "\<forall>u \<in> set (tried evs). window_record (q_Mode q) k path u \<longrightarrow> sint (r_TotalTokens u) \<le> B" "0 \<le> B"
  shows "ledger (hist @ committed (backend_events evs)) (b_db (gw_backend g2))
    \<and> (q_Daily q \<noteq> 0 \<longrightarrow>
        used_tokens (q_Mode q) k path format_date now (hist @ committed (backend_events evs)) + sint est
          \<le> sint (q_Daily q) + int (pipeline (q_Mode q) k path g1) * B)
    \<and> (q_Monthly q \<noteq> 0 \<longrightarrow>
        used_tokens (q_Mode q) k path format_month now (hist @ committed (backend_events evs)) + sint est
          \<le> sint (q_Monthly q) + int (pipeline (q_Mode q) k path g1) * B)"
proof -
  note adm = admission [OF assms(1-3)]
  have "c_Allowed (QuotaCheck (d_engine D) (d_gjson D) fault now (b_db (gw_backend g)) k path q
      (fst (read_all (rq_Body rq))) (provider_of (d_cfg D) path))"
    using adm(1) by (simp add: quota_result_def assms(5) [symmetric] assms(6) [symmetric] assms(7)
        quota_env_of_def)
  note within = QuotaCheck_allowed_within [OF assms(10) fits_prefix [OF assms(11)] assms(8)
      ResolveQuota_ok [OF _ assms(7)] assms(12-14) this]
  have "config_ok (d_cfg D)" using assms(1) by (simp add: deployed_def)
  note within = within [OF this]
  note after = window_after [OF assms(4,9,15,16)]
  have "ledger (hist @ committed (backend_events evs)) (b_db (gw_backend g2))"
    by (rule run_ledger [OF gw_run_backend [OF assms(4)]])
       (use assms(10,11) adm(3) in \<open>simp_all add: tried_def\<close>)
  then show ?thesis
    using within after [of format_date now] after [of format_month now]
    by (auto simp: used_tokens_append)
qed

lemma quota_overshoot_witness:
  "used_tokens ''shared'' (internal_key_of ''xy'') ''/a'' format_date sample_time [] + 1
     \<le> 10 + int (pipeline ''shared'' (internal_key_of ''xy'') ''/a''
       (sample_gateway\<lparr>gw_flights := [sample_flight]\<rparr>)) * 7"
proof -
  let ?D = sample_deployment
  have store: "store_ok (d_sha ?D) (gw_store sample_gateway)"
    by (simp add: sample_deployment_def sample_gateway_def sample_ok)
  have run: "gw_run ?D (sample_gateway\<lparr>gw_flights := [sample_flight]\<rparr>)
      [Answered sample_flight (Some (Accept sample_emitted))]
      (sample_gateway\<lparr>gw_backend := EmitNonBlocking sample_emitted (gw_backend sample_gateway)\<rparr>)"
    using gw_snoc [OF gw_nil sample_billed] by simp
  have est: "1 = estimateInputTokens (d_gjson ?D) (fst (read_all (rq_Body sample_request)))
      (provider_of (d_cfg ?D) ''/a'')"
    by (simp add: sample_deployment_def sample_provider_of sample_request_def estimateInputTokens_def
        sample_gjson_def sample_provider_def quot_int64_def)
  have k: "internal_key_of ''xy'' = cx_localKey (fl_context sample_flight)"
    and path: "''/a'' = pr_routePath (fl_route sample_flight)"
    by (simp_all add: sample_flight_def context_of_def sample_path)
  have q: "ResolveQuota (d_cfg ?D) ''/a'' = (sample_quota, True)"
    by (simp add: sample_deployment_def ResolveQuota_def)
  have led: "ledger [] (b_db (gw_backend sample_gateway))"
    using ledger_empty by (simp add: sample_gateway_def gw_start_def NewUsageBackend_def)
  have fits: "fits ([] @ tried [Answered sample_flight (Some (Accept sample_emitted))])"
    by (simp add: tried_def fits_def)
  from quota_overshoot [OF sample_deployed store sample_admitted [unfolded sample_admission_def] run path k q
      _ _ led fits est, of 7]
  show ?thesis by (simp add: no_query_fault_def tried_def committed_def sample_quota_def)
qed

end
