(* ===== verification/Certs.thy ===== *)
theory Certs
  imports GoUrl
begin

text \<open>
  Certificates: \<open>internal/tls/cert.go\<close> for the data plane, written to disk, and \<open>grpc/tls.go\<close> for the
  control plane, in memory. Key generation, the serial number and the X.509 library are arguments,
  with their errors. Files are a map from paths to permission and content.
\<close>

section \<open>The host of a base URI\<close>

datatype cert_error =
    InvalidBaseUri url_error
  | NoHost
  | RsaFailed string
  | SerialFailed string
  | CreateFailed string
  | MarshalFailed string
  | KeyPairFailed string
  | CertFileFailed string
  | CertPemFailed string
  | KeyFileFailed string
  | KeyPemFailed string

definition extractHost :: "string \<Rightarrow> cert_error + string" where
  "extractHost baseURI0 =
     (let baseURI = (if \<not> contains_at baseURI0 ''://'' then ''https://'' @ baseURI0 else baseURI0)
      in case url_Parse baseURI of
           Inl m \<Rightarrow> Inl (InvalidBaseUri m)
         | Inr u \<Rightarrow>
             (let host = (if url_Host u = [] then url_Path u else url_Host u)
              in if host = [] then Inl NoHost
                 else Inr (case SplitHostPort host of Some (h, port) \<Rightarrow> h | None \<Rightarrow> host)))"

section \<open>Templates\<close>

record cert_template =
  ct_SerialNumber :: nat
  ct_Organization :: string
  ct_CommonName :: string
  ct_NotBefore :: go_time
  ct_NotAfter :: go_time
  ct_IPAddresses :: "byte list list"
  ct_DNSNames :: "string list"

definition leap_year :: "int \<Rightarrow> bool" where
  "leap_year y \<longleftrightarrow> y mod 4 = 0 \<and> (y mod 100 \<noteq> 0 \<or> y mod 400 = 0)"

text \<open>\<open>AddDate(10, 0, 0)\<close> turns 29 February into 1 March when the year has none.\<close>

definition add_years :: "int \<Rightarrow> go_time \<Rightarrow> go_time" where
  "add_years n t =
     (let t' = t\<lparr>t_year := t_year t + n\<rparr>
      in if t_month t = 2 \<and> t_day t = 29 \<and> \<not> leap_year (t_year t + n)
         then t'\<lparr>t_month := 3, t_day := 1\<rparr> else t')"

definition edge_template ::
  "go_time \<Rightarrow> nat \<Rightarrow> string \<Rightarrow> cert_template" where
  "edge_template now serial host =
     (let t = \<lparr>ct_SerialNumber = serial, ct_Organization = ''ai.local Edge Proxy'',
            ct_CommonName = host, ct_NotBefore = now, ct_NotAfter = add_years 10 now,
            ct_IPAddresses = [], ct_DNSNames = []\<rparr>
      in case ParseIP host of
           Some ip \<Rightarrow> t\<lparr>ct_IPAddresses := ct_IPAddresses t @ [ip]\<rparr>
         | None \<Rightarrow> t\<lparr>ct_DNSNames := ct_DNSNames t @ [host]\<rparr>)"

section \<open>Files\<close>

datatype pem = PemCert string | PemKey string | PemBroken

record disk_file =
  f_perm :: nat
  f_pem :: pem

type_synonym disk = "string \<Rightarrow> disk_file option"

text \<open>What may go wrong while writing: creating or encoding the certificate, the same for the key.\<close>

record cert_env =
  ce_rsa :: "string + string"
  ce_serial :: "string + nat"
  ce_create :: "cert_template \<Rightarrow> string \<Rightarrow> string + string"
  ce_certFile :: "string option"
  ce_certPem :: "string option"
  ce_keyFile :: "string option"
  ce_marshal :: "string \<Rightarrow> string + string"
  ce_keyPem :: "string option"
  ce_umask :: "nat \<Rightarrow> nat"  \<comment> \<open>permission a new file gets for the one asked for\<close>

text \<open>\<open>os.Create\<close> keeps the permission of a file that exists; so does \<open>os.OpenFile\<close>.\<close>

definition open_file :: "cert_env \<Rightarrow> string \<Rightarrow> nat \<Rightarrow> pem \<Rightarrow> disk \<Rightarrow> disk" where
  "open_file env path perm content d =
     d(path \<mapsto> \<lparr>f_perm = (case d path of Some f \<Rightarrow> f_perm f | None \<Rightarrow> ce_umask env perm),
       f_pem = content\<rparr>)"

definition mode_create :: nat where "mode_create = 438"  \<comment> \<open>0666\<close>
definition mode_key :: nat where "mode_key = 384"  \<comment> \<open>0600\<close>

definition writeCert :: "cert_env \<Rightarrow> string \<Rightarrow> string \<Rightarrow> disk \<Rightarrow> cert_error option \<times> disk" where
  "writeCert env certPath derBytes d =
     (case ce_certFile env of
        Some m \<Rightarrow> (Some (CertFileFailed m), d)
      | None \<Rightarrow>
          (case ce_certPem env of
             Some m \<Rightarrow> (Some (CertPemFailed m), open_file env certPath mode_create PemBroken d)
           | None \<Rightarrow> (None, open_file env certPath mode_create (PemCert derBytes) d)))"

definition writeKey :: "cert_env \<Rightarrow> string \<Rightarrow> string \<Rightarrow> disk \<Rightarrow> cert_error option \<times> disk" where
  "writeKey env keyPath priv d =
     (case ce_keyFile env of
        Some m \<Rightarrow> (Some (KeyFileFailed m), d)
      | None \<Rightarrow>
          (case ce_marshal env priv of
             Inl m \<Rightarrow> (Some (MarshalFailed m), open_file env keyPath mode_key PemBroken d)
           | Inr privBytes \<Rightarrow>
               (case ce_keyPem env of
                  Some m \<Rightarrow> (Some (KeyPemFailed m), open_file env keyPath mode_key PemBroken d)
                | None \<Rightarrow> (None, open_file env keyPath mode_key (PemKey privBytes) d))))"

definition GenerateSelfSignedCert ::
  "cert_env \<Rightarrow> go_time \<Rightarrow> string \<Rightarrow> string
     \<Rightarrow> string \<Rightarrow> disk \<Rightarrow> cert_error option \<times> disk" where
  "GenerateSelfSignedCert env now baseURI certPath keyPath d =
     (case extractHost baseURI of
        Inl e \<Rightarrow> (Some e, d)
      | Inr host \<Rightarrow>
          (case ce_rsa env of
             Inl m \<Rightarrow> (Some (RsaFailed m), d)
           | Inr priv \<Rightarrow>
               (case ce_serial env of
                  Inl m \<Rightarrow> (Some (SerialFailed m), d)
                | Inr serial \<Rightarrow>
                    (case ce_create env (edge_template now serial host) priv of
                       Inl m \<Rightarrow> (Some (CreateFailed m), d)
                     | Inr derBytes \<Rightarrow>
                         (case writeCert env certPath derBytes d of
                            (Some e, d') \<Rightarrow> (Some e, d')
                          | (None, d') \<Rightarrow> writeKey env keyPath priv d')))))"

definition CertExists :: "string \<Rightarrow> string \<Rightarrow> disk \<Rightarrow> bool" where
  "CertExists certPath keyPath d \<longleftrightarrow> d certPath \<noteq> None \<and> d keyPath \<noteq> None"

section \<open>The control plane's credentials\<close>

definition one_year_later :: "go_time \<Rightarrow> int" where
  "one_year_later t = abs_seconds t + 365 * 24 * 3600"

record grpc_template =
  gt_SerialNumber :: nat
  gt_Organization :: string
  gt_CommonName :: string
  gt_NotBefore :: go_time
  gt_NotAfter :: int  \<comment> \<open>seconds since the zero time\<close>

definition GenerateEphemeralGRPCTLSConfig ::
  "cert_env \<Rightarrow> (grpc_template \<Rightarrow> string \<Rightarrow> string + string) \<Rightarrow> (pem \<Rightarrow> pem \<Rightarrow> string option)
     \<Rightarrow> go_time \<Rightarrow> cert_error + pem \<times> pem" where
  "GenerateEphemeralGRPCTLSConfig env create key_pair now =
     (case ce_rsa env of
        Inl m \<Rightarrow> Inl (RsaFailed m)
      | Inr priv \<Rightarrow>
          (case ce_serial env of
             Inl m \<Rightarrow> Inl (SerialFailed m)
           | Inr serial \<Rightarrow>
               (case create \<lparr>gt_SerialNumber = serial, gt_Organization = ''ai.local'',
                      gt_CommonName = ''127.0.0.1'', gt_NotBefore = now,
                      gt_NotAfter = one_year_later now\<rparr> priv of
                  Inl m \<Rightarrow> Inl (CreateFailed m)
                | Inr derBytes \<Rightarrow>
                    (case ce_marshal env priv of
                       Inl m \<Rightarrow> Inl (MarshalFailed m)
                     | Inr privBytes \<Rightarrow>
                         (case key_pair (PemCert derBytes) (PemKey privBytes) of
                            Some m \<Rightarrow> Inl (KeyPairFailed m)
                          | None \<Rightarrow> Inr (PemCert derBytes, PemKey privBytes))))))"

section \<open>Splitting plain hosts\<close>

lemma host_name_plain: "host_name h \<Longrightarrow> plain_host h"
  using unreserved_simps(1) by (fastforce simp: host_name_def plain_host_def list_all_iff)

lemma SplitHostPort_suffix:
  assumes "host_name h" "port_suffix p"
  shows "(case SplitHostPort (h @ p) of Some (n, port) \<Rightarrow> n | None \<Rightarrow> h @ p) = h"
proof (cases p)
  case Nil
  then show ?thesis by (simp add: SplitHostPort_no_port host_name_plain assms(1))
next
  case (Cons c ds)
  then have c: "c = CHR '':''" "list_all ascii_digit ds" using assms(2) by (simp_all add: port_suffix_def)
  have "set ds \<inter> {CHR '':'', CHR ''['', CHR '']''} = {}"
    using c(2) digit_simps(1) by (fastforce simp: list_all_iff)
  from SplitHostPort_plain [OF host_name_plain [OF assms(1)] this] show ?thesis
    by (simp add: Cons c(1))
qed

section \<open>Properties\<close>

text \<open>
  The name in the certificate is the host of the base URI: for a base URI with or without scheme,
  port and path, the certificate is issued for exactly the host name in it, as its common name and as
  its only alternative name, an address if it parses as one and a DNS name otherwise.
\<close>

theorem cert_names_host:
  assumes "pre \<in> {[], ''https://'', ''http://''}" "host_name h" "port_suffix p" "plain_path path"
  shows "extractHost (pre @ h @ p @ path) = Inr h
    \<and> ct_CommonName (edge_template now serial h) = h
    \<and> (case ParseIP h of
         Some ip \<Rightarrow> ct_IPAddresses (edge_template now serial h) = [ip]
           \<and> ct_DNSNames (edge_template now serial h) = []
       | None \<Rightarrow> ct_IPAddresses (edge_template now serial h) = []
           \<and> ct_DNSNames (edge_template now serial h) = [h])"
proof -
  have "h \<noteq> []" using assms(2) by (simp add: host_name_def)
  have parse: "url_Parse (scheme @ ''://'' @ h @ p @ path) = Inr (plain_url scheme (h @ p) path)"
    if "scheme = ''https'' \<or> scheme = ''http''" for scheme
    using that by (intro url_Parse_plain assms(2-4)) (auto simp: ascii_lower_letter_def)
  have "contains_at ((scheme @ ''://'') @ rest) ''://''" for scheme rest
    unfolding contains_at_iff by (metis append.assoc)
  from this [of "''https''"] this [of "''http''"]
  have scheme: "contains_at (''https://'' @ rest) ''://''" "contains_at (''http://'' @ rest) ''://''" for rest
    by simp_all
  have "extractHost (pre @ h @ p @ path) = Inr h"
    using assms(1) parse [of "''https''"] parse [of "''http''"] scheme no_scheme_in_host [OF assms(2-4)]
      SplitHostPort_suffix [OF assms(2,3)] \<open>h \<noteq> []\<close>
    by (auto simp: extractHost_def Let_def plain_url_def)
  then show ?thesis by (simp add: edge_template_def Let_def split: option.split)
qed

lemma cert_names_host_witness: "extractHost ''https://a.b:443/x'' = Inr ''a.b''"
  using cert_names_host [of "''https://''" "''a.b''" "'':443''" "''/x''"]
  by (simp add: host_name_def port_suffix_def plain_path_def unreserved_def ascii_alnum_def
      ascii_lower_letter_def ascii_digit_def)

text \<open>
  Writing the two files: a successful generation leaves certificate and key in place, so that the
  next start finds them; the key file is touched only after the whole certificate was written, and a
  new key file is created with mode 0600; a failure before the files leaves the disk unchanged.
\<close>

theorem GenerateSelfSignedCert_files:
  assumes "certPath \<noteq> keyPath"
  shows "case GenerateSelfSignedCert env now uri certPath keyPath d of
      (None, d') \<Rightarrow> CertExists certPath keyPath d' \<and> (\<exists>der. map_option f_pem (d' certPath) = Some (PemCert der))
        \<and> (\<exists>k. map_option f_pem (d' keyPath) = Some (PemKey k))
        \<and> (d keyPath = None \<longrightarrow> map_option f_perm (d' keyPath) = Some (ce_umask env 384))
        \<and> (\<forall>p. p \<noteq> certPath \<longrightarrow> p \<noteq> keyPath \<longrightarrow> d' p = d p)
    | (Some e, d') \<Rightarrow> d' keyPath \<noteq> d keyPath \<longrightarrow>
        (\<exists>der. map_option f_pem (d' certPath) = Some (PemCert der))"
  using assms
  by (auto simp: GenerateSelfSignedCert_def writeCert_def writeKey_def open_file_def CertExists_def
      mode_key_def split: sum.split option.split)

definition sample_cert_env :: cert_env where
  "sample_cert_env = \<lparr>ce_rsa = Inr ''k'', ce_serial = Inr 7, ce_create = (\<lambda>t k. Inr ''der''),
     ce_certFile = None, ce_certPem = None, ce_keyFile = None, ce_marshal = (\<lambda>k. Inr k),
     ce_keyPem = None, ce_umask = (\<lambda>m. m)\<rparr>"

lemma GenerateSelfSignedCert_files_witness:
  "case GenerateSelfSignedCert sample_cert_env zero_time ''https://a.b:443''
      ''c'' ''k'' (\<lambda>p. None) of
      (None, d') \<Rightarrow> CertExists ''c'' ''k'' d'
    | (Some e, d') \<Rightarrow> d' ''k'' \<noteq> None \<longrightarrow> (\<exists>der. map_option f_pem (d' ''c'') = Some (PemCert der))"
  using GenerateSelfSignedCert_files [where certPath = "''c''" and keyPath = "''k''"
      and env = sample_cert_env and now = zero_time
      and uri = "''https://a.b:443''" and d = "\<lambda>p. None"]
  by (auto split: prod.splits option.splits)

end
