(* ===== verification/GoFlag.thy ===== *)
theory GoFlag
  imports GoFormat
begin

text \<open>
  Command line flags as Go's packages \<open>flag\<close> and \<open>strconv\<close> read them: the forms \<open>-name\<close>,
  \<open>-name=value\<close>, \<open>-name value\<close> with one or two dashes, the terminator \<open>--\<close>, and the texts of
  booleans and of integers in base 0. A flag set is the list of its formal flags with their current
  values; \<open>flag_Parse\<close> is \<open>FlagSet.Parse\<close> and returns the flags with the remaining arguments.
\<close>

section \<open>Values\<close>

datatype num_error = ErrSyntax | ErrRange

definition ParseBool :: "string \<Rightarrow> num_error + bool" where
  "ParseBool s =
     (if s \<in> {''1'', ''t'', ''T'', ''true'', ''TRUE'', ''True''} then Inr True
      else if s \<in> {''0'', ''f'', ''F'', ''false'', ''FALSE'', ''False''} then Inr False
      else Inl ErrSyntax)"

definition digit_value :: "char \<Rightarrow> nat option" where
  "digit_value c =
     (if ascii_digit c then Some (of_char c - 48)
      else if ascii_lower_letter c then Some (of_char c - 87)
      else if ascii_upper_letter c then Some (of_char c - 55)
      else None)"

fun uint_loop :: "nat \<Rightarrow> nat \<Rightarrow> string \<Rightarrow> num_error + nat" where
  "uint_loop base n [] = Inr n"
| "uint_loop base n (c # cs) =
     (if c = CHR ''_'' then uint_loop base n cs
      else (case digit_value c of
              None \<Rightarrow> Inl ErrSyntax
            | Some d \<Rightarrow>
                if base \<le> d then Inl ErrSyntax
                else if 2 ^ 64 \<le> n * base + d then Inl ErrRange
                else uint_loop base (n * base + d) cs))"

text \<open>The base a number of base 0 is written in, and its digits.\<close>

definition base_prefix :: "string \<Rightarrow> nat \<times> string" where
  "base_prefix s =
     (if hd s = CHR ''0'' then
        (if 3 \<le> length s \<and> s ! 1 \<in> {CHR ''b'', CHR ''B''} then (2, drop 2 s)
         else if 3 \<le> length s \<and> s ! 1 \<in> {CHR ''o'', CHR ''O''} then (8, drop 2 s)
         else if 3 \<le> length s \<and> s ! 1 \<in> {CHR ''x'', CHR ''X''} then (16, drop 2 s)
         else (8, drop 1 s))
      else (10, s))"

text \<open>An underscore stands between digits; a base prefix counts as a digit.\<close>

fun underscore_loop :: "bool \<Rightarrow> bool \<Rightarrow> string \<Rightarrow> bool" where
  "underscore_loop digit pending [] = (\<not> pending)"
| "underscore_loop digit pending (c # cs) =
     (if c = CHR ''_'' then digit \<and> underscore_loop False True cs
      else underscore_loop True False cs)"

definition underscoreOK :: "string \<Rightarrow> bool" where
  "underscoreOK s =
     (if 2 \<le> length s \<and> hd s = CHR ''0''
          \<and> s ! 1 \<in> {CHR ''b'', CHR ''B'', CHR ''o'', CHR ''O'', CHR ''x'', CHR ''X''}
      then underscore_loop True False (drop 2 s) else underscore_loop False False s)"

definition ParseUint0 :: "string \<Rightarrow> num_error + nat" where
  "ParseUint0 s =
     (if s = [] then Inl ErrSyntax
      else (let (base, ds) = base_prefix s in
            case uint_loop base 0 ds of
              Inl e \<Rightarrow> Inl e
            | Inr n \<Rightarrow> if CHR ''_'' \<in> set ds \<and> \<not> underscoreOK s then Inl ErrSyntax else Inr n))"

text \<open>\<open>strconv.ParseInt(s, 0, 64)\<close>\<close>

definition ParseInt0 :: "string \<Rightarrow> num_error + int64" where
  "ParseInt0 s =
     (if s = [] then Inl ErrSyntax
      else (let neg = (hd s = CHR ''-'');
                s' = (if hd s \<in> {CHR ''+'', CHR ''-''} then tl s else s) in
            case ParseUint0 s' of
              Inl e \<Rightarrow> Inl e
            | Inr un \<Rightarrow>
                if (if neg then 2 ^ 63 < un else 2 ^ 63 \<le> un) then Inl ErrRange
                else Inr (word_of_int (if neg then - int un else int un))))"

section \<open>Flags\<close>

datatype flag_value = StringV string | BoolV bool | IntV int64

type_synonym flag_set = "(string \<times> flag_value) list"

datatype flag_error =
    BadFlagSyntax string
  | NotDefined string
  | HelpRequested
  | InvalidBool string string num_error  \<comment> \<open>value, name\<close>
  | NeedsArgument string
  | InvalidValue string string num_error

text \<open>What \<open>Value.Set\<close> makes of a text, for a flag that has the given value now.\<close>

fun set_value :: "flag_value \<Rightarrow> string \<Rightarrow> num_error + flag_value" where
  "set_value (StringV old) s = Inr (StringV s)"
| "set_value (BoolV old) s = (case ParseBool s of Inl e \<Rightarrow> Inl e | Inr b \<Rightarrow> Inr (BoolV b))"
| "set_value (IntV old) s = (case ParseInt0 s of Inl e \<Rightarrow> Inl e | Inr i \<Rightarrow> Inr (IntV i))"

datatype flag_step =
    FlagsDone "string list"
  | FlagFailed flag_error
  | FlagSeen flag_set "string list"

text \<open>A name and the value after its equals sign; an equals sign in front is no separator.\<close>

definition split_equals :: "string \<Rightarrow> string \<times> string option" where
  "split_equals name =
     (let k = takeWhile (\<lambda>c. c \<noteq> CHR ''='') (tl name)
      in case drop (length k) (tl name) of
           [] \<Rightarrow> (name, None)
         | e # v \<Rightarrow> (hd name # k, Some v))"

text \<open>\<open>parseOne\<close> on a first argument and the others; \<open>parse_named\<close> is its part after the dashes.\<close>

definition parse_named :: "flag_set \<Rightarrow> string \<Rightarrow> string list \<Rightarrow> flag_step" where
  "parse_named fs text args =
     (case split_equals text of
        (name, val) \<Rightarrow>
          (case map_of fs name of
             None \<Rightarrow> if name = ''help'' \<or> name = ''h'' then FlagFailed HelpRequested
                     else FlagFailed (NotDefined name)
           | Some (BoolV old) \<Rightarrow>
               (case val of
                  None \<Rightarrow> FlagSeen (AList.update name (BoolV True) fs) args
                | Some v \<Rightarrow>
                    (case set_value (BoolV old) v of
                       Inl e \<Rightarrow> FlagFailed (InvalidBool v name e)
                     | Inr w \<Rightarrow> FlagSeen (AList.update name w fs) args))
           | Some old \<Rightarrow>
               (case (case val of Some v \<Rightarrow> Some (v, args)
                      | None \<Rightarrow> (case args of [] \<Rightarrow> None | v # args' \<Rightarrow> Some (v, args'))) of
                  None \<Rightarrow> FlagFailed (NeedsArgument name)
                | Some (v, args') \<Rightarrow>
                    (case set_value old v of
                       Inl e \<Rightarrow> FlagFailed (InvalidValue v name e)
                     | Inr w \<Rightarrow> FlagSeen (AList.update name w fs) args'))))"

definition parseOne :: "flag_set \<Rightarrow> string \<Rightarrow> string list \<Rightarrow> flag_step" where
  "parseOne fs s args =
     (if length s < 2 \<or> hd s \<noteq> CHR ''-'' then FlagsDone (s # args)
      else if s = ''--'' then FlagsDone args
      else (let text = (if s ! 1 = CHR ''-'' then drop 2 s else drop 1 s) in
        if text = [] \<or> hd text = CHR ''-'' \<or> hd text = CHR ''='' then FlagFailed (BadFlagSyntax s)
        else parse_named fs text args))"

lemma parseOne_rest: "parseOne fs s args = FlagSeen fs' args' \<Longrightarrow> length args' \<le> length args"
  by (auto simp: parseOne_def parse_named_def Let_def split: if_splits prod.splits option.splits
      flag_value.splits sum.splits list.splits)

function flag_Parse :: "flag_set \<Rightarrow> string list \<Rightarrow> flag_error + flag_set \<times> string list" where
  "flag_Parse fs [] = Inr (fs, [])"
| "flag_Parse fs (s # args) =
     (case parseOne fs s args of
        FlagsDone rest \<Rightarrow> Inr (fs, rest)
      | FlagFailed e \<Rightarrow> Inl e
      | FlagSeen fs' rest \<Rightarrow> flag_Parse fs' rest)"
  by pat_completeness auto
termination
  by (relation "measure (length \<circ> snd)") (auto dest: parseOne_rest)

fun string_flag :: "flag_set \<Rightarrow> string \<Rightarrow> string" where
  "string_flag fs name = (case map_of fs name of Some (StringV s) \<Rightarrow> s | _ \<Rightarrow> [])"

fun bool_flag :: "flag_set \<Rightarrow> string \<Rightarrow> bool" where
  "bool_flag fs name = (case map_of fs name of Some (BoolV b) \<Rightarrow> b | _ \<Rightarrow> False)"

fun int_flag :: "flag_set \<Rightarrow> string \<Rightarrow> int64" where
  "int_flag fs name = (case map_of fs name of Some (IntV i) \<Rightarrow> i | _ \<Rightarrow> 0)"

section \<open>Reading what was written\<close>

definition flag_name :: "string \<Rightarrow> bool" where
  "flag_name n \<longleftrightarrow> n \<noteq> [] \<and> hd n \<noteq> CHR ''-'' \<and> CHR ''='' \<notin> set n"

lemma flag_name_hd:
  assumes "flag_name n"
  shows "n \<noteq> []" "hd n \<noteq> CHR ''-''" "hd n \<noteq> CHR ''=''" "n ! 0 \<noteq> CHR ''-''"
  using assms by (cases n; auto simp: flag_name_def)+

lemma split_equals_plain: "flag_name n \<Longrightarrow> split_equals n = (n, None)"
proof -
  assume "flag_name n"
  then obtain c cs where n: "n = c # cs" "CHR ''='' \<notin> set cs"
    by (cases n) (auto simp: flag_name_def)
  then have "takeWhile (\<lambda>c. c \<noteq> CHR ''='') cs = cs"
    unfolding takeWhile_eq_all_conv by blast
  then show ?thesis by (simp only: split_equals_def n(1) Let_def list.sel) simp
qed

lemma split_equals_value: "flag_name n \<Longrightarrow> split_equals (n @ ''='' @ v) = (n, Some v)"
proof -
  assume "flag_name n"
  then obtain c cs where n: "n = c # cs" "CHR ''='' \<notin> set cs"
    by (cases n) (auto simp: flag_name_def)
  then have "takeWhile (\<lambda>c. c \<noteq> CHR ''='') (cs @ ''='' @ v) = cs"
    by (subst takeWhile_append2) auto
  then show ?thesis unfolding split_equals_def n(1) Let_def append_Cons list.sel by simp
qed

text \<open>The ways to give a value; the value may begin with a dash.\<close>

definition dashes :: "string \<Rightarrow> bool" where
  "dashes d \<longleftrightarrow> d = ''-'' \<or> d = ''--''"

lemma dashes_simps [simp]: "dashes ''-''" "dashes ''--''"
  by (simp_all add: dashes_def)

lemma parseOne_dashed:
  assumes "dashes d" "flag_name n"
  shows "parseOne fs (d @ n @ t) args = parse_named fs (n @ t) args"
  using assms(1) flag_name_hd [OF assms(2)] by (cases n) (auto simp: dashes_def parseOne_def)

lemma parse_named_value:
  assumes "flag_name n" "map_of fs n = Some old" "\<not> (\<exists>b. old = BoolV b)" "set_value old v = Inr w"
  shows "parse_named fs n (v # args) = FlagSeen (AList.update n w fs) args"
    and "parse_named fs (n @ ''='' @ v) args = FlagSeen (AList.update n w fs) args"
proof -
  show "parse_named fs n (v # args) = FlagSeen (AList.update n w fs) args"
    using assms by (cases old) (simp_all add: parse_named_def split_equals_plain del: set_value.simps)
  show "parse_named fs (n @ ''='' @ v) args = FlagSeen (AList.update n w fs) args"
    using assms unfolding parse_named_def split_equals_value [OF assms(1)]
    by (cases old) (simp_all del: set_value.simps)
qed

lemma parse_pair:
  assumes "dashes d" "flag_name n" "map_of fs n = Some old" "\<not> (\<exists>b. old = BoolV b)" "set_value old v = Inr w"
  shows "flag_Parse fs ((d @ n) # v # args) = flag_Parse (AList.update n w fs) args"
    and "flag_Parse fs ((d @ n @ ''='' @ v) # args) = flag_Parse (AList.update n w fs) args"
  using parseOne_dashed [OF assms(1,2), of fs "[]"] parseOne_dashed [OF assms(1,2), of fs "''='' @ v"]
  by (simp_all only: flag_Parse.simps append_Nil2 parse_named_value [OF assms(2-)] flag_step.case)

lemma parse_string:
  assumes "dashes d" "flag_name n" "map_of fs n = Some (StringV old)"
  shows "flag_Parse fs ((d @ n) # v # args) = flag_Parse (AList.update n (StringV v) fs) args"
    and "flag_Parse fs ((d @ n @ ''='' @ v) # args) = flag_Parse (AList.update n (StringV v) fs) args"
  by (rule parse_pair [OF assms]; simp)+

lemma parse_switch:
  assumes "dashes d" "flag_name n" "map_of fs n = Some (BoolV b)"
  shows "flag_Parse fs ((d @ n) # args) = flag_Parse (AList.update n (BoolV True) fs) args"
  using parseOne_dashed [OF assms(1,2), of fs "[]"] split_equals_plain [OF assms(2)] assms(3)
  by (simp add: parse_named_def)

lemma parse_terminator: "flag_Parse fs (''--'' # args) = Inr (fs, args)"
  by (simp add: parseOne_def)

lemma parse_plain:
  assumes "s = [] \<or> hd s \<noteq> CHR ''-'' \<or> s = ''-''"
  shows "flag_Parse fs (s # args) = Inr (fs, s # args)"
  using assms by (auto simp: parseOne_def)

text \<open>Decimal numbers as \<open>%d\<close> prints them are read back.\<close>

lemma digit_value_show: "d < 10 \<Longrightarrow> digit_value (char_of (48 + d)) = Some d"
  by (simp add: digit_value_def ascii_digit_def)

lemma uint_loop_snoc:
  "uint_loop base n (s @ t) =
    (case uint_loop base n s of Inl e \<Rightarrow> Inl e | Inr m \<Rightarrow> uint_loop base m t)"
  by (induction s arbitrary: n) (auto split: option.split)

lemma uint_loop_show: "n < 2 ^ 64 \<Longrightarrow> uint_loop 10 0 (show_nat n) = Inr n"
proof (induction n rule: show_nat.induct)
  case (1 n)
  have us: "char_of (48 + d) \<noteq> CHR ''_''" if "d < 10" for d :: nat
  proof
    assume "char_of (48 + d) = CHR ''_''"
    then have "(of_char (char_of (48 + d) :: char) :: nat) = 95" by simp
    then show False using that by simp
  qed
  show ?case
  proof (cases "n < 10")
    case True
    then show ?thesis using us by (simp add: show_nat.simps [of n] digit_value_show)
  next
    case False
    with 1 have "uint_loop 10 0 (show_nat (n div 10)) = Inr (n div 10)" by simp
    moreover have "n div 10 * 10 + n mod 10 = n" by simp
    ultimately show ?thesis
      using False 1(2) us by (simp add: show_nat.simps [of n] uint_loop_snoc digit_value_show)
  qed
qed

lemma show_nat_digits: "list_all ascii_digit (show_nat n)"
proof (induction n rule: show_nat.induct)
  case (1 n)
  then show ?case by (cases "n < 10") (simp_all add: show_nat.simps [of n] ascii_digit_def)
qed

lemma show_nat_nonempty [simp]: "show_nat n \<noteq> []"
  by (simp add: show_nat.simps [of n])

lemma show_nat_hd: "0 < n \<Longrightarrow> hd (show_nat n) \<noteq> CHR ''0''"
proof (induction n rule: show_nat.induct)
  case (1 n)
  show ?case
  proof (cases "n < 10")
    case True
    have "char_of (48 + n) \<noteq> CHR ''0''"
    proof
      assume "char_of (48 + n) = CHR ''0''"
      then have "(of_char (char_of (48 + n) :: char) :: nat) = 48" by simp
      then show False using True 1(2) by simp
    qed
    then show ?thesis using True by (simp add: show_nat.simps [of n])
  next
    case False
    with 1 show ?thesis by (simp add: show_nat.simps [of n])
  qed
qed

lemma ParseUint0_show: "n < 2 ^ 64 \<Longrightarrow> ParseUint0 (show_nat n) = Inr n"
proof (cases "n = 0")
  case True
  have "show_nat 0 = ''0''" by code_simp
  then show ?thesis by (simp add: True ParseUint0_def base_prefix_def)
next
  case False
  assume "n < 2 ^ 64"
  then have "uint_loop 10 0 (show_nat n) = Inr n" by (rule uint_loop_show)
  moreover have "CHR ''_'' \<notin> set (show_nat n)"
    using show_nat_digits [of n] by (auto simp: list_all_iff ascii_digit_def)
  ultimately show ?thesis using show_nat_hd [of n] False by (simp add: ParseUint0_def base_prefix_def)
qed

lemma ParseInt0_show:
  assumes "in_int64 i"
  shows "ParseInt0 (show_int i) = Inr (word_of_int i)"
proof -
  have d: "ascii_digit (hd (show_nat n))" for n
    using show_nat_digits [of n] by (cases "show_nat n") auto
  have hd: "hd (show_nat n) \<notin> {CHR ''+'', CHR ''-''}" for n
    using d [of n] by (auto simp: ascii_digit_def)
  have range: "- (2 ^ 63) \<le> i" "i < 2 ^ 63" using assms by (simp_all add: in_int64_def)
  show ?thesis
  proof (cases "i < 0")
    case True
    have "nat (- i) < 2 ^ 64" "\<not> 2 ^ 63 < nat (- i)"
      using range by (simp_all add: nat_less_iff not_less nat_le_iff)
    with True show ?thesis by (simp add: ParseInt0_def show_int_def ParseUint0_show)
  next
    case False
    then have "nat i < 2 ^ 64" "\<not> 2 ^ 63 \<le> nat i"
      using range by (simp_all add: nat_less_iff not_le)
    with False hd show ?thesis by (simp add: ParseInt0_def show_int_def ParseUint0_show)
  qed
qed

lemma parse_int:
  assumes "dashes d" "flag_name n" "map_of fs n = Some (IntV old)"
  shows "flag_Parse fs ((d @ n) # show_int (sint v) # args) = flag_Parse (AList.update n (IntV v) fs) args"
    and "flag_Parse fs ((d @ n @ ''='' @ show_int (sint v)) # args)
      = flag_Parse (AList.update n (IntV v) fs) args"
  by (rule parse_pair [OF assms]; simp add: ParseInt0_show)+

end
