(* ===== verification/ServerMain.thy ===== *)
theory ServerMain
  imports APML GoFlag
begin

text \<open>
  The server's \<open>cmd/server/main.go\<close>: its flags, where its files lie, the names derived from the
  configuration, and the plan of its steps, in which a step either succeeds or fails and a run is the
  list of the steps that were taken with the exit status. What the steps do is in \<open>Server\<close>, which
  also shows that the program follows this plan. \<open>filepath.Join\<close> is modelled for Unix paths.
\<close>

section \<open>Paths\<close>

fun split_slash :: "string \<Rightarrow> string list" where
  "split_slash [] = [[]]"
| "split_slash (c # cs) =
     (if c = CHR ''/'' then [] # split_slash cs
      else (case split_slash cs of [] \<Rightarrow> [[c]] | p # ps \<Rightarrow> (c # p) # ps))"

definition clean_step :: "bool \<Rightarrow> string \<Rightarrow> string list \<Rightarrow> string list" where
  "clean_step rooted c out =
     (if c = [] \<or> c = ''.'' then out
      else if c = ''..'' then
        (case out of
           [] \<Rightarrow> if rooted then [] else [''..'']
         | d # ds \<Rightarrow> if d = ''..'' then ''..'' # out else ds)
      else c # out)"

fun join_slash :: "string list \<Rightarrow> string" where
  "join_slash [] = []"
| "join_slash [p] = p"
| "join_slash (p # ps) = p @ CHR ''/'' # join_slash ps"

definition is_rooted :: "string \<Rightarrow> bool" where
  "is_rooted p \<longleftrightarrow> p \<noteq> [] \<and> hd p = CHR ''/''"

definition clean_parts :: "string \<Rightarrow> string list" where
  "clean_parts p = rev (fold (clean_step (is_rooted p)) (split_slash p) [])"

text \<open>\<open>filepath.Clean\<close> and \<open>filepath.Join\<close> of two elements.\<close>

definition render_path :: "bool \<Rightarrow> string list \<Rightarrow> string" where
  "render_path rooted parts =
     (if rooted then CHR ''/'' # join_slash parts
      else if parts = [] then ''.'' else join_slash parts)"

definition clean_path :: "string \<Rightarrow> string" where
  "clean_path p = render_path (is_rooted p) (clean_parts p)"

definition path_join :: "string \<Rightarrow> string \<Rightarrow> string" where
  "path_join a b =
     (if a = [] then (if b = [] then [] else clean_path b) else clean_path (a @ CHR ''/'' # b))"

section \<open>Names\<close>

record server_flags =
  fl_dataDir :: string
  fl_configFile :: string
  fl_grpcAddr :: string
  fl_proxyAddr :: string
  fl_genCertOnly :: bool

text \<open>
  \<open>parseFlags\<close>. The package-level flag set exits the process on an error: with status 0 after
  \<open>-h\<close> or \<open>-help\<close> and with status 2 otherwise. Arguments after the flags are not looked at.
\<close>

definition server_flag_set :: flag_set where
  "server_flag_set = [(''d'', StringV ''/etc/ai.local''), (''f'', StringV []),
     (''grpc-addr'', StringV '':50051''), (''proxy-addr'', StringV '':8443''),
     (''gen-cert'', BoolV False)]"

definition flags_of :: "flag_set \<Rightarrow> server_flags" where
  "flags_of fs = \<lparr>fl_dataDir = string_flag fs ''d'', fl_configFile = string_flag fs ''f'',
     fl_grpcAddr = string_flag fs ''grpc-addr'', fl_proxyAddr = string_flag fs ''proxy-addr'',
     fl_genCertOnly = bool_flag fs ''gen-cert''\<rparr>"

definition parseFlags :: "string list \<Rightarrow> nat + server_flags" where
  "parseFlags args =
     (case flag_Parse server_flag_set args of
        Inl e \<Rightarrow> Inl (if e = HelpRequested then 0 else 2)
      | Inr (fs, rest) \<Rightarrow> Inr (flags_of fs))"

definition default_flags :: server_flags where
  "default_flags = flags_of server_flag_set"

definition resolveConfigPath :: "server_flags \<Rightarrow> string" where
  "resolveConfigPath f =
     (if fl_configFile f \<noteq> [] then fl_configFile f else path_join (fl_dataDir f) ''ai.local.apml'')"

definition resolveCertPaths :: "string \<Rightarrow> string \<times> string" where
  "resolveCertPaths dataDir = (path_join dataDir ''ai.local.crt'', path_join dataDir ''ai.local.key'')"

definition cleaner :: "(string \<times> string) list" where
  "cleaner = [(''https://'', []), (''http://'', []), (''.'', ''-''), ('':'', ''-''), (''/'', ''-'')]"

definition buildPlanName :: "apml_config \<Rightarrow> string" where
  "buildPlanName cfg = replace_pairs cleaner (cfg_BaseURI cfg) @ ''-'' @ cfg_PlanVersion cfg"

definition buildDBName :: "apml_config \<Rightarrow> string" where
  "buildDBName cfg =
     replace_pairs cleaner (cfg_BaseURI cfg) @ ''-'' @ cfg_PlanVersion cfg @ ''-usage.db''"

definition database_path :: "string \<Rightarrow> apml_config \<Rightarrow> string" where
  "database_path dataDir cfg = path_join dataDir (buildDBName cfg)"

text \<open>\<open>20060102-150405\<close>\<close>

definition format_stamp :: "go_time \<Rightarrow> string" where
  "format_stamp t = append_int (t_year t) 4 @ append_int (int (t_month t)) 2
     @ append_int (int (t_day t)) 2 @ ''-'' @ append_int (int (t_hour t)) 2
     @ append_int (int (t_minute t)) 2 @ append_int (int (t_second t)) 2"

section \<open>Start and end\<close>

datatype boot_step =
    MakeDataDir | LoadConfig | InitLogger | GenerateCert | FindCerts | OpenDatabase | InitSchema
  | StartUsageWorker | NewGRPCServer | NewProxyServer | BackupConfig | StartListeners
  | AwaitSignal | StopGRPC | StopUsageBackend | CloseDatabase

text \<open>
  The steps that can fail do so when \<open>fails\<close> says so; \<open>crash\<close> tells that a listener fails while the
  server waits for its signal. \<open>fatalf\<close> and \<open>os.Exit\<close> end the process without the deferred calls.
\<close>

fun take_steps :: "(boot_step \<Rightarrow> bool) \<Rightarrow> boot_step list \<Rightarrow> boot_step list \<times> bool" where
  "take_steps fails [] = ([], True)"
| "take_steps fails (st # sts) =
     (if fails st then ([st], False)
      else (let (done, ok) = take_steps fails sts in (st # done, ok)))"

definition prologue :: "boot_step list" where
  "prologue = [MakeDataDir, LoadConfig, InitLogger]"

definition service_steps :: "boot_step list" where
  "service_steps = [StartUsageWorker, NewGRPCServer, NewProxyServer]"

definition run_main ::
  "server_flags \<Rightarrow> (boot_step \<Rightarrow> bool) \<Rightarrow> bool \<Rightarrow> boot_step list \<times> nat" where
  "run_main f fails crash =
     (case take_steps fails prologue of
        (done, False) \<Rightarrow> (done, 1)
      | (done, True) \<Rightarrow>
          if fl_genCertOnly f
          then (done @ [GenerateCert], if fails GenerateCert then 1 else 0)
          else
            (case take_steps fails ([FindCerts, OpenDatabase, InitSchema] @ service_steps) of
               (done', False) \<Rightarrow> (done @ done', 1)
             | (done', True) \<Rightarrow>
                 (let serving = done @ done' @ [BackupConfig, StartListeners, AwaitSignal]
                  in if crash then (serving, 1)
                     else (serving @ [StopGRPC, StopUsageBackend, CloseDatabase], 0))))"

section \<open>Cleaning paths\<close>

lemma split_slash_append:
  "split_slash (a @ CHR ''/'' # b) = split_slash a @ split_slash b"
proof (induction a)
  case (Cons c a)
  have "split_slash a \<noteq> []" by (cases a) (auto split: list.split)
  with Cons show ?case by (auto split: list.splits)
qed simp

lemma split_slash_plain: "CHR ''/'' \<notin> set n \<Longrightarrow> split_slash n = [n]"
  by (induction n) auto

lemma join_slash_snoc: "ps \<noteq> [] \<Longrightarrow> join_slash (ps @ [n]) = join_slash ps @ CHR ''/'' # n"
  by (induction ps rule: join_slash.induct) auto

definition file_name :: "string \<Rightarrow> bool" where
  "file_name n \<longleftrightarrow> CHR ''/'' \<notin> set n \<and> n \<notin> {[], ''.'', ''..''}"

lemma clean_parts_file:
  assumes "file_name n" "a \<noteq> []"
  shows "clean_parts (a @ CHR ''/'' # n) = clean_parts a @ [n]"
  using assms
  by (simp add: clean_parts_def is_rooted_def split_slash_append split_slash_plain file_name_def
      clean_step_def)

text \<open>A file name joined to a directory lies directly in it.\<close>

lemma path_join_file:
  assumes "file_name n" "a \<noteq> []"
  shows "path_join a n = (if clean_parts a = [] then (if is_rooted a then CHR ''/'' # n else n)
    else clean_path a @ CHR ''/'' # n)"
proof -
  have "is_rooted (a @ CHR ''/'' # n) = is_rooted a" using assms(2) by (simp add: is_rooted_def)
  then have "path_join a n = render_path (is_rooted a) (clean_parts a @ [n])"
    using assms(2) unfolding path_join_def clean_path_def clean_parts_file [OF assms] by simp
  then show ?thesis
    unfolding clean_path_def render_path_def
    by (cases "clean_parts a = []") (simp_all add: join_slash_snoc)
qed

lemma cleaner_removes:
  assumes "c \<in> {CHR ''.'', CHR '':'', CHR ''/''}"
  shows "c \<notin> set (replace_pairs cleaner s)"
  by (rule replace_pairs_removes [where new = "''-''"]) (use assms in \<open>auto simp: cleaner_def\<close>)

lemma plan_version_chars:
  assumes "planVersion v" "c \<in> set v"
  shows "ascii_letter c \<or> ascii_digit c \<or> c = CHR ''-''"
  using assms by (auto simp: planVersion_def list_all_iff split: list.splits)

lemma plan_version_no_special:
  assumes "planVersion v"
  shows "c \<in> {CHR ''.'', CHR '':'', CHR ''/''} \<Longrightarrow> c \<notin> set v"
  using plan_version_chars [OF assms, of c]
  by (auto simp: ascii_letter_def ascii_lower_letter_def ascii_upper_letter_def ascii_digit_def)

section \<open>Properties\<close>

text \<open>The command line of given flags.\<close>

definition server_args :: "server_flags \<Rightarrow> string list" where
  "server_args f = [''-d'', fl_dataDir f, ''-f='' @ fl_configFile f, ''-grpc-addr'', fl_grpcAddr f,
     ''-proxy-addr='' @ fl_proxyAddr f] @ (if fl_genCertOnly f then [''-gen-cert''] else [])"

lemma server_flag_names:
  "flag_name ''d''" "flag_name ''f''" "flag_name ''grpc-addr''" "flag_name ''proxy-addr''"
  "flag_name ''gen-cert''"
  by (simp_all add: flag_name_def)

lemma parse_server_args:
  "flag_Parse server_flag_set (server_args f @ rest) = flag_Parse
     [(''d'', StringV (fl_dataDir f)), (''f'', StringV (fl_configFile f)),
      (''grpc-addr'', StringV (fl_grpcAddr f)), (''proxy-addr'', StringV (fl_proxyAddr f)),
      (''gen-cert'', BoolV (fl_genCertOnly f))] rest"
  using parse_string(1) [OF dashes_simps(1) server_flag_names(1), where old = "''/etc/ai.local''"]
    parse_string(2) [OF dashes_simps(1) server_flag_names(2), where old = "[]"]
    parse_string(1) [OF dashes_simps(1) server_flag_names(3), where old = "'':50051''"]
    parse_string(2) [OF dashes_simps(1) server_flag_names(4), where old = "'':8443''"]
    parse_switch [OF dashes_simps(1) server_flag_names(5), where b = False]
  by (simp add: server_args_def server_flag_set_def del: flag_Parse.simps)

text \<open>
  The flags arrive: whatever values the operator chooses for the five flags, also ones that begin
  with a dash or hold an equals sign, the server reads exactly these; without arguments it uses the
  defaults; and everything from the first argument that is no flag is ignored without a message,
  flags included.
\<close>

theorem parseFlags_arrive:
  "parseFlags (server_args f) = Inr f \<and> parseFlags [] = Inr default_flags
   \<and> (word = [] \<or> hd word \<noteq> CHR ''-'' \<longrightarrow> parseFlags (server_args f @ word # rest) = Inr f)"
  using parse_server_args [of f "[]"] parse_server_args [of f "word # rest"] parse_plain [of word]
  by (auto simp: parseFlags_def flags_of_def default_flags_def simp del: flag_Parse.simps(2))

lemma parseFlags_arrive_witness:
  "parseFlags (server_args (default_flags\<lparr>fl_dataDir := ''-x=y''\<rparr>) @ [''gen'', ''-d'', ''/tmp''])
    = Inr (default_flags\<lparr>fl_dataDir := ''-x=y''\<rparr>)"
  using parseFlags_arrive [of "default_flags\<lparr>fl_dataDir := ''-x=y''\<rparr>" "''gen''"] by simp

text \<open>
  The usage database lies in the data directory itself: for a validated configuration the name
  built from base URI and plan version has no slash and no colon, so whatever the base URI is, the
  database path is the cleaned data directory, a slash and that name, and nothing in the
  configuration can make it leave that directory.
\<close>

theorem database_in_data_dir:
  assumes "config_ok cfg" "dataDir \<noteq> []"
  shows "CHR ''/'' \<notin> set (buildDBName cfg) \<and> CHR '':'' \<notin> set (buildDBName cfg)
    \<and> database_path dataDir cfg =
        (if clean_parts dataDir = [] then (if is_rooted dataDir then ''/'' else []) @ buildDBName cfg
         else clean_path dataDir @ ''/'' @ buildDBName cfg)"
proof -
  have pv: "planVersion (cfg_PlanVersion cfg)" using assms(1) by (simp add: config_ok_def)
  have no: "CHR ''/'' \<notin> set (buildDBName cfg)" "CHR '':'' \<notin> set (buildDBName cfg)"
    using cleaner_removes [of "CHR ''/''" "cfg_BaseURI cfg"] cleaner_removes [of "CHR '':''" "cfg_BaseURI cfg"]
      plan_version_no_special [OF pv, of "CHR ''/''"] plan_version_no_special [OF pv, of "CHR '':''"]
    by (simp_all add: buildDBName_def)
  have "length (buildDBName cfg) > 2" by (simp add: buildDBName_def)
  then have "buildDBName cfg \<notin> {[], ''.'', ''..''}" by (auto simp del: length_greater_0_conv)
  with no(1) have "file_name (buildDBName cfg)" unfolding file_name_def by blast
  from path_join_file [OF this assms(2)] no show ?thesis
    unfolding database_path_def by simp
qed

lemma database_in_data_dir_witness:
  "database_path ''/etc/x'' sample_config = clean_path ''/etc/x'' @ ''/'' @ buildDBName sample_config"
proof -
  have "clean_parts ''/etc/x'' \<noteq> []" by code_simp
  then show ?thesis using database_in_data_dir [OF sample_config_ok, of "''/etc/x''"] by simp
qed

text \<open>
  Two configurations that differ only in the scheme of the base URI, or in a dot, a colon or a
  slash where the other has one of these, share one database and one log file, so their usage is
  counted together.
\<close>

theorem database_name_collisions:
  "(cfg_BaseURI c = ''https://'' @ u \<longrightarrow> cfg_BaseURI d = ''http://'' @ u \<longrightarrow>
      cfg_PlanVersion c = cfg_PlanVersion d \<longrightarrow> buildDBName c = buildDBName d
        \<and> buildPlanName c = buildPlanName d)
   \<and> (cfg_BaseURI c = [x] @ v \<longrightarrow> cfg_BaseURI d = [y] @ v \<longrightarrow>
      {x, y} \<subseteq> {CHR ''.'', CHR '':'', CHR ''/''} \<longrightarrow>
      cfg_PlanVersion c = cfg_PlanVersion d \<longrightarrow> buildDBName c = buildDBName d)"
proof -
  have "replace_pairs cleaner (''https://'' @ u) = replace_pairs cleaner u"
      "replace_pairs cleaner (''http://'' @ u) = replace_pairs cleaner u"
    by (simp_all add: cleaner_def has_prefix_def)
  moreover have "replace_pairs cleaner (x # v) = CHR ''-'' # replace_pairs cleaner v"
    if "x \<in> {CHR ''.'', CHR '':'', CHR ''/''}" for x
    using that by (auto simp: cleaner_def has_prefix_def)
  ultimately show ?thesis by (auto simp: buildDBName_def buildPlanName_def)
qed

lemma database_name_collisions_witness:
  "buildDBName sample_config = buildDBName (sample_config\<lparr>cfg_BaseURI := ''http://a.b:1''\<rparr>)"
  using database_name_collisions [of sample_config "''a.b:1''"
      "sample_config\<lparr>cfg_BaseURI := ''http://a.b:1''\<rparr>"]
  by simp

text \<open>
  The order of a run: the listeners start only after the configuration was loaded, the
  certificates were found, the schema was created and both servers were built; a process that ends
  with status 0 after serving stopped the control plane, drained the usage worker and then closed
  the database, in this order; generating a certificate never opens the database; and when a
  listener crashes, the worker is not drained.
\<close>

theorem run_order:
  "(let (steps, status) = run_main f fails crash in
     (StartListeners \<in> set steps \<longrightarrow>
        (\<forall>st \<in> {MakeDataDir, LoadConfig, InitLogger, FindCerts, OpenDatabase, InitSchema,
           StartUsageWorker, NewGRPCServer, NewProxyServer}. st \<in> set steps \<and> \<not> fails st)
        \<and> (if crash then status = 1 \<and> StopUsageBackend \<notin> set steps
           else status = 0
             \<and> suffix [StartListeners, AwaitSignal, StopGRPC, StopUsageBackend, CloseDatabase] steps))
     \<and> (fl_genCertOnly f \<longrightarrow> OpenDatabase \<notin> set steps \<and> StartListeners \<notin> set steps)
     \<and> (status = 0 \<longrightarrow> GenerateCert \<in> set steps \<or> StartListeners \<in> set steps))"
proof -
  have sfx: "suffix [StartListeners, AwaitSignal, StopGRPC, StopUsageBackend, CloseDatabase]
      [MakeDataDir, LoadConfig, InitLogger, FindCerts, OpenDatabase, InitSchema, StartUsageWorker,
       NewGRPCServer, NewProxyServer, BackupConfig, StartListeners, AwaitSignal, StopGRPC,
       StopUsageBackend, CloseDatabase]"
    by (simp add: suffix_def)
  show ?thesis
    by (simp add: run_main_def prologue_def service_steps_def Let_def sfx)
qed

lemma run_order_witness:
  "suffix [StopUsageBackend, CloseDatabase] (fst (run_main default_flags (\<lambda>st. False) False))"
proof -
  have "suffix [StopUsageBackend, CloseDatabase]
      [StartListeners, AwaitSignal, StopGRPC, StopUsageBackend, CloseDatabase]"
    by (simp add: suffix_def)
  moreover have "StartListeners \<in> set (fst (run_main default_flags (\<lambda>st. False) False))"
    by (simp add: run_main_def prologue_def service_steps_def default_flags_def flags_of_def server_flag_set_def)
  ultimately show ?thesis
    using run_order [of default_flags "\<lambda>st. False" False]
    by (auto simp: Let_def split_beta intro: suffix_order.trans)
qed

end
