(* ===== verification/Server.thy ===== *)
theory Server
  imports Gateway Certs ServerMain LogX
begin

text \<open>
  The start of the server, \<open>cmd/server/main.go\<close> over the other components: \<open>main\<close> with everything it
  calls up to the listeners (\<open>boot\<close>), every way it can fail, and the state it hands to the running
  server.

  The process keeps what it printed with \<open>fmt\<close> to its two streams and what \<open>main\<close> gave to the logger
  (whose lines also go to standard output). Texts of errors (\<open>%v\<close>) are an argument.
\<close>

section \<open>The process\<close>

record process =
  ps_log :: log_state
  ps_stdout :: string
  ps_stderr :: string
  ps_disk :: disk  \<comment> \<open>the two files of the certificate\<close>
  ps_files :: "(string \<times> string) list"  \<comment> \<open>what the backup wrote\<close>

definition Printf :: "string \<Rightarrow> process \<Rightarrow> process" where
  "Printf s p = p\<lparr>ps_stdout := ps_stdout p @ s\<rparr>"

definition Println :: "string \<Rightarrow> process \<Rightarrow> process" where
  "Println s = Printf (s @ [LF])"

definition Eprintf :: "string \<Rightarrow> process \<Rightarrow> process" where
  "Eprintf s p = p\<lparr>ps_stderr := ps_stderr p @ s\<rparr>"

definition Eprintln :: "string \<Rightarrow> process \<Rightarrow> process" where
  "Eprintln s = Eprintf (s @ [LF])"

definition logging :: "(log_state \<Rightarrow> log_state) \<Rightarrow> process \<Rightarrow> process" where
  "logging f p = p\<lparr>ps_log := f (ps_log p)\<rparr>"

text \<open>The UTF-8 bytes of the dash and the arrow in the messages.\<close>

definition em_dash :: string where "em_dash = [CHR 0xE2, CHR 0x80, CHR 0x94]"

definition arrow :: string where "arrow = [CHR 0xE2, CHR 0x86, CHR 0x92]"

section \<open>What start-up may meet\<close>

datatype init_stage = EnableWal | CreateTables

text \<open>A database file may lack any of the tables.\<close>

record db_file =
  df_daily :: "usage_row list option"
  df_monthly :: "usage_row list option"
  df_logs :: "(log_row list \<times> int) option"  \<comment> \<open>the rows and the counter\<close>

text \<open>The errors of \<open>grpc/server.go\<close>.\<close>

datatype grpc_error = TlsLayerFailed cert_error

datatype listen_error = OpenAddressFailed string string | ServeCrashed string

datatype boot_error =
    ConfigFailed apml_error
  | CertGenFailed cert_error
  | DbOpenFailed string
  | SchemaFailed string
  | GrpcInitFailed grpc_error
  | ProxyInitFailed proxy_error
  | GrpcCrashed listen_error
  | ProxyCrashed string

text \<open>
  The environment of a start: the file system, the clock, the random draws, the libraries. The router
  panics when two patterns conflict; \<open>be_router\<close> is its verdict on a list of patterns.
\<close>

record boot_env =
  be_mkdir :: "string option"
  be_yaml :: yaml_codec
  be_read :: "string \<Rightarrow> string + string"
  be_logdir :: "string option"
  be_cert :: cert_env
  be_now :: go_time
  be_open :: "string \<Rightarrow> string option"
  be_file :: "string \<Rightarrow> db_file"
  be_exec :: "init_stage \<Rightarrow> string option"
  be_grpcCert :: cert_env
  be_createGrpc :: "grpc_template \<Rightarrow> string \<Rightarrow> string + string"
  be_keyPair :: "pem \<Rightarrow> pem \<Rightarrow> string option"
  be_router :: "string list \<Rightarrow> string option"
  be_text :: "boot_error \<Rightarrow> string"  \<comment> \<open>the error as \<open>%v\<close> prints it\<close>

section \<open>Start-up\<close>

text \<open>A call of \<open>main\<close> either ends the process or returns.\<close>

datatype 'a run = Exit nat process | Returned 'a process

fun run_then :: "'a run \<Rightarrow> ('a \<Rightarrow> process \<Rightarrow> 'b run) \<Rightarrow> 'b run" where
  "run_then (Exit status p) k = Exit status p"
| "run_then (Returned x p) k = k x p"

definition fatal_message :: "boot_env \<Rightarrow> boot_error \<Rightarrow> string" where
  "fatal_message env e =
     (case e of
        ConfigFailed x \<Rightarrow> ''failed to load config: ''
      | CertGenFailed x \<Rightarrow> ''failed to generate certificate: ''
      | DbOpenFailed x \<Rightarrow> ''failed to open usage db: ''
      | SchemaFailed x \<Rightarrow> ''failed to init usage schema: ''
      | GrpcInitFailed x \<Rightarrow> ''failed to initialize gRPC server: ''
      | ProxyInitFailed x \<Rightarrow> ''failed to initialize proxy engine: ''
      | GrpcCrashed x \<Rightarrow> ''gRPC control plane crashed: ''
      | ProxyCrashed x \<Rightarrow> ''data plane proxy engine crashed: '') @ be_text env e"

text \<open>\<open>fatalf\<close> writes to the logger only, and \<open>os.Exit\<close> skips the deferred calls.\<close>

definition fatalf :: "boot_env \<Rightarrow> boot_error \<Rightarrow> process \<Rightarrow> 'a run" where
  "fatalf env e p = Exit 1 (logging (AppErrorf (''FATAL PANIC: '' @ fatal_message env e)) p)"

definition loadConfig :: "boot_env \<Rightarrow> string \<Rightarrow> process \<Rightarrow> apml_config run" where
  "loadConfig env configPath p =
     (case Parse (be_yaml env) (be_read env configPath) of
        Inl err \<Rightarrow> fatalf env (ConfigFailed err) p
      | Inr cfg \<Rightarrow> Returned cfg
          (Printf (''ai.local engine initialized: version '' @ cfg_Version cfg @ '' '' @ em_dash
             @ '' gateway base URI: '' @ cfg_BaseURI cfg @ [LF]) p))"

definition generateCert :: "boot_env \<Rightarrow> string \<Rightarrow> string \<Rightarrow> process \<Rightarrow> unit run" where
  "generateCert env baseURI dataDir p =
     (let certPath = path_join dataDir ''ai.local.crt'';
          keyPath = path_join dataDir ''ai.local.key'';
          p = Printf (''Generating self-signed certificate for '' @ baseURI @ '' into '' @ dataDir
                @ ''...'' @ [LF]) p;
          p = logging (AppInfof (''generating self-signed certificate for '' @ baseURI @ '' into ''
                @ dataDir @ ''...'')) p
      in case GenerateSelfSignedCert (be_cert env) (be_now env) baseURI certPath keyPath (ps_disk p) of
           (Some err, d) \<Rightarrow> fatalf env (CertGenFailed err) (p\<lparr>ps_disk := d\<rparr>)
         | (None, d) \<Rightarrow> Returned ()
             (logging (AppInfof ''TLS credentials successfully synchronized onto disk.'')
               (Println ''TLS credentials successfully synchronized onto disk.'' (p\<lparr>ps_disk := d\<rparr>))))"

text \<open>\<open>InitSchema\<close>: WAL mode, then the embedded script, which creates what is missing.\<close>

definition create_missing :: "db_file \<Rightarrow> usage_db" where
  "create_missing f =
     (let (logs, sequence) = (case df_logs f of None \<Rightarrow> ([], 0) | Some t \<Rightarrow> t)
      in \<lparr>db_logs = logs, db_sequence = sequence,
          db_daily = (case df_daily f of None \<Rightarrow> [] | Some rows \<Rightarrow> rows),
          db_monthly = (case df_monthly f of None \<Rightarrow> [] | Some rows \<Rightarrow> rows)\<rparr>)"

definition InitSchema :: "(init_stage \<Rightarrow> string option) \<Rightarrow> db_file \<Rightarrow> string + usage_db" where
  "InitSchema exec f =
     (case exec EnableWal of
        Some err \<Rightarrow> Inl err
      | None \<Rightarrow>
          (case exec CreateTables of
             Some err \<Rightarrow> Inl err
           | None \<Rightarrow> Inr (create_missing f)))"

definition initDatabase :: "boot_env \<Rightarrow> string \<Rightarrow> apml_config \<Rightarrow> process \<Rightarrow> usage_db run" where
  "initDatabase env dataDir cfg p =
     (let dbPath = database_path dataDir cfg;
          p = logging (AppDebugf (''opening sqlite database connection at: '' @ dbPath)) p
      in case be_open env dbPath of
           Some err \<Rightarrow> fatalf env (DbOpenFailed err) p
         | None \<Rightarrow>
             (case InitSchema (be_exec env) (be_file env dbPath) of
                Inl err \<Rightarrow> fatalf env (SchemaFailed err) p
              | Inr db \<Rightarrow> Returned db
                  (logging (AppInfof ''sqlite storage engine schema initialized successfully.'') p)))"

text \<open>The control plane's server: its credentials and the configuration its handler answers from.\<close>

record grpc_server =
  gs_creds :: "pem \<times> pem"
  gs_cfg :: apml_config

definition NewServer :: "boot_env \<Rightarrow> apml_config \<Rightarrow> grpc_error + grpc_server" where
  "NewServer env cfg =
     (case GenerateEphemeralGRPCTLSConfig (be_grpcCert env) (be_createGrpc env) (be_keyPair env)
             (be_now env) of
        Inl err \<Rightarrow> Inl (TlsLayerFailed err)
      | Inr creds \<Rightarrow> Inr \<lparr>gs_creds = creds, gs_cfg = cfg\<rparr>)"

text \<open>
  The data plane's server. Registering a route may make the router panic, so the patterns count that
  were registered before the first host that is no URL.
\<close>

record proxy_server =
  px_cfg :: apml_config
  px_routes :: "proxy_route list"

definition registered_patterns :: "apml_config \<Rightarrow> string list" where
  "registered_patterns cfg = map (\<lambda>pr. fst pr @ ''/*any'')
     (takeWhile (\<lambda>pr. case setup_route cfg pr of Inl e \<Rightarrow> False | Inr r \<Rightarrow> True) (cfg_Routes cfg))"

definition NewProxyServer ::
  "(string list \<Rightarrow> string option) \<Rightarrow> apml_config \<Rightarrow> (proxy_error + proxy_server) option" where
  "NewProxyServer router cfg =
     (case router (registered_patterns cfg) of
        Some panic \<Rightarrow> None
      | None \<Rightarrow>
          (case setupRoutes cfg of
             Inl err \<Rightarrow> Some (Inl err)
           | Inr rs \<Rightarrow> Some (Inr \<lparr>px_cfg = cfg, px_routes = rs\<rparr>)))"

record services =
  sv_grpcServer :: grpc_server
  sv_proxyServer :: proxy_server
  sv_keyStore :: key_store
  sv_usageBackend :: backend

text \<open>An uncaught panic ends a Go process with status 2.\<close>

definition initServices :: "boot_env \<Rightarrow> apml_config \<Rightarrow> usage_db \<Rightarrow> process \<Rightarrow> services run" where
  "initServices env cfg db p =
     (let p = logging (AppDebugf ''assembling runtime internal subsystems...'') p;
          keyStore = NewStore;
          usageBackend = (NewUsageBackend db)\<lparr>b_worker := Selecting\<rparr>;
          p = logging (AppDebugf ''asynchronous token ledger background worker spawned.'') p
      in case NewServer env cfg of
           Inl err \<Rightarrow> fatalf env (GrpcInitFailed err) p
         | Inr grpcServer \<Rightarrow>
             (case NewProxyServer (be_router env) cfg of
                None \<Rightarrow> Exit 2 p
              | Some (Inl err) \<Rightarrow> fatalf env (ProxyInitFailed err) p
              | Some (Inr proxyServer) \<Rightarrow> Returned
                  \<lparr>sv_grpcServer = grpcServer, sv_proxyServer = proxyServer,
                   sv_keyStore = keyStore, sv_usageBackend = usageBackend\<rparr> p))"

definition tls_missing :: "string \<Rightarrow> process \<Rightarrow> process" where
  "tls_missing dataDir p =
     Eprintln ''Alternatively, place your custom OpenSSL / ACME certificates into the folder manually.''
       (Eprintf (''  ai.local -d '' @ dataDir @ '' -gen-cert'' @ [LF])
         (Eprintln ''To provision self-signed certs, run:''
           (Eprintln ''error: TLS credentials missing in data directory.''
             (logging (AppErrorf (''TLS credentials missing in data directory: '' @ dataDir)) p))))"

text \<open>
  \<open>main\<close> from the flags (whose error messages are those of the package \<open>flag\<close>) to the return of \<open>initServices\<close>. Its result is the flags, the configuration
  and the services, or \<open>None\<close> after \<open>-gen-cert\<close>, when \<open>main\<close> returns and the process ends with
  status 0.
\<close>

definition boot_services :: "boot_env \<Rightarrow> server_flags \<Rightarrow> apml_config \<Rightarrow> process \<Rightarrow> services run" where
  "boot_services env f cfg p =
     (let p = logging (AppInfof (''ai.local engine running: version '' @ cfg_Version cfg @ '' ''
                @ em_dash @ '' gateway base URI: '' @ cfg_BaseURI cfg)) p;
          (certPath, keyPath) = resolveCertPaths (fl_dataDir f)
      in if \<not> CertExists certPath keyPath (ps_disk p) then Exit 1 (tls_missing (fl_dataDir f) p)
         else
           (let p = logging (AppDebugf (''TLS certificate alignment verified: crt='' @ certPath
                      @ '', key='' @ keyPath)) p;
                p = logging (AppInfof ''initializing usage backend store (SQLite)...'') p
            in run_then (initDatabase env (fl_dataDir f) cfg p) (\<lambda>db p.
               initServices env cfg db p)))"

definition after_config ::
  "boot_env \<Rightarrow> server_flags \<Rightarrow> apml_config \<Rightarrow> process
     \<Rightarrow> (server_flags \<times> apml_config \<times> services) option run" where
  "after_config env f cfg p =
     (case Init (be_logdir env) False (ps_log p) of
        (Some err, l) \<Rightarrow> Exit 1 (Eprintf (''failed to initialize logger: '' @ err) (p\<lparr>ps_log := l\<rparr>))
      | (None, l) \<Rightarrow>
          (if fl_genCertOnly f
           then run_then (generateCert env (cfg_BaseURI cfg) (fl_dataDir f) (p\<lparr>ps_log := l\<rparr>))
                  (\<lambda>u p. Returned None p)
           else run_then (boot_services env f cfg (p\<lparr>ps_log := l\<rparr>))
                  (\<lambda>svc p. Returned (Some (f, cfg, svc)) p)))"

definition boot ::
  "boot_env \<Rightarrow> string list \<Rightarrow> process \<Rightarrow> (server_flags \<times> apml_config \<times> services) option run" where
  "boot env args p =
     (case parseFlags args of
        Inl status \<Rightarrow> Exit status p
      | Inr f \<Rightarrow>
          (case be_mkdir env of
             Some err \<Rightarrow> Exit 1
               (Eprintf (''failed to create data directory '' @ fl_dataDir f @ '': '' @ err) p)
           | None \<Rightarrow>
               run_then (loadConfig env (resolveConfigPath f) p) (\<lambda>cfg p. after_config env f cfg p)))"

section \<open>The server that is started\<close>

datatype listener = Pending | Binding | Listening | Down

datatype phase = Starting | Running | Signalled | Deactivated | Stopping | ClosingDb | Dead nat | Killed

record server =
  sr_gateway :: gateway
  sr_process :: process
  sr_control :: listener
  sr_data :: listener
  sr_backup :: bool  \<comment> \<open>whether the backup goroutine has run\<close>
  sr_phase :: phase

text \<open>
  The server when \<open>startServices\<close> has returned, and its deployment: what \<open>main\<close> built and, from
  \<open>L\<close>, the libraries.
\<close>

definition server_start :: "services \<Rightarrow> process \<Rightarrow> server" where
  "server_start svc p =
     \<lparr>sr_gateway = \<lparr>gw_store = sv_keyStore svc, gw_flights = [], gw_backend = sv_usageBackend svc\<rparr>,
      sr_process = p, sr_control = Pending, sr_data = Pending, sr_backup = False,
      sr_phase = Starting\<rparr>"

definition deployment_of :: "deployment \<Rightarrow> services \<Rightarrow> deployment" where
  "deployment_of L svc =
     L\<lparr>d_cfg := px_cfg (sv_proxyServer svc), d_routes := px_routes (sv_proxyServer svc)\<rparr>"

section \<open>What start-up delivers\<close>

lemma run_then_returned:
  "run_then r k = Returned x p \<longleftrightarrow> (\<exists>y q. r = Returned y q \<and> k y q = Returned x p)"
  by (cases r) auto

lemma run_then_exit:
  "run_then r k = Exit st p \<longleftrightarrow> r = Exit st p \<or> (\<exists>y q. r = Returned y q \<and> k y q = Exit st p)"
  by (cases r) auto

lemmas run_then_iff = run_then_returned run_then_exit

lemma NewProxyServer_some:
  "NewProxyServer router cfg = Some (Inr ps) \<Longrightarrow>
    router (registered_patterns cfg) = None \<and> px_cfg ps = cfg \<and> setupRoutes cfg = Inr (px_routes ps)"
  by (auto simp: NewProxyServer_def split: option.splits sum.splits)

lemma initServices_returned:
  assumes "initServices env cfg db p = Returned svc p'"
  shows "sv_keyStore svc = NewStore" "sv_usageBackend svc = (NewUsageBackend db)\<lparr>b_worker := Selecting\<rparr>"
    "NewServer env cfg = Inr (sv_grpcServer svc)"
    "NewProxyServer (be_router env) cfg = Some (Inr (sv_proxyServer svc))"
  using assms by (auto simp: initServices_def Let_def fatalf_def split: sum.splits option.splits)

lemma initDatabase_returned:
  "initDatabase env dataDir cfg p = Returned db p' \<Longrightarrow>
    be_open env (database_path dataDir cfg) = None
    \<and> InitSchema (be_exec env) (be_file env (database_path dataDir cfg)) = Inr db
    \<and> ps_disk p' = ps_disk p"
  by (auto simp: initDatabase_def Let_def fatalf_def logging_def split: sum.splits option.splits)

lemma loadConfig_returned:
  "loadConfig env path p = Returned cfg p' \<Longrightarrow>
    Parse (be_yaml env) (be_read env path) = Inr cfg \<and> ps_disk p' = ps_disk p"
  by (auto simp: loadConfig_def fatalf_def Printf_def split: sum.splits)

lemma boot_services_returned:
  assumes "boot_services env f cfg p = Returned svc p'"
  shows "case resolveCertPaths (fl_dataDir f) of (c, k) \<Rightarrow> CertExists c k (ps_disk p)"
    and "\<exists>db q q'. initDatabase env (fl_dataDir f) cfg q = Returned db q'
      \<and> initServices env cfg db q' = Returned svc p'"
  using assms
  by (auto simp: boot_services_def Let_def logging_def run_then_iff split: prod.splits if_splits)

lemma after_config_returned:
  assumes "after_config env f cfg p = Returned (Some (f', cfg', svc)) p'"
  shows "f' = f" "cfg' = cfg" "\<not> fl_genCertOnly f"
    "\<exists>l. boot_services env f cfg (p\<lparr>ps_log := l\<rparr>) = Returned svc p'"
  using assms
  by (auto simp: after_config_def run_then_iff split: option.splits prod.splits if_splits)

lemma boot_returned:
  assumes "boot env args p = Returned (Some (f, cfg, svc)) p'"
  shows "parseFlags args = Inr f" "\<not> fl_genCertOnly f"
    "Parse (be_yaml env) (be_read env (resolveConfigPath f)) = Inr cfg"
    "\<exists>q. ps_disk q = ps_disk p \<and> boot_services env f cfg q = Returned svc p'"
proof -
  from assms obtain f' cfg' q where
    f': "parseFlags args = Inr f'" "loadConfig env (resolveConfigPath f') p = Returned cfg' q"
    and "after_config env f' cfg' q = Returned (Some (f, cfg, svc)) p'"
    by (auto simp: boot_def run_then_iff split: sum.splits option.splits)
  note a = after_config_returned [OF this(3)]
  note l = loadConfig_returned [OF f'(2)]
  show "parseFlags args = Inr f" "\<not> fl_genCertOnly f"
    "Parse (be_yaml env) (be_read env (resolveConfigPath f)) = Inr cfg"
    using f'(1) a(1-3) l by simp_all
  from a(4) obtain log where "boot_services env f' cfg' (q\<lparr>ps_log := log\<rparr>) = Returned svc p'" ..
  with a(1,2) l show "\<exists>q. ps_disk q = ps_disk p \<and> boot_services env f cfg q = Returned svc p'"
    by (intro exI [of _ "q\<lparr>ps_log := log\<rparr>"]) simp
qed

lemma boot_ready_state:
  assumes "boot env args p = Returned (Some (f, cfg, svc)) p'"
  shows "case resolveCertPaths (fl_dataDir f) of (c, k) \<Rightarrow> CertExists c k (ps_disk p)"
    and "\<exists>db. InitSchema (be_exec env) (be_file env (database_path (fl_dataDir f) cfg)) = Inr db
      \<and> sv_usageBackend svc = (NewUsageBackend db)\<lparr>b_worker := Selecting\<rparr>"
    and "sv_keyStore svc = NewStore" "be_router env (registered_patterns cfg) = None"
    and "px_cfg (sv_proxyServer svc) = cfg" "setupRoutes cfg = Inr (px_routes (sv_proxyServer svc))"
proof -
  from boot_returned(4) [OF assms] obtain q where
    q: "ps_disk q = ps_disk p" "boot_services env f cfg q = Returned svc p'" by blast
  from boot_services_returned(2) [OF q(2)] obtain db q1 q2 where
    db: "initDatabase env (fl_dataDir f) cfg q1 = Returned db q2"
    and svc: "initServices env cfg db q2 = Returned svc p'" by blast
  note i = initServices_returned [OF svc]
  note ps = NewProxyServer_some [OF i(4)]
  show "case resolveCertPaths (fl_dataDir f) of (c, k) \<Rightarrow> CertExists c k (ps_disk p)"
    using boot_services_returned(1) [OF q(2)] q(1) by simp
  show "\<exists>db. InitSchema (be_exec env) (be_file env (database_path (fl_dataDir f) cfg)) = Inr db
      \<and> sv_usageBackend svc = (NewUsageBackend db)\<lparr>b_worker := Selecting\<rparr>"
    using initDatabase_returned [OF db] i(2) by blast
  show "sv_keyStore svc = NewStore" "be_router env (registered_patterns cfg) = None"
    "px_cfg (sv_proxyServer svc) = cfg" "setupRoutes cfg = Inr (px_routes (sv_proxyServer svc))"
    using i ps by simp_all
qed

lemma boot_ready_deployed:
  assumes "boot env args p = Returned (Some (f, cfg, svc)) p'"
  shows "deployed (deployment_of L svc)" "d_cfg (deployment_of L svc) = cfg"
  using boot_ready_state(5,6) [OF assms] Parse_config_ok [OF boot_returned(3) [OF assms]]
    Parse_routes_ok [OF boot_returned(3) [OF assms]]
  by (simp_all add: deployed_def deployment_of_def)

section \<open>How a start fails\<close>

definition fatal_logged :: "boot_env \<Rightarrow> process \<Rightarrow> bool" where
  "fatal_logged env p \<longleftrightarrow> (\<exists>e. lg_lines (ps_log p) \<noteq> []
     \<and> last (lg_lines (ps_log p)) = (''[ERROR]'', ''FATAL PANIC: '' @ fatal_message env e))"

lemma log_calls_ready [simp]:
  "lg_ready (AppInfof m l) = lg_ready l" "lg_ready (AppErrorf m l) = lg_ready l"
  "lg_ready (AppWarnf m l) = lg_ready l" "lg_ready (AppDebugf m l) = lg_ready l"
  by (simp_all add: log_defs)

lemma process_calls [simp]:
  "ps_log (Printf t p) = ps_log p" "ps_log (Println t p) = ps_log p" "ps_log (logging g p) = g (ps_log p)"
  "ps_log (Eprintf t p) = ps_log p" "ps_log (Eprintln t p) = ps_log p"
  "ps_stderr (Printf t p) = ps_stderr p" "ps_stderr (Println t p) = ps_stderr p"
  "ps_stderr (logging g p) = ps_stderr p" "ps_stderr (Eprintf t p) = ps_stderr p @ t"
  "ps_stderr (Eprintln t p) = ps_stderr p @ t @ [LF]"
  by (simp_all add: Printf_def Println_def Eprintf_def Eprintln_def logging_def)

lemma fatalf_logged:
  "fatalf env e p = Exit st p' \<Longrightarrow> st = 1 \<and> (lg_ready (ps_log p) \<longrightarrow> fatal_logged env p')"
  by (auto simp: fatalf_def fatal_logged_def AppErrorf_def log_line_def)

lemma fatalf_not_returned [simp]: "fatalf env e p \<noteq> Returned x p'"
  by (simp add: fatalf_def)

lemma generateCert_exit:
  "generateCert env uri dir p = Exit st p' \<Longrightarrow> lg_ready (ps_log p) \<Longrightarrow> fatal_logged env p'"
  by (auto simp: generateCert_def Let_def split: option.splits prod.splits dest!: fatalf_logged)

lemma initDatabase_exit:
  "initDatabase env dir cfg p = Exit st p' \<Longrightarrow> lg_ready (ps_log p) \<Longrightarrow> fatal_logged env p'"
  by (auto simp: initDatabase_def Let_def split: option.splits sum.splits dest!: fatalf_logged)

lemma initDatabase_ready:
  "initDatabase env dir cfg p = Returned db p' \<Longrightarrow> lg_ready (ps_log p') = lg_ready (ps_log p)"
  by (auto simp: initDatabase_def Let_def split: option.splits sum.splits)

lemma initServices_exit:
  "initServices env cfg db p = Exit 1 p' \<Longrightarrow> lg_ready (ps_log p) \<Longrightarrow> fatal_logged env p'"
  by (auto simp: initServices_def Let_def split: option.splits sum.splits dest!: fatalf_logged)

lemma started_exit:
  "run_then (initDatabase env dir cfg p) (initServices env cfg) = Exit (Suc 0) p' \<Longrightarrow>
    lg_ready (ps_log p) \<Longrightarrow> fatal_logged env p'"
  unfolding run_then_exit using initDatabase_exit initDatabase_ready initServices_exit by fastforce

lemma boot_services_exit:
  "boot_services env f cfg p = Exit 1 p' \<Longrightarrow> lg_ready (ps_log p) \<Longrightarrow>
    (\<exists>msg. msg \<noteq> [] \<and> ps_stderr p' = ps_stderr p @ msg) \<or> fatal_logged env p'"
  by (auto simp: boot_services_def Let_def tls_missing_def split: prod.splits if_splits dest!: started_exit)

lemma after_config_exit:
  assumes "after_config env f cfg p = Exit 1 p'" "ps_log p = fresh_log"
  shows "(\<exists>msg. msg \<noteq> [] \<and> ps_stderr p' = ps_stderr p @ msg) \<or> fatal_logged env p'"
proof (cases "be_logdir env")
  case None
  then have i: "Init (be_logdir env) False (ps_log p)
      = (None, fresh_log\<lparr>lg_done := True, lg_ready := True, lg_debug := False\<rparr>)"
    by (simp add: Init_def assms(2) fresh_log_def)
  show ?thesis
  proof (cases "fl_genCertOnly f")
    case True
    with assms(1) show ?thesis by (auto simp: after_config_def i run_then_exit dest!: generateCert_exit)
  next
    case False
    with assms(1) boot_services_exit show ?thesis by (fastforce simp: after_config_def i run_then_exit)
  qed
next
  case (Some err)
  with assms show ?thesis by (auto simp: after_config_def Init_def fresh_log_def)
qed

lemma initServices_ready:
  "initServices env cfg db p = Returned svc p' \<Longrightarrow> lg_ready (ps_log p') = lg_ready (ps_log p)"
  by (auto simp: initServices_def Let_def split: sum.splits option.splits)

lemma started_ready:
  "run_then (initDatabase env dir cfg p) (initServices env cfg) = Returned svc p' \<Longrightarrow>
    lg_ready (ps_log p') = lg_ready (ps_log p)"
  by (auto simp: run_then_returned dest: initDatabase_ready initServices_ready)

lemma boot_services_ready:
  "boot_services env f cfg p = Returned svc p' \<Longrightarrow> lg_ready (ps_log p') = lg_ready (ps_log p)"
  by (auto simp: boot_services_def Let_def split: prod.splits if_splits dest!: started_ready)

lemma boot_ready_log:
  assumes "boot env args p = Returned (Some x) p'" "ps_log p = fresh_log"
  shows "lg_ready (ps_log p')"
proof -
  from assms(1) obtain f cfg q where "loadConfig env (resolveConfigPath f) p = Returned cfg q"
    and a: "after_config env f cfg q = Returned (Some x) p'"
    by (auto simp: boot_def run_then_iff split: sum.splits option.splits)
  then have q: "ps_log q = fresh_log" using assms(2) by (auto simp: loadConfig_def split: sum.splits)
  from a obtain svc l where l: "Init (be_logdir env) False (ps_log q) = (None, l)"
    and "boot_services env f cfg (q\<lparr>ps_log := l\<rparr>) = Returned svc p'"
    by (auto simp: after_config_def run_then_iff split: prod.splits option.splits if_splits)
  then have "lg_ready (ps_log p') = lg_ready l" by (auto dest: boot_services_ready)
  with l q show ?thesis by (auto simp: Init_def fresh_log_def Let_def split: option.splits)
qed

section \<open>A start for the instances\<close>

definition sample_process :: process where
  "sample_process = \<lparr>ps_log = fresh_log, ps_stdout = [], ps_stderr = [],
     ps_disk = (\<lambda>path. Some \<lparr>f_perm = 384, f_pem = PemBroken\<rparr>), ps_files = []\<rparr>"

definition sample_boot_env :: boot_env where
  "sample_boot_env = \<lparr>be_mkdir = None, be_yaml = sample_codec, be_read = (\<lambda>path. Inr []),
     be_logdir = None, be_cert = sample_cert_env, be_now = zero_time, be_open = (\<lambda>path. None),
     be_file = (\<lambda>path. \<lparr>df_daily = None, df_monthly = None, df_logs = None\<rparr>),
     be_exec = (\<lambda>st. None), be_grpcCert = sample_cert_env, be_createGrpc = (\<lambda>t k. Inr ''der''),
     be_keyPair = (\<lambda>c k. None), be_router = (\<lambda>ps. None), be_text = (\<lambda>e. ''e'')\<rparr>"

definition sample_services :: services where
  "sample_services =
     \<lparr>sv_grpcServer = \<lparr>gs_creds = (PemCert ''der'', PemKey ''k''), gs_cfg = sample_config\<rparr>,
      sv_proxyServer = \<lparr>px_cfg = sample_config, px_routes = [sample_route]\<rparr>,
      sv_keyStore = NewStore, sv_usageBackend = (NewUsageBackend empty_db)\<lparr>b_worker := Selecting\<rparr>\<rparr>"

lemma sample_initServices: "\<exists>p'. initServices sample_boot_env sample_config empty_db p = Returned sample_services p'"
  by (simp add: initServices_def Let_def NewServer_def GenerateEphemeralGRPCTLSConfig_def sample_boot_env_def
      sample_cert_env_def NewProxyServer_def sample_setup sample_services_def)

lemma sample_initDatabase: "\<exists>p'. initDatabase sample_boot_env dir cfg p = Returned empty_db p'"
  by (simp add: initDatabase_def Let_def sample_boot_env_def InitSchema_def create_missing_def empty_db_def)

lemma sample_boot_services:
  assumes "ps_disk p = ps_disk sample_process"
  shows "\<exists>p'. boot_services sample_boot_env f sample_config p = Returned sample_services p'"
proof -
  have run: "\<exists>p'. run_then (initDatabase sample_boot_env dir sample_config q)
      (initServices sample_boot_env sample_config) = Returned sample_services p'" for dir q
    using sample_initDatabase [of dir sample_config q] sample_initServices unfolding run_then_returned
    by blast
  show ?thesis
    using run by (simp add: boot_services_def Let_def CertExists_def logging_def assms sample_process_def
        split: prod.split)
qed

lemma sample_boot:
  "\<exists>p'. boot sample_boot_env [] sample_process
    = Returned (Some (default_flags, sample_config, sample_services)) p'"
proof -
  have flags: "parseFlags [] = Inr default_flags" by (simp add: parseFlags_def default_flags_def)
  have load: "\<exists>p. loadConfig sample_boot_env path sample_process = Returned sample_config p
      \<and> ps_log p = fresh_log \<and> ps_disk p = ps_disk sample_process" for path
    using sample_Parse by (simp add: loadConfig_def sample_boot_env_def sample_process_def Printf_def)
  then obtain p1 where p1: "loadConfig sample_boot_env (resolveConfigPath default_flags) sample_process
        = Returned sample_config p1"
      "ps_log p1 = fresh_log" "ps_disk p1 = ps_disk sample_process" by blast
  have "\<exists>l. Init (be_logdir sample_boot_env) False fresh_log = (None, l)"
    by (simp add: Init_def sample_boot_env_def fresh_log_def)
  then obtain l where l: "Init (be_logdir sample_boot_env) False fresh_log = (None, l)" ..
  have "ps_disk (p1\<lparr>ps_log := l\<rparr>) = ps_disk sample_process" using p1(3) by simp
  from sample_boot_services [OF this, of default_flags] obtain p2 where
    "boot_services sample_boot_env default_flags sample_config (p1\<lparr>ps_log := l\<rparr>)
      = Returned sample_services p2" ..
  moreover have "\<not> fl_genCertOnly default_flags" "be_mkdir sample_boot_env = None"
    by (simp_all add: default_flags_def flags_of_def server_flag_set_def sample_boot_env_def)
  ultimately show ?thesis
    using p1 l flags by (simp add: boot_def after_config_def)
qed

section \<open>Properties\<close>

text \<open>
  What a server has when it starts to listen: its configuration was read from the chosen file and is
  valid, both certificate files exist, the schema was set up, the router accepted every pattern; each
  route has the target of its provider; no key exists, nothing is queued, the worker is running, and the
  database has the rows that were found.
\<close>

theorem boot_ready:
  assumes "boot env args p = Returned (Some (f, cfg, svc)) p'"
  shows "parseFlags args = Inr f \<and> \<not> fl_genCertOnly f
    \<and> Parse (be_yaml env) (be_read env (resolveConfigPath f)) = Inr cfg
    \<and> (case resolveCertPaths (fl_dataDir f) of (c, k) \<Rightarrow> CertExists c k (ps_disk p))
    \<and> be_router env (registered_patterns cfg) = None
    \<and> deployed (deployment_of L svc) \<and> d_cfg (deployment_of L svc) = cfg
    \<and> (\<exists>db. InitSchema (be_exec env) (be_file env (database_path (fl_dataDir f) cfg)) = Inr db
        \<and> sr_gateway (server_start svc p')
            = (gw_start db)\<lparr>gw_backend := (NewUsageBackend db)\<lparr>b_worker := Selecting\<rparr>\<rparr>)"
  using boot_returned [OF assms] boot_ready_state [OF assms] boot_ready_deployed [OF assms, of L]
  by (auto simp: server_start_def gw_start_def)

lemma boot_ready_witness:
  "deployed (deployment_of sample_deployment sample_services)
    \<and> sr_gateway (server_start sample_services sample_process)
      = (gw_start empty_db)\<lparr>gw_backend := (NewUsageBackend empty_db)\<lparr>b_worker := Selecting\<rparr>\<rparr>"
proof -
  obtain p' where "boot sample_boot_env [] sample_process
    = Returned (Some (default_flags, sample_config, sample_services)) p'"
    using sample_boot by blast
  from boot_ready [OF this, of sample_deployment] show ?thesis
    by (auto simp: server_start_def sample_services_def gw_start_def sample_boot_env_def InitSchema_def
        create_missing_def empty_db_def)
qed

text \<open>
  A configuration error is silent: \<open>fatalf\<close> writes to the logger, which is initialised only after the
  configuration was loaded, because its file name comes from it. So a server whose configuration file
  is missing or invalid ends with status 1 and prints nothing at all, on no stream and in no log,
  whatever the error was.
\<close>

theorem config_error_is_silent:
  assumes "parseFlags args = Inr f" "be_mkdir env = None" "ps_log p = fresh_log"
    and "Parse (be_yaml env) (be_read env (resolveConfigPath f)) = Inl err"
  shows "boot env args p = Exit 1 p"
  using assms
  by (simp add: boot_def loadConfig_def fatalf_def logging_def AppErrorf_def log_line_def fresh_log_def)

lemma config_error_is_silent_witness:
  "boot (sample_boot_env\<lparr>be_read := \<lambda>path. Inl ''no such file''\<rparr>) [] sample_process = Exit 1 sample_process"
  by (rule config_error_is_silent [where f = default_flags and err = "ReadFailed ''no such file''"])
     (simp_all add: parseFlags_def default_flags_def sample_boot_env_def sample_process_def Parse_def)

text \<open>
  C28. Every other failure is reported: when start-up ends with status 1, either the configuration was at
  fault and nothing was printed, or something was written to standard error, or the last line of the
  log is the message of \<open>fatalf\<close>.
\<close>

theorem boot_failure_reported:
  assumes "boot env args p = Exit 1 p'" "ps_log p = fresh_log"
  shows "(\<exists>f err. parseFlags args = Inr f \<and> p' = p
        \<and> Parse (be_yaml env) (be_read env (resolveConfigPath f)) = Inl err)
    \<or> (\<exists>msg. msg \<noteq> [] \<and> ps_stderr p' = ps_stderr p @ msg)
    \<or> (\<exists>e. lg_lines (ps_log p') \<noteq> []
        \<and> last (lg_lines (ps_log p')) = (''[ERROR]'', ''FATAL PANIC: '' @ fatal_message env e))"
proof -
  obtain f where f: "parseFlags args = Inr f"
    using assms(1) by (auto simp: boot_def parseFlags_def split: sum.splits if_splits prod.splits)
  show ?thesis
  proof (cases "be_mkdir env = None \<and> (\<exists>cfg q. loadConfig env (resolveConfigPath f) p = Returned cfg q)")
    case True
    then obtain cfg q where q: "loadConfig env (resolveConfigPath f) p = Returned cfg q" by blast
    then have "ps_log q = fresh_log" "ps_stderr q = ps_stderr p"
      using assms(2) by (auto simp: loadConfig_def split: sum.splits)
    with after_config_exit [of env f cfg q p'] True q assms(1) f show ?thesis
      by (auto simp: boot_def fatal_logged_def)
  next
    case False
    with assms f show ?thesis
      by (auto simp: boot_def loadConfig_def fatalf_def logging_def AppErrorf_def log_line_def fresh_log_def
          split: sum.splits option.splits)
  qed
qed

lemma boot_failure_reported_witness:
  "\<exists>msg. msg \<noteq> [] \<and> ps_stderr (Eprintf ''failed to create data directory /etc/ai.local: denied'' sample_process)
    = ps_stderr sample_process @ msg"
proof -
  have "boot (sample_boot_env\<lparr>be_mkdir := Some ''denied''\<rparr>) [] sample_process
    = Exit 1 (Eprintf ''failed to create data directory /etc/ai.local: denied'' sample_process)"
    by (simp add: boot_def parseFlags_def flags_of_def server_flag_set_def)
  from boot_failure_reported [OF this] show ?thesis
    by (simp add: sample_process_def Eprintf_def fresh_log_def)
qed

text \<open>The failures of the steps of the plan, in an environment.\<close>

definition found_config :: "boot_env \<Rightarrow> server_flags \<Rightarrow> apml_config" where
  "found_config env f =
     (case Parse (be_yaml env) (be_read env (resolveConfigPath f)) of Inl e \<Rightarrow> zero_config | Inr c \<Rightarrow> c)"

fun boot_fails :: "boot_env \<Rightarrow> server_flags \<Rightarrow> process \<Rightarrow> boot_step \<Rightarrow> bool" where
  "boot_fails env f p MakeDataDir = (be_mkdir env \<noteq> None)"
| "boot_fails env f p LoadConfig = isl (Parse (be_yaml env) (be_read env (resolveConfigPath f)))"
| "boot_fails env f p InitLogger = (fst (Init (be_logdir env) False (ps_log p)) \<noteq> None)"
| "boot_fails env f p GenerateCert =
     (fst (GenerateSelfSignedCert (be_cert env) (be_now env) (cfg_BaseURI (found_config env f))
        (path_join (fl_dataDir f) ''ai.local.crt'') (path_join (fl_dataDir f) ''ai.local.key'')
        (ps_disk p)) \<noteq> None)"
| "boot_fails env f p FindCerts =
     (\<not> CertExists (fst (resolveCertPaths (fl_dataDir f))) (snd (resolveCertPaths (fl_dataDir f))) (ps_disk p))"
| "boot_fails env f p OpenDatabase = (be_open env (database_path (fl_dataDir f) (found_config env f)) \<noteq> None)"
| "boot_fails env f p boot_step.InitSchema =
     isl (InitSchema (be_exec env) (be_file env (database_path (fl_dataDir f) (found_config env f))))"
| "boot_fails env f p NewGRPCServer = isl (NewServer env (found_config env f))"
| "boot_fails env f p boot_step.NewProxyServer =
     (\<forall>ps. NewProxyServer (be_router env) (found_config env f) \<noteq> Some (Inr ps))"
| "boot_fails env f p st = False"

lemma initServices_plan:
  "found_config env f = cfg \<Longrightarrow> case initServices env cfg db q of
     Exit st r \<Rightarrow> st \<noteq> 0 \<and> (boot_fails env f p NewGRPCServer \<or> boot_fails env f p boot_step.NewProxyServer)
   | Returned svc r \<Rightarrow> \<not> boot_fails env f p NewGRPCServer \<and> \<not> boot_fails env f p boot_step.NewProxyServer"
  by (auto simp: initServices_def Let_def fatalf_def split: sum.split option.split)

lemma initDatabase_plan:
  "found_config env f = cfg \<Longrightarrow> case initDatabase env (fl_dataDir f) cfg q of
     Exit st r \<Rightarrow> st \<noteq> 0 \<and> (boot_fails env f p OpenDatabase \<or> boot_fails env f p boot_step.InitSchema)
   | Returned db r \<Rightarrow> \<not> boot_fails env f p OpenDatabase \<and> \<not> boot_fails env f p boot_step.InitSchema"
  by (auto simp: initDatabase_def Let_def fatalf_def split: sum.split option.split)

lemma generateCert_plan:
  "found_config env f = cfg \<Longrightarrow> ps_disk q = ps_disk p \<Longrightarrow>
    case generateCert env (cfg_BaseURI cfg) (fl_dataDir f) q of
      Exit st r \<Rightarrow> st \<noteq> 0 \<and> boot_fails env f p GenerateCert
    | Returned u r \<Rightarrow> \<not> boot_fails env f p GenerateCert"
  by (auto simp: generateCert_def Let_def fatalf_def logging_def Printf_def split: option.split prod.split)

definition services_fail :: "boot_env \<Rightarrow> server_flags \<Rightarrow> process \<Rightarrow> bool" where
  "services_fail env f p \<longleftrightarrow> (\<exists>st \<in> {FindCerts, OpenDatabase, boot_step.InitSchema, NewGRPCServer,
     boot_step.NewProxyServer}. boot_fails env f p st)"

lemma database_services_plan:
  assumes "found_config env f = cfg" "\<not> boot_fails env f p FindCerts"
  shows "case run_then (initDatabase env (fl_dataDir f) cfg q) (initServices env cfg) of
     Exit st r \<Rightarrow> st \<noteq> 0 \<and> services_fail env f p
   | Returned svc r \<Rightarrow> \<not> services_fail env f p"
proof (cases "initDatabase env (fl_dataDir f) cfg q")
  case (Exit st r)
  with initDatabase_plan [OF assms(1), where q = q and p = p] show ?thesis by (auto simp: services_fail_def)
next
  case (Returned db r)
  with initDatabase_plan [OF assms(1), where q = q and p = p]
    initServices_plan [OF assms(1), where q = r and p = p and db = db] assms(2)
  show ?thesis by (auto simp: services_fail_def split: run.splits)
qed

lemma boot_services_plan:
  assumes "found_config env f = cfg" "ps_disk q = ps_disk p"
  shows "case boot_services env f cfg q of
     Exit st r \<Rightarrow> st \<noteq> 0 \<and> services_fail env f p
   | Returned svc r \<Rightarrow> \<not> services_fail env f p"
proof (cases "boot_fails env f p FindCerts")
  case True
  then have "services_fail env f p" unfolding services_fail_def by blast
  with True assms(2) show ?thesis
    by (auto simp: boot_services_def Let_def logging_def split: prod.split)
next
  case False
  with database_services_plan [OF assms(1) False] assms(2) show ?thesis
    by (auto simp: boot_services_def Let_def logging_def split: prod.split)
qed

lemma run_main_services:
  assumes "\<not> boot_fails env f p MakeDataDir" "\<not> boot_fails env f p LoadConfig"
    "\<not> boot_fails env f p InitLogger" "\<not> fl_genCertOnly f"
  shows "if services_fail env f p
    then snd (run_main f (boot_fails env f p) crash) = 1
      \<and> StartListeners \<notin> set (fst (run_main f (boot_fails env f p) crash))
    else StartListeners \<in> set (fst (run_main f (boot_fails env f p) crash))"
proof -
  have "\<not> boot_fails env f p StartUsageWorker" by simp
  with assms show ?thesis unfolding services_fail_def
    by (simp add: run_main_def prologue_def service_steps_def Let_def del: boot_fails.simps)
qed

text \<open>
  \<open>main\<close> follows the plan of \<open>ServerMain\<close>: run with the failures of the environment, the plan reaches
  the listeners exactly when \<open>main\<close> does, and ends with status 0 or not as \<open>main\<close> does, so the order
  of the plan's steps is the order of the program's.
\<close>

theorem boot_follows_plan:
  assumes "parseFlags args = Inr f"
  shows "case (boot env args p, run_main f (boot_fails env f p) crash) of (result, (steps, status)) \<Rightarrow>
    (case result of
       Exit st q \<Rightarrow> st \<noteq> 0 \<and> status = 1 \<and> StartListeners \<notin> set steps
     | Returned None q \<Rightarrow> steps = prologue @ [GenerateCert] \<and> status = 0
     | Returned (Some (f', cfg, svc)) q \<Rightarrow> StartListeners \<in> set steps)"
proof (cases "boot_fails env f p MakeDataDir \<or> boot_fails env f p LoadConfig")
  case True
  then show ?thesis
    by (auto simp: boot_def assms run_main_def prologue_def Let_def loadConfig_def fatalf_def
        split: sum.split)
next
  case False
  then obtain cfg where "Parse (be_yaml env) (be_read env (resolveConfigPath f)) = Inr cfg"
    by (cases "Parse (be_yaml env) (be_read env (resolveConfigPath f))") auto
  then obtain q where q: "loadConfig env (resolveConfigPath f) p = Returned cfg q"
      "ps_disk q = ps_disk p" "ps_log q = ps_log p" "found_config env f = cfg"
    by (simp add: loadConfig_def found_config_def Printf_def)
  with False have boot: "boot env args p = after_config env f cfg q" by (simp add: boot_def assms)
  obtain e l where l: "Init (be_logdir env) False (ps_log q) = (e, l)" by fastforce
  show ?thesis
  proof (cases e)
    case (Some err)
    with False l q(3) show ?thesis
      by (simp add: boot after_config_def run_main_def prologue_def)
  next
    case None
    show ?thesis
    proof (cases "fl_genCertOnly f")
      case True
      with generateCert_plan [OF q(4), where q = "q\<lparr>ps_log := l\<rparr>" and p = p] False None l q(2,3)
      show ?thesis
        by (auto simp: boot after_config_def run_main_def prologue_def split: run.splits)
    next
      case gen: False
      have fail: "\<not> boot_fails env f p MakeDataDir" "\<not> boot_fails env f p LoadConfig"
        "\<not> boot_fails env f p InitLogger"
        using False l None q(3) by simp_all
      from boot_services_plan [OF q(4), where q = "q\<lparr>ps_log := l\<rparr>" and p = p] run_main_services [OF fail gen, of crash]
      show ?thesis using None gen l q(2)
        by (auto simp: boot after_config_def split_beta split: run.splits if_splits)
    qed
  qed
qed

lemma boot_follows_plan_witness:
  "StartListeners \<in> set (fst (run_main default_flags
     (boot_fails sample_boot_env default_flags sample_process) False))"
proof -
  obtain p' where "boot sample_boot_env [] sample_process
    = Returned (Some (default_flags, sample_config, sample_services)) p'"
    using sample_boot by blast
  moreover have "parseFlags [] = Inr default_flags" by (simp add: parseFlags_def default_flags_def)
  ultimately show ?thesis
    using boot_follows_plan [of "[]" default_flags sample_boot_env sample_process False]
    by (simp add: split_beta)
qed

end
