(* ===== verification/ServerRun.thy ===== *)
theory ServerRun
  imports Server
begin

text \<open>
  The running server as a step relation, from \<open>startServices\<close> in \<open>cmd/server/main.go\<close> to the end of the
  process: the two listeners, the backup goroutine, the gateway between them, the signal, and the
  shutdown with the deferred calls of \<open>main\<close>. The phase of a server that ended carries its exit
  status.
\<close>

section \<open>The goroutines of a running server\<close>

text \<open>The backup goroutine: reading the configuration and both writes may fail.\<close>

definition backupAPMLConfiguration ::
  "string \<Rightarrow> string \<Rightarrow> (string \<Rightarrow> string + string) \<Rightarrow> (string \<Rightarrow> string option) \<Rightarrow> go_time \<Rightarrow> string
     \<Rightarrow> process \<Rightarrow> process" where
  "backupAPMLConfiguration dataDir configPath read write_err now planName p =
     (let latestPath = path_join dataDir (''.apml-'' @ planName);
          historyPath = path_join dataDir (''.apml-'' @ planName @ ''-'' @ format_stamp now)
      in case read configPath of
           Inl err \<Rightarrow> logging (AppWarnf (''[Backup Warning] Failed to read source APML: '' @ err)) p
         | Inr content \<Rightarrow>
             (let p = (case write_err latestPath of
                    Some err \<Rightarrow>
                      logging (AppWarnf (''[Backup Warning] Failed to sync latest APML snapshot: '' @ err)) p
                  | None \<Rightarrow> p\<lparr>ps_files := ps_files p @ [(latestPath, content)]\<rparr>)
              in case write_err historyPath of
                   Some err \<Rightarrow>
                     logging (AppWarnf (''[Backup Warning] Failed to sync historical APML: '' @ err)) p
                 | None \<Rightarrow>
                     Printf (''  '' @ arrow @ '' Trajectory: '' @ historyPath @ [LF])
                       (Printf (''  '' @ arrow @ '' Snapshot:   '' @ latestPath @ [LF])
                         (Println ''[Backup] Configuration synchronized.''
                           (logging (AppInfof (''APML routing specifications successfully backed up. snapshot=''
                               @ latestPath @ '', archive='' @ historyPath))
                             (p\<lparr>ps_files := ps_files p @ [(historyPath, content)]\<rparr>))))))"

text \<open>What \<open>ProxyServer.Start\<close> prints, for an order in which the map of routes is iterated.\<close>

definition provider_or_zero :: "apml_config \<Rightarrow> route_config \<Rightarrow> provider_config" where
  "provider_or_zero cfg route =
     (case map_of (cfg_Providers cfg) (rc_Provider route) of None \<Rightarrow> zero_provider | Some p \<Rightarrow> p)"

fun print_routes :: "apml_config \<Rightarrow> (string \<times> route_config) list \<Rightarrow> process \<Rightarrow> process" where
  "print_routes cfg [] p = p"
| "print_routes cfg ((path, route) # rs) p =
     print_routes cfg rs
       (Printf (''  '' @ path @ '' -> https://'' @ pc_Host (provider_or_zero cfg route) @ [LF]) p)"

definition announce :: "apml_config \<Rightarrow> string \<Rightarrow> (string \<times> route_config) list \<Rightarrow> process \<Rightarrow> process" where
  "announce cfg addr order p =
     print_routes cfg order (Printf (''ai.local listening on https://0.0.0.0'' @ addr @ [LF]) p)"

datatype server_event =
    Energized
  | KilledBySignal
  | ControlBinding
  | ControlListening
  | ControlCrashed listen_error
  | DataAnnounced
  | DataListening
  | DataCrashed string
  | BackedUp
  | SignalReceived string
  | ControlStopped
  | StopUsage
  | UsageStopped
  | DatabaseClosed
  | Inner gw_event

definition alive :: "server \<Rightarrow> bool" where
  "alive s \<longleftrightarrow> sr_phase s \<in> {Starting, Running, Signalled, Deactivated, Stopping, ClosingDb}"

text \<open>
  The listeners decide which steps of the gateway are possible: remote calls need the control plane,
  admissions need the data plane, which nothing stops before the process ends. Starting the worker
  and closing \<open>done\<close> are steps of \<open>main\<close>.
\<close>

fun possible :: "server \<Rightarrow> gw_event \<Rightarrow> bool" where
  "possible s (KeyAdded res) = (sr_control s = Listening)"
| "possible s (KeyDeleted uid found) = (sr_control s = Listening)"
| "possible s (Admitted fault now rq fl) = (sr_data s = Listening)"
| "possible s (Refused d) = (sr_data s = Listening)"
| "possible s (Background ev) = (ev \<notin> {StartWorker, CloseDone})"
| "possible s ev = True"

definition to_process :: "(process \<Rightarrow> process) \<Rightarrow> server \<Rightarrow> server" where
  "to_process f s = s\<lparr>sr_process := f (sr_process s)\<rparr>"

text \<open>
  The control plane's \<open>Start\<close> after its address is bound, and its \<open>Stop\<close>: a graceful stop ends a server
  that listens; one that does not yet listen will fail in \<open>Serve\<close>.
\<close>

definition grpc_listening :: "string \<Rightarrow> process \<Rightarrow> process" where
  "grpc_listening addr =
     logging (AppInfof (''ai.local-control admin control-plane listening on gRPC: '' @ addr))"

definition grpc_Stop :: "listener \<Rightarrow> listener" where
  "grpc_Stop l = (if l = Listening then Down else l)"

definition energized :: "server_flags \<Rightarrow> process \<Rightarrow> process" where
  "energized f p =
     Println (LF # ''ai.local core services fully energized. Press Ctrl+C to terminate.'')
       (logging (AppInfof (''core services fully energized. control-plane: '' @ fl_grpcAddr f
          @ '', data-plane: '' @ fl_proxyAddr f)) p)"

definition shutdown_begins :: "string \<Rightarrow> process \<Rightarrow> process" where
  "shutdown_begins sig p =
     Println (LF # ''[ai.local] Initiating graceful shutdown protocol...'')
       (logging (AppWarnf (''received terminal signal ('' @ sig
          @ ''). initiating graceful shutdown protocol...'')) p)"

definition shutdown_ends :: "process \<Rightarrow> process" where
  "shutdown_ends p =
     Println ''[ai.local] Core services safely deactivated. Goodbye.''
       (logging (AppInfof ''core gateway services safely deactivated. engine shutdown complete.'') p)"

text \<open>
  \<open>startServices\<close>, \<open>waitForShutdown\<close> and the deferred calls of \<open>main\<close>. \<open>Serve\<close> of the gRPC library
  returns without an error when the server is stopped while it listens, and with one when it was
  stopped before; a listener that fails ends the process through \<open>fatalf\<close>.
\<close>

inductive server_step ::
  "boot_env \<Rightarrow> server_flags \<Rightarrow> deployment \<Rightarrow> server \<Rightarrow> server_event \<Rightarrow> server \<Rightarrow> bool"
  for env f D where
  ss_energized: "sr_phase s = Starting \<Longrightarrow>
    server_step env f D s Energized (to_process (energized f) (s\<lparr>sr_phase := Running\<rparr>))"
| ss_killed: "sr_phase s = Starting \<Longrightarrow>
    server_step env f D s KilledBySignal (s\<lparr>sr_phase := Killed\<rparr>)"
| ss_control_binding: "alive s \<Longrightarrow> sr_control s = Pending \<Longrightarrow>
    server_step env f D s ControlBinding
      (to_process (logging (AppDebugf (''binding gRPC control plane listener onto '' @ fl_grpcAddr f)))
        (s\<lparr>sr_control := Binding\<rparr>))"
| ss_control_listening: "sr_phase s \<in> {Starting, Running, Signalled} \<Longrightarrow> sr_control s = Binding \<Longrightarrow>
    server_step env f D s ControlListening
      (to_process (grpc_listening (fl_grpcAddr f))
        (s\<lparr>sr_control := Listening\<rparr>))"
| ss_control_crashed: "alive s \<Longrightarrow> sr_control s \<in> {Binding, Listening} \<Longrightarrow>
    fatalf env (GrpcCrashed err) (sr_process s) = (Exit status p :: unit run) \<Longrightarrow>
    server_step env f D s (ControlCrashed err) (s\<lparr>sr_process := p, sr_phase := Dead status\<rparr>)"
| ss_data_announced: "alive s \<Longrightarrow> sr_data s = Pending \<Longrightarrow> mset order = mset (cfg_Routes (d_cfg D)) \<Longrightarrow>
    server_step env f D s DataAnnounced
      (to_process (\<lambda>p. announce (d_cfg D) (fl_proxyAddr f) order
          (logging (AppDebugf (''binding reverse proxy data plane listener onto '' @ fl_proxyAddr f
             @ '' (TLS)'')) p))
        (s\<lparr>sr_data := Binding\<rparr>))"
| ss_data_listening: "alive s \<Longrightarrow> sr_data s = Binding \<Longrightarrow>
    server_step env f D s DataListening (s\<lparr>sr_data := Listening\<rparr>)"
| ss_data_crashed: "alive s \<Longrightarrow> sr_data s \<in> {Binding, Listening} \<Longrightarrow>
    fatalf env (ProxyCrashed err) (sr_process s) = (Exit status p :: unit run) \<Longrightarrow>
    server_step env f D s (DataCrashed err) (s\<lparr>sr_process := p, sr_phase := Dead status\<rparr>)"
| ss_backup: "alive s \<Longrightarrow> \<not> sr_backup s \<Longrightarrow>
    server_step env f D s BackedUp
      (to_process (backupAPMLConfiguration (fl_dataDir f) (resolveConfigPath f) read write_err now
          (buildPlanName (d_cfg D)))
        (s\<lparr>sr_backup := True\<rparr>))"
| ss_signal: "sr_phase s = Running \<Longrightarrow>
    server_step env f D s (SignalReceived sig)
      (to_process (shutdown_begins sig) (s\<lparr>sr_phase := Signalled\<rparr>))"
| ss_control_stopped: "sr_phase s = Signalled \<Longrightarrow>
    server_step env f D s ControlStopped
      (to_process shutdown_ends
        (s\<lparr>sr_control := grpc_Stop (sr_control s),
           sr_phase := Deactivated\<rparr>))"
| ss_stop_usage: "sr_phase s = Deactivated \<Longrightarrow>
    backend_step (d_engine D) (gw_backend (sr_gateway s)) CloseDone b \<Longrightarrow>
    server_step env f D s StopUsage
      (s\<lparr>sr_gateway := (sr_gateway s)\<lparr>gw_backend := b\<rparr>, sr_phase := Stopping\<rparr>)"
| ss_usage_stopped: "sr_phase s = Stopping \<Longrightarrow> stop_returns (gw_backend (sr_gateway s)) \<Longrightarrow>
    server_step env f D s UsageStopped (s\<lparr>sr_phase := ClosingDb\<rparr>)"
| ss_db_closed: "sr_phase s = ClosingDb \<Longrightarrow>
    server_step env f D s DatabaseClosed (s\<lparr>sr_phase := Dead 0\<rparr>)"
| ss_inner: "alive s \<Longrightarrow> possible s ev \<Longrightarrow> gw_step D (sr_gateway s) ev g \<Longrightarrow>
    server_step env f D s (Inner ev) (s\<lparr>sr_gateway := g\<rparr>)"

inductive_cases server_stepE: "server_step env f D s ev s'"

inductive server_run ::
  "boot_env \<Rightarrow> server_flags \<Rightarrow> deployment \<Rightarrow> server \<Rightarrow> server_event list \<Rightarrow> server \<Rightarrow> bool"
  for env f D s where
  sv_nil: "server_run env f D s [] s"
| sv_snoc: "server_run env f D s evs s' \<Longrightarrow> server_step env f D s' ev s'' \<Longrightarrow>
    server_run env f D s (evs @ [ev]) s''"

text \<open>What the gateway did in a run of the server.\<close>

fun gateway_events :: "server_event list \<Rightarrow> gw_event list" where
  "gateway_events [] = []"
| "gateway_events (Inner ev # evs) = ev # gateway_events evs"
| "gateway_events (StopUsage # evs) = Background CloseDone # gateway_events evs"
| "gateway_events (ev # evs) = gateway_events evs"

lemma gateway_events_append [simp]:
  "gateway_events (evs @ evs') = gateway_events evs @ gateway_events evs'"
  by (induction evs rule: gateway_events.induct) simp_all

section \<open>A run of the server is a run of the gateway\<close>

lemma to_process_sel [simp]:
  "sr_gateway (to_process g s) = sr_gateway s" "sr_control (to_process g s) = sr_control s"
  "sr_data (to_process g s) = sr_data s" "sr_phase (to_process g s) = sr_phase s"
  "sr_backup (to_process g s) = sr_backup s" "sr_process (to_process g s) = g (sr_process s)"
  by (simp_all add: to_process_def)

lemma server_step_gateway:
  assumes "server_step env f D s ev s'"
  shows "gateway_events [ev] = [] \<and> sr_gateway s' = sr_gateway s
    \<or> (\<exists>gev. gateway_events [ev] = [gev] \<and> gw_step D (sr_gateway s) gev (sr_gateway s'))"
  using assms by (cases rule: server_step.cases) (auto intro: gw_background)

lemma server_run_gateway:
  assumes "server_run env f D s evs s'" "gw_run D g gevs (sr_gateway s)"
  shows "gw_run D g (gevs @ gateway_events evs) (sr_gateway s')"
  using assms(1)
proof (induction rule: server_run.induct)
  case sv_nil
  then show ?case using assms(2) by simp
next
  case (sv_snoc evs s' ev s'')
  from server_step_gateway [OF sv_snoc.hyps(2)] show ?case
  proof
    assume "gateway_events [ev] = [] \<and> sr_gateway s'' = sr_gateway s'"
    then show ?thesis using sv_snoc.IH by simp
  next
    assume "\<exists>gev. gateway_events [ev] = [gev] \<and> gw_step D (sr_gateway s') gev (sr_gateway s'')"
    then obtain gev where "gateway_events [ev] = [gev]" "gw_step D (sr_gateway s') gev (sr_gateway s'')"
      by blast
    with gw_snoc [OF sv_snoc.IH] show ?thesis by simp
  qed
qed

section \<open>Phases\<close>

lemma server_run_append:
  "server_run env f D s (evs @ evs') s'' \<Longrightarrow>
    \<exists>s'. server_run env f D s evs s' \<and> server_run env f D s' evs' s''"
proof (induction evs' arbitrary: s'' rule: rev_induct)
  case Nil
  then show ?case using sv_nil by fastforce
next
  case (snoc ev evs')
  then obtain t where "server_run env f D s (evs @ evs') t" "server_step env f D t ev s''"
    by (auto elim: server_run.cases)
  with snoc.IH sv_snoc show ?case by (metis append_assoc)
qed

lemma dead_is_final: "\<not> alive s \<Longrightarrow> \<not> server_step env f D s ev s'"
  by (auto simp: alive_def elim!: server_stepE)

text \<open>Once the control plane was stopped it never listens again.\<close>

definition control_over :: "server \<Rightarrow> bool" where
  "control_over s \<longleftrightarrow> sr_control s \<noteq> Listening \<and> sr_phase s \<notin> {Starting, Running, Signalled}"

fun key_event :: "gw_event \<Rightarrow> bool" where
  "key_event (KeyAdded res) = True"
| "key_event (KeyDeleted uid found) = True"
| "key_event ev = False"

lemma control_over_step:
  assumes "server_step env f D s ev s'" "control_over s"
  shows "control_over s'" "\<forall>gev \<in> set (gateway_events [ev]). \<not> key_event gev"
proof -
  show "control_over s'" using assms by (cases rule: server_step.cases) (auto simp: control_over_def grpc_Stop_def)
  from assms show "\<forall>gev \<in> set (gateway_events [ev]). \<not> key_event gev"
  proof (cases rule: server_step.cases)
    case (ss_inner gev g)
    then show ?thesis using assms(2) by (cases gev) (auto simp: control_over_def)
  qed auto
qed

lemma control_over_run:
  "server_run env f D s evs s' \<Longrightarrow> control_over s \<Longrightarrow>
    control_over s' \<and> (\<forall>gev \<in> set (gateway_events evs). \<not> key_event gev)"
proof (induction rule: server_run.induct)
  case (sv_snoc evs s' ev s'')
  then show ?case using control_over_step [OF sv_snoc.hyps(2)] by auto
qed simp

text \<open>When \<open>Stop\<close> has returned, the worker has exited and stays so.\<close>

definition worker_over :: "server \<Rightarrow> bool" where
  "worker_over s \<longleftrightarrow> b_worker (gw_backend (sr_gateway s)) \<noteq> NotStarted
     \<and> (sr_phase s \<in> {ClosingDb, Dead 0} \<longrightarrow> b_worker (gw_backend (sr_gateway s)) = Exited)"

lemma backend_step_worker:
  "backend_step E b ev b' \<Longrightarrow> (b_worker b \<noteq> NotStarted \<longrightarrow> b_worker b' \<noteq> NotStarted)
    \<and> (b_worker b = Exited \<longrightarrow> b_worker b' = Exited)"
  by (cases rule: backend_step.cases) (auto simp: EmitNonBlocking_def)

lemma gw_step_worker:
  "gw_step D g ev g' \<Longrightarrow> (b_worker (gw_backend g) \<noteq> NotStarted \<longrightarrow> b_worker (gw_backend g') \<noteq> NotStarted)
    \<and> (b_worker (gw_backend g) = Exited \<longrightarrow> b_worker (gw_backend g') = Exited)"
  by (cases rule: gw_step.cases) (auto dest: backend_step_worker)

lemma worker_over_step:
  assumes "server_step env f D s ev s'" "worker_over s" "alive s"
  shows "worker_over s'"
  using assms
proof (cases rule: server_step.cases)
  case (ss_inner gev g)
  then show ?thesis using gw_step_worker [OF ss_inner(5)] assms(2) by (auto simp: worker_over_def)
next
  case (ss_stop_usage b)
  then show ?thesis using backend_step_worker [OF ss_stop_usage(4)] assms(2) by (auto simp: worker_over_def)
qed (auto simp: worker_over_def stop_returns_def alive_def fatalf_def)

lemma worker_over_run: "server_run env f D s evs s' \<Longrightarrow> worker_over s \<Longrightarrow> worker_over s'"
proof (induction rule: server_run.induct)
  case (sv_snoc evs s' ev s'')
  then show ?case using worker_over_step [OF sv_snoc.hyps(2)] dead_is_final sv_snoc.hyps(2) by blast
qed

lemma worker_over_start: "b_worker (sv_usageBackend svc) = Selecting \<Longrightarrow> worker_over (server_start svc p)"
  by (simp add: worker_over_def server_start_def)

text \<open>How a server ends.\<close>

lemma last_step_of_dead:
  assumes "server_step env f D s ev s'" "sr_phase s' = Dead st"
  shows "st = 0 \<and> ev = DatabaseClosed
    \<or> st = 1 \<and> (\<exists>err err'. ev = ControlCrashed err \<or> ev = DataCrashed err')
      \<and> (lg_ready (ps_log (sr_process s)) \<longrightarrow> fatal_logged env (sr_process s'))"
proof (cases "alive s")
  case True
  from assms(1) show ?thesis
  proof (cases rule: server_step.cases)
    case (ss_control_crashed err status p)
    then show ?thesis using fatalf_logged [OF ss_control_crashed(5)] assms(2) by auto
  next
    case (ss_data_crashed err status p)
    then show ?thesis using fatalf_logged [OF ss_data_crashed(5)] assms(2) by auto
  qed (use assms(2) True in \<open>auto simp: alive_def\<close>)
qed (use assms dead_is_final in blast)

lemma print_routes_log [simp]: "ps_log (print_routes cfg rs p) = ps_log p"
  by (induction cfg rs p rule: print_routes.induct) simp_all

lemma step_log_ready:
  "server_step env f D s ev s' \<Longrightarrow> lg_ready (ps_log (sr_process s)) \<Longrightarrow> lg_ready (ps_log (sr_process s'))"
  by (cases rule: server_step.cases)
     (auto simp: energized_def grpc_listening_def shutdown_begins_def shutdown_ends_def announce_def fatalf_def
       backupAPMLConfiguration_def Let_def split: sum.split option.split)

lemma run_log_ready:
  "server_run env f D s evs s' \<Longrightarrow> lg_ready (ps_log (sr_process s)) \<Longrightarrow> lg_ready (ps_log (sr_process s'))"
  by (induction rule: server_run.induct) (auto dest: step_log_ready)

lemma stopped_phases:
  "server_run env f D s evs s' \<Longrightarrow> sr_phase s = Starting \<Longrightarrow>
    sr_phase s' \<in> {Deactivated, Stopping, ClosingDb, Dead 0} \<Longrightarrow> ControlStopped \<in> set evs"
proof (induction rule: server_run.induct)
  case (sv_snoc evs s' ev s'')
  from sv_snoc.hyps(2) sv_snoc.prems sv_snoc.IH show ?case
    by (cases rule: server_step.cases) (auto simp: fatalf_def)
qed simp

section \<open>A run for the instances\<close>

text \<open>
  A key is added and a request admitted; then the signal comes, the control plane and the worker stop,
  and only then the request is answered.
\<close>

definition reached :: "process \<Rightarrow> server_event list \<Rightarrow> gateway \<Rightarrow> listener \<Rightarrow> listener \<Rightarrow> phase \<Rightarrow> bool" where
  "reached p evs g c d ph \<longleftrightarrow> (\<exists>s. server_run sample_boot_env default_flags sample_deployment
     (server_start sample_services p) evs s
     \<and> sr_gateway s = g \<and> sr_control s = c \<and> sr_data s = d \<and> sr_phase s = ph)"

lemma reached_step:
  assumes "reached p evs g c d ph"
    and "\<And>s. sr_gateway s = g \<Longrightarrow> sr_control s = c \<Longrightarrow> sr_data s = d \<Longrightarrow> sr_phase s = ph \<Longrightarrow>
      \<exists>s'. server_step sample_boot_env default_flags sample_deployment s ev s'
        \<and> sr_gateway s' = g' \<and> sr_control s' = c' \<and> sr_data s' = d' \<and> sr_phase s' = ph'"
  shows "reached p (evs @ [ev]) g' c' d' ph'"
proof -
  obtain s where run: "server_run sample_boot_env default_flags sample_deployment
      (server_start sample_services p) evs s"
    and s: "sr_gateway s = g" "sr_control s = c" "sr_data s = d" "sr_phase s = ph"
    using assms(1) unfolding reached_def by blast
  from assms(2) [OF s] obtain s' where
    "server_step sample_boot_env default_flags sample_deployment s ev s'"
    "sr_gateway s' = g' \<and> sr_control s' = c' \<and> sr_data s' = d' \<and> sr_phase s' = ph'" by blast
  with sv_snoc [OF run] show ?thesis unfolding reached_def by blast
qed

lemma reached_inner:
  assumes "reached p evs g c d ph" "gw_step sample_deployment g gev g'"
    and "ph \<in> {Running, Stopping}" "gev \<noteq> Background StartWorker" "gev \<noteq> Background CloseDone"
    and "key_event gev \<Longrightarrow> c = Listening" "d = Listening"
  shows "reached p (evs @ [Inner gev]) g' c d ph"
proof (rule reached_step [OF assms(1)])
  fix s :: server
  assume s: "sr_gateway s = g" "sr_control s = c" "sr_data s = d" "sr_phase s = ph"
  have "alive s" using assms(3) s(4) by (auto simp: alive_def)
  moreover have "possible s gev" using assms(4-7) s by (cases gev) auto
  ultimately have "server_step sample_boot_env default_flags sample_deployment s (Inner gev)
      (s\<lparr>sr_gateway := g'\<rparr>)"
    using assms(2) s(1) by (intro ss_inner) simp_all
  with s show "\<exists>s'. server_step sample_boot_env default_flags sample_deployment s (Inner gev) s'
      \<and> sr_gateway s' = g' \<and> sr_control s' = c \<and> sr_data s' = d \<and> sr_phase s' = ph"
    by (intro exI [of _ "s\<lparr>sr_gateway := g'\<rparr>"]) simp
qed

definition sample_worker :: backend where
  "sample_worker = (NewUsageBackend empty_db)\<lparr>b_worker := Selecting\<rparr>"

definition sample_exited :: backend where
  "sample_exited = sample_worker\<lparr>b_done := True, b_worker := Exited\<rparr>"

definition sample_server_events :: "server_event list" where
  "sample_server_events = [Energized, ControlBinding, ControlListening, DataAnnounced, DataListening,
     Inner (KeyAdded (Inr (internal_key_of ''xy''))), Inner sample_admission,
     SignalReceived ''interrupt'', ControlStopped, StopUsage, Inner (Background SeeDone),
     Inner (Background WorkerExit), Inner (Answered sample_flight (Some (Accept sample_emitted))),
     UsageStopped, DatabaseClosed]"

lemma reached_listening:
  "reached p [Energized, ControlBinding, ControlListening, DataAnnounced, DataListening]
     ((gw_start empty_db)\<lparr>gw_backend := sample_worker\<rparr>) Listening Listening Running"
proof -
  have "reached p [] ((gw_start empty_db)\<lparr>gw_backend := sample_worker\<rparr>) Pending Pending Starting"
    unfolding reached_def
    by (rule exI, rule conjI, rule sv_nil) (simp add: server_start_def sample_services_def gw_start_def
        sample_worker_def)
  note r = reached_step [OF this]
  have "reached p ([] @ [Energized]) ((gw_start empty_db)\<lparr>gw_backend := sample_worker\<rparr>)
      Pending Pending Running"
    by (rule r) (force intro: ss_energized)
  note r = reached_step [OF this]
  have "reached p (([] @ [Energized]) @ [ControlBinding]) ((gw_start empty_db)\<lparr>gw_backend := sample_worker\<rparr>)
      Binding Pending Running"
    by (rule r) (force intro: ss_control_binding simp: alive_def)
  note r = reached_step [OF this]
  have "reached p ((([] @ [Energized]) @ [ControlBinding]) @ [ControlListening])
      ((gw_start empty_db)\<lparr>gw_backend := sample_worker\<rparr>) Listening Pending Running"
    by (rule r) (force intro: ss_control_listening)
  note r = reached_step [OF this]
  have "reached p (((([] @ [Energized]) @ [ControlBinding]) @ [ControlListening]) @ [DataAnnounced])
      ((gw_start empty_db)\<lparr>gw_backend := sample_worker\<rparr>) Listening Binding Running"
    by (rule r) (force intro: ss_data_announced [OF _ _ refl] simp: alive_def)
  note r = reached_step [OF this]
  have "reached p ((((([] @ [Energized]) @ [ControlBinding]) @ [ControlListening]) @ [DataAnnounced])
        @ [DataListening])
      ((gw_start empty_db)\<lparr>gw_backend := sample_worker\<rparr>) Listening Listening Running"
    by (rule r) (force intro: ss_data_listening simp: alive_def)
  then show ?thesis by simp
qed

definition sample_prefix :: "server_event list" where
  "sample_prefix = [Energized, ControlBinding, ControlListening, DataAnnounced, DataListening,
     Inner (KeyAdded (Inr (internal_key_of ''xy''))), Inner sample_admission]"

lemma reached_admitted:
  "reached p sample_prefix (sample_gateway\<lparr>gw_backend := sample_worker, gw_flights := [sample_flight]\<rparr>)
     Listening Listening Running"
proof -
  have "b_db sample_worker = empty_db" by (simp add: sample_worker_def NewUsageBackend_def)
  from reached_inner [OF reached_inner [OF reached_listening sample_added_with] sample_admitted_with [OF this]]
  show ?thesis by (simp add: sample_admission_def sample_prefix_def)
qed

lemma sample_drained:
  "gw_step sample_deployment
     (sample_gateway\<lparr>gw_backend := sample_worker\<lparr>b_done := True\<rparr>, gw_flights := [sample_flight]\<rparr>)
     (Background SeeDone)
     (sample_gateway\<lparr>gw_backend := sample_worker\<lparr>b_done := True, b_worker := Draining\<rparr>,
        gw_flights := [sample_flight]\<rparr>)"
  "gw_step sample_deployment
     (sample_gateway\<lparr>gw_backend := sample_worker\<lparr>b_done := True, b_worker := Draining\<rparr>,
        gw_flights := [sample_flight]\<rparr>)
     (Background WorkerExit)
     (sample_gateway\<lparr>gw_backend := sample_exited, gw_flights := [sample_flight]\<rparr>)"
proof -
  let ?w = "sample_worker\<lparr>b_done := True\<rparr>"
  have step: "gw_step sample_deployment (sample_gateway\<lparr>gw_backend := b, gw_flights := fls\<rparr>) (Background ev)
      (sample_gateway\<lparr>gw_backend := b', gw_flights := fls\<rparr>)"
    if "own_event ev" "backend_step (d_engine sample_deployment) b ev b'" for b ev b' fls
    using gw_background [of ev sample_deployment "sample_gateway\<lparr>gw_backend := b, gw_flights := fls\<rparr>" b'] that
    by (simp add: sample_gateway_def gw_start_def)
  show "gw_step sample_deployment (sample_gateway\<lparr>gw_backend := ?w, gw_flights := [sample_flight]\<rparr>)
      (Background SeeDone)
      (sample_gateway\<lparr>gw_backend := sample_worker\<lparr>b_done := True, b_worker := Draining\<rparr>,
         gw_flights := [sample_flight]\<rparr>)"
    using bs_see_done [of ?w] by (intro step) (simp_all add: sample_worker_def NewUsageBackend_def)
  show "gw_step sample_deployment
     (sample_gateway\<lparr>gw_backend := sample_worker\<lparr>b_done := True, b_worker := Draining\<rparr>,
        gw_flights := [sample_flight]\<rparr>)
     (Background WorkerExit)
     (sample_gateway\<lparr>gw_backend := sample_exited, gw_flights := [sample_flight]\<rparr>)"
    using bs_exit [of "sample_worker\<lparr>b_done := True, b_worker := Draining\<rparr>"]
    by (intro step) (simp_all add: sample_worker_def sample_exited_def NewUsageBackend_def)
qed

lemma sample_server_run:
  "reached p sample_server_events (sample_gateway\<lparr>gw_backend := EmitNonBlocking sample_emitted sample_exited\<rparr>)
     Down Listening (Dead 0)"
proof -
  let ?fl = "\<lambda>b. sample_gateway\<lparr>gw_backend := b, gw_flights := [sample_flight]\<rparr>"
  let ?fin = "sample_gateway\<lparr>gw_backend := EmitNonBlocking sample_emitted sample_exited\<rparr>"
  let ?sig = "sample_prefix @ [SignalReceived ''interrupt'']"
  let ?stop = "?sig @ [ControlStopped]"
  have "reached p ?sig (?fl sample_worker) Listening Listening Signalled"
    by (rule reached_step [OF reached_admitted]) (force intro: ss_signal)
  then have "reached p ?stop (?fl sample_worker) Down Listening Deactivated"
    by (rule reached_step) (force intro: ss_control_stopped simp: grpc_Stop_def)
  then have stopping: "reached p (?stop @ [StopUsage]) (?fl (sample_worker\<lparr>b_done := True\<rparr>)) Down Listening
      Stopping"
    by (rule reached_step) (force intro: ss_stop_usage bs_close)
  have "b_queue sample_exited = []" by (simp add: sample_exited_def sample_worker_def NewUsageBackend_def)
  note billed = sample_billed_with [OF this]
  have "reached p (((?stop @ [StopUsage]) @ [Inner (Background SeeDone)]) @ [Inner (Background WorkerExit)])
      (?fl sample_exited) Down Listening Stopping"
    by (intro reached_inner [OF _ sample_drained(2)] reached_inner [OF stopping sample_drained(1)]) simp_all
  from reached_inner [OF this billed] have ended: "reached p ((((?stop @ [StopUsage])
        @ [Inner (Background SeeDone)]) @ [Inner (Background WorkerExit)])
        @ [Inner (Answered sample_flight (Some (Accept sample_emitted)))]) ?fin Down Listening Stopping"
    by simp
  have "stop_returns (gw_backend ?fin)"
    by (simp add: stop_returns_def EmitNonBlocking_def sample_exited_def sample_worker_def NewUsageBackend_def)
  then have "reached p (((((?stop @ [StopUsage]) @ [Inner (Background SeeDone)])
        @ [Inner (Background WorkerExit)]) @ [Inner (Answered sample_flight (Some (Accept sample_emitted)))])
        @ [UsageStopped]) ?fin Down Listening ClosingDb"
    by (intro reached_step [OF ended]) (force intro: ss_usage_stopped)
  from reached_step [OF this, of DatabaseClosed ?fin Down Listening "Dead 0"]
  have "reached p ((((((?stop @ [StopUsage]) @ [Inner (Background SeeDone)])
        @ [Inner (Background WorkerExit)]) @ [Inner (Answered sample_flight (Some (Accept sample_emitted)))])
        @ [UsageStopped]) @ [DatabaseClosed]) ?fin Down Listening (Dead 0)"
    by (force intro: ss_db_closed)
  then show ?thesis by (simp add: sample_server_events_def sample_prefix_def)
qed

lemma sample_deployment_of: "deployment_of sample_deployment sample_services = sample_deployment"
  by (simp add: deployment_of_def sample_deployment_def sample_services_def)

lemma sample_schema: "InitSchema (be_exec sample_boot_env) (be_file sample_boot_env path) = Inr empty_db"
  by (simp add: InitSchema_def sample_boot_env_def create_missing_def empty_db_def)

lemma sample_backend_events:
  "backend_events (gateway_events sample_server_events)
    = [CloseDone, SeeDone, WorkerExit, Accept sample_emitted]"
  by (simp add: sample_server_events_def sample_admission_def)

text \<open>The sample as a run of a started server.\<close>

lemma sample_server:
  obtains p s where "boot sample_boot_env [] sample_process
      = Returned (Some (default_flags, sample_config, sample_services)) p"
    "server_run sample_boot_env default_flags (deployment_of sample_deployment sample_services)
      (server_start sample_services p) sample_server_events s"
    "sr_gateway s = sample_gateway\<lparr>gw_backend := EmitNonBlocking sample_emitted sample_exited\<rparr>"
    "sr_phase s = Dead 0"
proof -
  obtain p where p: "boot sample_boot_env [] sample_process
      = Returned (Some (default_flags, sample_config, sample_services)) p"
    using sample_boot by blast
  obtain s where "server_run sample_boot_env default_flags (deployment_of sample_deployment sample_services)
      (server_start sample_services p) sample_server_events s"
    "sr_gateway s = sample_gateway\<lparr>gw_backend := EmitNonBlocking sample_emitted sample_exited\<rparr>"
    "sr_phase s = Dead 0"
    using sample_server_run [of p] unfolding reached_def sample_deployment_of by blast
  with p show thesis by (rule that)
qed

section \<open>Properties\<close>

lemma boot_worker:
  "boot env args p = Returned (Some (f, cfg, svc)) p' \<Longrightarrow> b_worker (sv_usageBackend svc) = Selecting"
  using boot_ready_state [of env args p f cfg svc p'] by auto

lemma server_refines_gateway_run:
  assumes "boot env args p = Returned (Some (f, cfg, svc)) p'"
    and "server_run env f (deployment_of L svc) (server_start svc p') evs s"
    and "InitSchema (be_exec env) (be_file env (database_path (fl_dataDir f) cfg)) = Inr db"
  shows "gw_run (deployment_of L svc) (gw_start db) (Background StartWorker # gateway_events evs)
    (sr_gateway s)"
proof -
  let ?D = "deployment_of L svc"
  have sv: "sv_keyStore svc = NewStore" "sv_usageBackend svc = (NewUsageBackend db)\<lparr>b_worker := Selecting\<rparr>"
    using boot_ready_state [OF assms(1)] assms(3) by auto
  have "backend_step (d_engine ?D) (gw_backend (gw_start db)) StartWorker
      ((NewUsageBackend db)\<lparr>b_worker := Selecting\<rparr>)"
    using bs_start [of "NewUsageBackend db"] by (simp add: gw_start_def NewUsageBackend_def)
  from gw_background [OF _ this] have "gw_step ?D (gw_start db) (Background StartWorker)
      (sr_gateway (server_start svc p'))"
    by (simp add: server_start_def gw_start_def sv)
  from gw_snoc [OF gw_nil this] have "gw_run ?D (gw_start db) [Background StartWorker]
      (sr_gateway (server_start svc p'))" by simp
  from server_run_gateway [OF assms(2) this] show ?thesis by simp
qed

text \<open>
  C7. The program is the gateway: whatever a started server does, with its listeners, its backup, its
  signal and its shutdown in any order, its keys, requests and usage records go through a run of the
  gateway model from its initial state, on the configuration that was read, with the worker
  started first. So what is shown of the gateway holds for the process.
\<close>

theorem server_refines_gateway:
  assumes "boot env args p = Returned (Some (f, cfg, svc)) p'"
    and "server_run env f (deployment_of L svc) (server_start svc p') evs s"
  shows "deployed (deployment_of L svc) \<and> d_cfg (deployment_of L svc) = cfg
    \<and> (\<exists>db. InitSchema (be_exec env) (be_file env (database_path (fl_dataDir f) cfg)) = Inr db
        \<and> gw_run (deployment_of L svc) (gw_start db) (Background StartWorker # gateway_events evs)
            (sr_gateway s))
    \<and> store_ok (d_sha L) (gw_store (sr_gateway s))"
proof -
  let ?D = "deployment_of L svc"
  obtain db where db: "InitSchema (be_exec env) (be_file env (database_path (fl_dataDir f) cfg)) = Inr db"
    using boot_ready_state(2) [OF assms(1)] by blast
  note run = server_refines_gateway_run [OF assms db]
  from gw_run_store [OF run] have "store_ok (d_sha L) (gw_store (sr_gateway s))"
    by (simp add: deployment_of_def gw_start_def NewStore_ok)
  with boot_ready_deployed [OF assms(1)] db run show ?thesis by blast
qed

lemma server_refines_gateway_witness:
  "gw_run sample_deployment (gw_start empty_db)
     (Background StartWorker # gateway_events sample_server_events)
     (sample_gateway\<lparr>gw_backend := EmitNonBlocking sample_emitted sample_exited\<rparr>)"
proof (rule sample_server)
  fix p s
  assume "boot sample_boot_env [] sample_process
      = Returned (Some (default_flags, sample_config, sample_services)) p"
    "server_run sample_boot_env default_flags (deployment_of sample_deployment sample_services)
      (server_start sample_services p) sample_server_events s"
    and g: "sr_gateway s = sample_gateway\<lparr>gw_backend := EmitNonBlocking sample_emitted sample_exited\<rparr>"
  from server_refines_gateway [OF this(1,2)] show ?thesis
    by (auto simp: sample_deployment_of sample_schema g)
qed

text \<open>
  What the exit status says: a started server ends with status 0 exactly by closing the database
  after the control plane was stopped and the worker has exited, and with status 1 exactly by a
  listener that failed, which leaves the message of \<open>fatalf\<close> as the last line of the log; no other
  status occurs, and nothing happens after the end.
\<close>

theorem exit_status:
  assumes "boot env args p = Returned (Some (f, cfg, svc)) p'" "ps_log p = fresh_log"
    and "server_run env f D (server_start svc p') evs s" "sr_phase s = Dead st"
  shows "(st = 0 \<and> last evs = DatabaseClosed \<and> ControlStopped \<in> set evs
        \<and> b_worker (gw_backend (sr_gateway s)) = Exited
      \<or> st = 1 \<and> (\<exists>err err'. last evs = ControlCrashed err \<or> last evs = DataCrashed err')
        \<and> fatal_logged env (sr_process s))
    \<and> (\<forall>ev s'. \<not> server_step env f D s ev s')"
proof
  let ?s0 = "server_start svc p'"
  have start: "sr_phase ?s0 = Starting" "lg_ready (ps_log (sr_process ?s0))"
    using boot_ready_log [OF assms(1,2)] by (simp_all add: server_start_def)
  show "\<forall>ev s'. \<not> server_step env f D s ev s'"
    using dead_is_final assms(4) by (simp add: alive_def)
  from assms(3,4) start(1) obtain evs' ev t where
    last: "evs = evs' @ [ev]" "server_run env f D ?s0 evs' t" "server_step env f D t ev s"
    by (auto elim: server_run.cases)
  have "b_worker (sv_usageBackend svc) = Selecting"
    by (rule boot_worker [OF assms(1)])
  from worker_over_run [OF assms(3) worker_over_start [OF this]] assms(4)
  have "st = 0 \<Longrightarrow> b_worker (gw_backend (sr_gateway s)) = Exited" by (simp add: worker_over_def)
  moreover have "st = 0 \<Longrightarrow> ControlStopped \<in> set evs"
    using stopped_phases [OF assms(3) start(1)] assms(4) by simp
  ultimately show "st = 0 \<and> last evs = DatabaseClosed \<and> ControlStopped \<in> set evs
        \<and> b_worker (gw_backend (sr_gateway s)) = Exited
      \<or> st = 1 \<and> (\<exists>err err'. last evs = ControlCrashed err \<or> last evs = DataCrashed err')
        \<and> fatal_logged env (sr_process s)"
    using last_step_of_dead [OF last(3) assms(4)] run_log_ready [OF last(2) start(2)] last(1) by auto
qed

lemma exit_status_witness: "last sample_server_events = DatabaseClosed \<and> b_worker sample_exited = Exited"
proof (rule sample_server)
  fix p s
  assume b: "boot sample_boot_env [] sample_process
      = Returned (Some (default_flags, sample_config, sample_services)) p"
    and r: "server_run sample_boot_env default_flags (deployment_of sample_deployment sample_services)
      (server_start sample_services p) sample_server_events s"
    and g: "sr_gateway s = sample_gateway\<lparr>gw_backend := EmitNonBlocking sample_emitted sample_exited\<rparr>"
    and d: "sr_phase s = Dead 0"
  have "ps_log sample_process = fresh_log" by (simp add: sample_process_def)
  from exit_status [OF b this r d] g show ?thesis by (simp add: EmitNonBlocking_def split: if_splits)
qed




text \<open>
  After the control plane was stopped no key is added or deleted any more, although the data plane
  goes on until the process ends.
\<close>

theorem no_keys_after_stop:
  assumes "server_run env f D s (evs @ ControlStopped # later) s'"
  shows "\<forall>ev \<in> set (gateway_events later). \<not> key_event ev"
proof -
  from server_run_append [OF assms] obtain t where "server_run env f D t ([ControlStopped] @ later) s'"
    by auto
  from server_run_append [OF this] obtain u where
    u: "server_run env f D t ([] @ [ControlStopped]) u" "server_run env f D u later s'" by auto
  from u(1) have "control_over u"
    by (cases rule: server_run.cases) (auto elim!: server_stepE simp: control_over_def grpc_Stop_def split: if_splits)
  from control_over_run [OF u(2) this] show ?thesis by blast
qed

lemma no_keys_after_stop_witness:
  "\<forall>ev \<in> set (gateway_events (drop 9 sample_server_events)). \<not> key_event ev"
proof (rule sample_server)
  fix p s
  assume "server_run sample_boot_env default_flags (deployment_of sample_deployment sample_services)
      (server_start sample_services p) sample_server_events s"
  moreover have "sample_server_events = take 8 sample_server_events @ ControlStopped # drop 9 sample_server_events"
    by (simp add: sample_server_events_def)
  ultimately have "server_run sample_boot_env default_flags (deployment_of sample_deployment sample_services)
      (server_start sample_services p) (take 8 sample_server_events @ ControlStopped # drop 9 sample_server_events) s"
    by metis
  from no_keys_after_stop [OF this] show ?thesis .
qed

end
