(* ===== verification/Cli.thy ===== *)
theory Cli
  imports Admin GoFlag
begin

text \<open>
  The command line client, \<open>cmd/cli\<close>, from its arguments to its exit status: the flags, the dispatch on
  resource and action, the options of \<open>stats\<close> and the request they become, what each handler sends
  and what it prints for the answer. The remote calls are the fields of \<open>admin_client\<close>, functions on
  the state of the server; \<open>direct_client\<close> is the handlers of \<open>grpc/handler.go\<close> called without a
  network between. The answers to the two prompts are arguments (\<open>promptui\<close>), and a table is its cells
  (\<open>tabwriter\<close> lays them out). A result is the exit status with what is printed.
\<close>

section \<open>Dispatch\<close>

definition default_addr :: "string \<Rightarrow> string" where
  "default_addr env = (if env = [] then ''127.0.0.1:50051'' else env)"

datatype cli_command =
    RouteListCmd
  | QuotaListCmd
  | KeyListCmd
  | KeyAddCmd string
  | KeyDelCmd string
  | StatsCmd "string list"
  | DebugCmd bool
  | MissingArg string
  | UsageCmd

definition missing_route :: string where
  "missing_route = ''error: missing target route, e.g., '' @ [CHR 0x27] @ ''key add /claude'' @ [CHR 0x27]"

definition missing_uuid :: string where
  "missing_uuid =
     ''error: missing tracking key uuid, e.g., '' @ [CHR 0x27] @ ''key del <uuid>'' @ [CHR 0x27]"

text \<open>\<open>main\<close>, and \<open>handleDebugAction\<close> for the meaning of its action.\<close>

definition dispatch :: "string list \<Rightarrow> cli_command" where
  "dispatch args =
     (case args of
        [] \<Rightarrow> UsageCmd
      | resource # rest \<Rightarrow>
          (let action = (case rest of [] \<Rightarrow> [] | a # _ \<Rightarrow> a) in
           if resource = ''route'' then (if action = ''list'' then RouteListCmd else UsageCmd)
           else if resource = ''quota'' then (if action = ''list'' then QuotaListCmd else UsageCmd)
           else if resource = ''key'' then
             (if action = ''list'' then KeyListCmd
              else if action = ''add'' then
                (if length args < 3 then MissingArg missing_route else KeyAddCmd (args ! 2))
              else if action = ''del'' then
                (if length args < 3 then MissingArg missing_uuid else KeyDelCmd (args ! 2))
              else UsageCmd)
           else if resource = ''stats'' then StatsCmd rest
           else if resource = ''debug'' then DebugCmd (action = ''on'')
           else UsageCmd))"

section \<open>Options of the statistics\<close>

record stats_options =
  so_StartDate :: string
  so_EndDate :: string
  so_Monthly :: bool
  so_Year :: int
  so_Verbose :: bool
  so_Count :: int

text \<open>\<open>^\d{4}-\d{2}-\d{2}$\<close>\<close>

definition date_pattern :: "string \<Rightarrow> bool" where
  "date_pattern s \<longleftrightarrow> length s = 10 \<and> list_all ascii_digit (take 4 s) \<and> s ! 4 = CHR ''-''
     \<and> list_all ascii_digit (take 2 (drop 5 s)) \<and> s ! 7 = CHR ''-'' \<and> list_all ascii_digit (drop 8 s)"

datatype options_error =
    FlagsFailed flag_error
  | ModesExclusive
  | InvalidStartDate string
  | InvalidEndDate string

text \<open>
  The flags of \<open>stats\<close>, then the checks and the clamp. What follows the flags is not looked at.
\<close>

definition stats_flag_set :: flag_set where
  "stats_flag_set = [(''start-date'', StringV []), (''end-date'', StringV []),
     (''monthly'', BoolV False), (''year'', IntV 0), (''verbose'', BoolV False), (''count'', IntV 100)]"

definition stats_options_of :: "flag_set \<Rightarrow> stats_options" where
  "stats_options_of fs =
     \<lparr>so_StartDate = string_flag fs ''start-date'', so_EndDate = string_flag fs ''end-date'',
      so_Monthly = bool_flag fs ''monthly'', so_Year = sint (int_flag fs ''year''),
      so_Verbose = bool_flag fs ''verbose'', so_Count = sint (int_flag fs ''count'')\<rparr>"

definition check_options :: "stats_options \<Rightarrow> options_error + stats_options" where
  "check_options opts =
     (if so_Monthly opts \<and> so_Verbose opts then Inl ModesExclusive
      else if \<not> so_Monthly opts \<and> \<not> so_Verbose opts \<and> so_StartDate opts \<noteq> []
              \<and> \<not> date_pattern (so_StartDate opts)
           then Inl (InvalidStartDate (so_StartDate opts))
      else if \<not> so_Monthly opts \<and> \<not> so_Verbose opts \<and> so_EndDate opts \<noteq> []
              \<and> \<not> date_pattern (so_EndDate opts)
           then Inl (InvalidEndDate (so_EndDate opts))
      else
        (let opts = (if so_Count opts < 1 then opts\<lparr>so_Count := 1\<rparr> else opts);
             opts = (if so_Count opts > 1000 then opts\<lparr>so_Count := 1000\<rparr> else opts)
         in Inr opts))"

definition parseStatsOptions :: "string list \<Rightarrow> options_error + stats_options" where
  "parseStatsOptions args =
     (case flag_Parse stats_flag_set args of
        Inl e \<Rightarrow> Inl (FlagsFailed e)
      | Inr (fs, rest) \<Rightarrow> check_options (stats_options_of fs))"

definition stats_request_of :: "go_time \<Rightarrow> stats_options \<Rightarrow> stats_request" where
  "stats_request_of now opts =
     (let req = \<lparr>sr_Mode = DAILY, sr_StartDate = [], sr_EndDate = [], sr_Year = 0, sr_MaxCount = 0\<rparr>
      in if so_Verbose opts
         then req\<lparr>sr_Mode := VERBOSE, sr_MaxCount := word_of_int (so_Count opts)\<rparr>
         else if so_Monthly opts
         then req\<lparr>sr_Mode := MONTHLY,
                  sr_Year := word_of_int (if so_Year opts = 0 then t_year now else so_Year opts)\<rparr>
         else (let today = format_date now in
               req\<lparr>sr_Mode := DAILY,
                   sr_StartDate := (if so_StartDate opts = [] then today else so_StartDate opts),
                   sr_EndDate := (if so_EndDate opts = [] then today else so_EndDate opts)\<rparr>))"

section \<open>The handlers\<close>

text \<open>The usage text, without the list of the flags that \<open>PrintDefaults\<close> adds.\<close>

definition usage_lines :: "string list" where
  "usage_lines =
     [''Usage: ai.local.cli [options] <resource> <action> [args]'', [],
      ''Resources & Actions:'',
      ''  route list'',
      ''  quota list'',
      ''  key list'',
      ''  key add <route_path>'',
      ''  key del <key_uuid>'',
      ''  stats [--start-date YYYY-MM-DD --end-date YYYY-MM-DD]'',
      ''  stats --monthly [--year YYYY]'',
      ''  stats --verbose [--count N]'',
      ''  debug <on/off>'', [],
      ''Options:'']"

datatype cli_output =
    Table "string list" "string list list"
  | Message string
  | Failure string
  | UsageText "string list"

text \<open>Exit status and output.\<close>

type_synonym cli_result = "nat \<times> cli_output"

text \<open>The remote calls, on the state \<open>'s\<close> of the server; an error is the text the client prints.\<close>

record 's admin_client =
  cl_ListRoutes :: "'s \<Rightarrow> (string + route_info list) \<times> 's"
  cl_ListQuotas :: "'s \<Rightarrow> (string + quota_info list) \<times> 's"
  cl_ListKeys :: "'s \<Rightarrow> (string + key_info list) \<times> 's"
  cl_AddKey :: "string \<Rightarrow> string \<Rightarrow> string \<Rightarrow> 's \<Rightarrow> (string + string) \<times> 's"
  cl_DeleteKey :: "string \<Rightarrow> 's \<Rightarrow> (string + bool) \<times> 's"
  cl_GetStats :: "stats_request \<Rightarrow> 's \<Rightarrow> (string + stats_response) \<times> 's"
  cl_ConfigureDebug :: "bool \<Rightarrow> 's \<Rightarrow> (string + bool) \<times> 's"

definition rpc_failed :: "string \<Rightarrow> cli_result" where
  "rpc_failed err = (1, Failure (''rpc error: '' @ err))"

text \<open>What a handler prints for an answer.\<close>

definition answered :: "('a \<Rightarrow> cli_result) \<Rightarrow> (string + 'a) \<times> 's \<Rightarrow> cli_result \<times> 's" where
  "answered show r =
     (case r of (Inl err, s) \<Rightarrow> (rpc_failed err, s) | (Inr resp, s) \<Rightarrow> (show resp, s))"

definition handleRouteList :: "'s admin_client \<Rightarrow> 's \<Rightarrow> cli_result \<times> 's" where
  "handleRouteList client s = answered
     (\<lambda>rows. (0, Table [''URI'', ''QUOTA'', ''PROVIDER'']
        (map (\<lambda>r. [ri_Uri r, ri_Quota r, ri_Provider r]) rows)))
     (cl_ListRoutes client s)"

definition handleQuotaList :: "'s admin_client \<Rightarrow> 's \<Rightarrow> cli_result \<times> 's" where
  "handleQuotaList client s = answered
     (\<lambda>rows. (0, Table [''NAME'', ''DAILY'', ''MONTHLY'', ''MODE'', ''STATUS'']
        (map (\<lambda>q. [qi_Name q, show_int (sint (qi_Daily q)), show_int (sint (qi_Monthly q)),
           qi_Mode q, qi_Status q]) rows)))
     (cl_ListQuotas client s)"

definition handleKeyList :: "'s admin_client \<Rightarrow> 's \<Rightarrow> cli_result \<times> 's" where
  "handleKeyList client s = answered
     (\<lambda>keys. if keys = [] then (0, Message ''No active routing keys found inside keystore.'')
        else (0, Table [''UUID'', ''ALIAS'', ''ROUTE'', ''REAL KEY'', ''INTERNAL KEY'']
          (map (\<lambda>k. [ki_Uuid k, ki_Alias k, ki_Route k, ki_RealKey k, ki_InternalKey k]) keys)))
     (cl_ListKeys client s)"

text \<open>The two prompts may fail; then nothing is sent.\<close>

definition handleKeyAdd ::
  "string + string \<Rightarrow> string + string \<Rightarrow> 's admin_client \<Rightarrow> string \<Rightarrow> 's \<Rightarrow> cli_result \<times> 's" where
  "handleKeyAdd keyPrompt aliasPrompt client route s =
     (case keyPrompt of
        Inl err \<Rightarrow> ((1, Failure (''input error: '' @ err)), s)
      | Inr realKey \<Rightarrow>
          (case aliasPrompt of
             Inl err \<Rightarrow> ((1, Failure (''input error: '' @ err)), s)
           | Inr al \<Rightarrow> answered
               (\<lambda>internalKey. (0, Message (LF # ''Generated internal key successfully:'' @ [LF] @ internalKey)))
               (cl_AddKey client route realKey al s)))"

definition handleKeyDel :: "'s admin_client \<Rightarrow> string \<Rightarrow> 's \<Rightarrow> cli_result \<times> 's" where
  "handleKeyDel client uid s = answered
     (\<lambda>success.
        if success then (0, Message (''Successfully revoked key tracking target ['' @ uid @ '']''))
        else (1, Failure (''error: tracking entity target ['' @ uid @ ''] not found inside keystore'')))
     (cl_DeleteKey client uid s)"

definition handleDebugAction :: "'s admin_client \<Rightarrow> bool \<Rightarrow> 's \<Rightarrow> cli_result \<times> 's" where
  "handleDebugAction client enable s = answered
     (\<lambda>on. if on then (0, Message ''success: runtime debug logging successfully energized.'')
        else (0, Message ''success: runtime debug logging gracefully deactivated.''))
     (cl_ConfigureDebug client enable s)"

definition show_i64 :: "int64 \<Rightarrow> string" where
  "show_i64 w = show_int (sint w)"

definition printDailyStatsTable :: "stat_row list \<Rightarrow> cli_output" where
  "printDailyStatsTable rows =
     (if rows = [] then Message ''No daily stats found for the given date range.''
      else Table [''DATE'', ''ROUTE PATH'', ''LOCAL KEY'', ''REQUESTS'', ''PROMPT TOKENS'',
            ''COMPLETION TOKENS'', ''TOTAL TOKENS'', ''LAST ACTIVITY'']
          (map (\<lambda>r. [s_Period r, s_RoutePath r, s_LocalKey r, show_i64 (s_TotalRequests r),
             show_i64 (s_PromptTokens r), show_i64 (s_CompletionTokens r), show_i64 (s_TotalTokens r),
             s_LastActivity r]) rows))"

definition printMonthlyStatsTable :: "stat_row list \<Rightarrow> cli_output" where
  "printMonthlyStatsTable rows =
     (if rows = [] then Message ''No monthly stats found for the specified year.''
      else Table [''MONTH'', ''ROUTE PATH'', ''LOCAL KEY'', ''REQUESTS'', ''PROMPT TOKENS'',
            ''COMPLETION TOKENS'', ''TOTAL TOKENS'']
          (map (\<lambda>r. [s_Period r, s_RoutePath r, s_LocalKey r, show_i64 (s_TotalRequests r),
             show_i64 (s_PromptTokens r), show_i64 (s_CompletionTokens r), show_i64 (s_TotalTokens r)])
           rows))"

definition printVerboseStatsTable :: "verbose_row list \<Rightarrow> cli_output" where
  "printVerboseStatsTable rows =
     (if rows = [] then Message ''No verbose stats found.''
      else Table [''ID'', ''ROUTE PATH'', ''LOCAL KEY'', ''CLIENT IP'', ''PROMPT TKNS'',
            ''COMPLETION TKNS'', ''TOTAL TKNS'', ''TIMESTAMP'']
          (map (\<lambda>r. [show_int (v_ID r), v_RoutePath r, v_LocalKey r, v_ClientIP r,
             show_i64 (v_PromptTokens r), show_i64 (v_CompletionTokens r), show_i64 (v_TotalTokens r),
             v_Timestamp r]) rows))"

datatype stats_cli_error = OptionsError options_error | GetStatsFailed string | BadResponseMode int

definition handleStatsCommand ::
  "go_time \<Rightarrow> 's admin_client \<Rightarrow> string list \<Rightarrow> 's \<Rightarrow> (stats_cli_error + cli_output) \<times> 's" where
  "handleStatsCommand now client args s =
     (case parseStatsOptions args of
        Inl e \<Rightarrow> (Inl (OptionsError e), s)
      | Inr opts \<Rightarrow>
          (let req = stats_request_of now opts in
           case cl_GetStats client req s of
             (Inl e, s') \<Rightarrow> (Inl (GetStatsFailed e), s')
           | (Inr resp, s') \<Rightarrow>
               (case sr_Mode req of
                  DAILY \<Rightarrow> Inr (printDailyStatsTable (DailyRows resp))
                | MONTHLY \<Rightarrow> Inr (printMonthlyStatsTable (MonthlyRows resp))
                | VERBOSE \<Rightarrow> Inr (printVerboseStatsTable (VerboseRows resp))
                | OtherMode m \<Rightarrow> Inl (BadResponseMode m), s')))"

section \<open>The program\<close>

text \<open>
  What a call of the client meets: the environment variable, the connection, the prompts, the clock,
  and how \<open>%v\<close> prints an error.
\<close>

record cli_env =
  ci_getenv :: string
  ci_dial :: "string \<Rightarrow> string option"
  ci_keyPrompt :: "string + string"
  ci_aliasPrompt :: "string + string"
  ci_now :: go_time
  ci_text :: "stats_cli_error \<Rightarrow> string"

text \<open>The address and what follows the flags, or the exit status after the usage text.\<close>

definition cli_flag_set :: "string \<Rightarrow> flag_set" where
  "cli_flag_set getenv = [(''addr'', StringV (default_addr getenv))]"

definition parseCLIConfig :: "string \<Rightarrow> string list \<Rightarrow> nat + string \<times> string list" where
  "parseCLIConfig getenv args =
     (case flag_Parse (cli_flag_set getenv) args of
        Inl e \<Rightarrow> Inl (if e = HelpRequested then 0 else 2)
      | Inr (fs, rest) \<Rightarrow> Inr (string_flag fs ''addr'', rest))"

text \<open>The error of the connection, if there is one.\<close>

definition newAdminClient :: "cli_env \<Rightarrow> string \<Rightarrow> string option" where
  "newAdminClient env addr =
     map_option (\<lambda>err. ''failed to connect to control plane at '' @ addr @ '': '' @ err) (ci_dial env addr)"

definition run_command :: "cli_env \<Rightarrow> 's admin_client \<Rightarrow> cli_command \<Rightarrow> 's \<Rightarrow> cli_result \<times> 's" where
  "run_command env client c s =
     (case c of
        RouteListCmd \<Rightarrow> handleRouteList client s
      | QuotaListCmd \<Rightarrow> handleQuotaList client s
      | KeyListCmd \<Rightarrow> handleKeyList client s
      | KeyAddCmd route \<Rightarrow> handleKeyAdd (ci_keyPrompt env) (ci_aliasPrompt env) client route s
      | KeyDelCmd uid \<Rightarrow> handleKeyDel client uid s
      | StatsCmd args \<Rightarrow>
          (case handleStatsCommand (ci_now env) client args s of
             (Inl e, s') \<Rightarrow> ((1, Failure (''error: '' @ ci_text env e)), s')
           | (Inr out, s') \<Rightarrow> ((0, out), s'))
      | DebugCmd enable \<Rightarrow> handleDebugAction client enable s
      | MissingArg msg \<Rightarrow> ((1, Failure msg), s)
      | UsageCmd \<Rightarrow> ((1, UsageText usage_lines), s))"

definition cli_main :: "cli_env \<Rightarrow> 's admin_client \<Rightarrow> string list \<Rightarrow> 's \<Rightarrow> cli_result \<times> 's" where
  "cli_main env client args s =
     (case parseCLIConfig (ci_getenv env) args of
        Inl status \<Rightarrow> ((status, UsageText usage_lines), s)
      | Inr (addr, rest) \<Rightarrow>
          if rest = [] then ((1, UsageText usage_lines), s)
          else (case newAdminClient env addr of
                  Some err \<Rightarrow> ((1, Failure (''error: '' @ err)), s)
                | None \<Rightarrow> run_command env client (dispatch rest) s))"

section \<open>The control plane behind the client\<close>

text \<open>The handlers of the server, on the key store and the logger.\<close>

record control_plane =
  cp_store :: key_store
  cp_log :: log_state

record handler_env =
  he_sha :: "string \<Rightarrow> string"
  he_cfg :: apml_config
  he_uuid :: "string + string"
  he_rand :: "string + string"
  he_engine :: sqlite
  he_fault :: stats_fault
  he_now :: go_time
  he_db :: usage_db
  he_text :: "admin_error \<Rightarrow> string"

definition as_rpc :: "(admin_error \<Rightarrow> string) \<Rightarrow> admin_error + 'a \<Rightarrow> string + 'a" where
  "as_rpc text r = (case r of Inl e \<Rightarrow> Inl (text e) | Inr x \<Rightarrow> Inr x)"

definition direct_client :: "handler_env \<Rightarrow> control_plane admin_client" where
  "direct_client h =
     \<lparr>cl_ListRoutes = (\<lambda>s. (Inr (ListRoutes (he_cfg h)), s)),
      cl_ListQuotas = (\<lambda>s. (Inr (ListQuotas (he_cfg h)), s)),
      cl_ListKeys = (\<lambda>s. (Inr (handle_ListKeys (cp_store s)), s)),
      cl_AddKey = (\<lambda>route realKey al s.
        (case handle_AddKey (he_sha h) (he_cfg h) route realKey al (he_uuid h) (he_rand h) (cp_store s) of
           (r, store) \<Rightarrow> (as_rpc (he_text h) r, s\<lparr>cp_store := store\<rparr>))),
      cl_DeleteKey = (\<lambda>uid s.
        (case handle_DeleteKey uid (cp_store s) of (found, store) \<Rightarrow> (Inr found, s\<lparr>cp_store := store\<rparr>))),
      cl_GetStats = (\<lambda>req s.
        (as_rpc (he_text h) (GetStats (he_engine h) (he_fault h) (he_now h) (Some (he_db h)) (Some req)), s)),
      cl_ConfigureDebug = (\<lambda>enable s.
        (case ConfigureDebug (Some enable) (cp_log s) of
           (r, l) \<Rightarrow> (as_rpc (he_text h) r, s\<lparr>cp_log := l\<rparr>)))\<rparr>"

section \<open>What the client relies on\<close>

lemma answered_state: "snd (answered show r) = snd r"
  by (simp add: answered_def split: prod.split sum.split)

text \<open>
  The contract of the control plane for its readers: listings and statistics keep the state of the
  server.
\<close>

locale admin_service =
  fixes client :: "'s admin_client"
  assumes routes_keep: "snd (cl_ListRoutes client s) = s"
    and quotas_keep: "snd (cl_ListQuotas client s) = s"
    and keys_keep: "snd (cl_ListKeys client s) = s"
    and stats_keep: "snd (cl_GetStats client req s) = s"
begin

lemma stats_command_keeps: "snd (handleStatsCommand now client args s) = s"
  using stats_keep by (auto simp: handleStatsCommand_def Let_def split: sum.split prod.split)
     (metis snd_conv)+

lemma command_keeps:
  assumes "\<And>route. c \<noteq> KeyAddCmd route" "\<And>uid. c \<noteq> KeyDelCmd uid" "\<And>on. c \<noteq> DebugCmd on"
  shows "snd (run_command env client c s) = s"
proof (cases c)
  case (StatsCmd args)
  then show ?thesis
    using stats_command_keeps [of "ci_now env" args s]
    by (auto simp: run_command_def split: prod.split sum.split)
qed (use assms in \<open>simp_all add: run_command_def handleRouteList_def handleQuotaList_def handleKeyList_def
    answered_state routes_keep quotas_keep keys_keep\<close>)

lemma main_keeps:
  assumes "snd (cli_main env client args s) \<noteq> s"
  obtains addr rest where "parseCLIConfig (ci_getenv env) args = Inr (addr, rest)" "ci_dial env addr = None"
    "cli_main env client args s = run_command env client (dispatch rest) s"
    "(\<exists>route. dispatch rest = KeyAddCmd route) \<or> (\<exists>uid. dispatch rest = KeyDelCmd uid)
      \<or> (\<exists>on. dispatch rest = DebugCmd on)"
  using assms command_keeps [of "dispatch rest" for rest]
  by (fastforce simp: cli_main_def newAdminClient_def split: sum.splits prod.splits option.splits if_splits)

end

interpretation direct: admin_service "direct_client h" for h
  by unfold_locales (simp_all add: direct_client_def)

section \<open>Dates pass the server unchanged\<close>

lemma ascii_digit_visible: "ascii_digit c \<Longrightarrow> visible c"
  by (simp add: ascii_digit_def visible_def)

lemma date_pattern_visible:
  assumes "date_pattern s"
  shows "list_all visible s" "s \<noteq> []"
proof -
  have len: "length s = 10" using assms by (simp add: date_pattern_def)
  then show "s \<noteq> []" by auto
  have "visible (s ! i)" if "i < 10" for i
  proof -
    consider "i < 4" | "i = 4" | "5 \<le> i" "i < 7" | "i = 7" | "8 \<le> i" using that by linarith
    then show ?thesis
    proof cases
      case 1
      then have "s ! i \<in> set (take 4 s)" using len by (auto simp: in_set_conv_nth)
      then show ?thesis using assms by (auto simp: date_pattern_def list_all_iff intro: ascii_digit_visible)
    next
      case 3
      then have "s ! i = take 2 (drop 5 s) ! (i - 5)" "i - 5 < length (take 2 (drop 5 s))"
        using len by auto
      then have "s ! i \<in> set (take 2 (drop 5 s))" by (metis nth_mem)
      then show ?thesis using assms by (auto simp: date_pattern_def list_all_iff intro: ascii_digit_visible)
    next
      case 5
      then have "s ! i = drop 8 s ! (i - 8)" "i - 8 < length (drop 8 s)" using len that by auto
      then have "s ! i \<in> set (drop 8 s)" by (metis nth_mem)
      then show ?thesis using assms by (auto simp: date_pattern_def list_all_iff intro: ascii_digit_visible)
    qed (use assms in \<open>simp_all add: date_pattern_def visible_def\<close>)
  qed
  then show "list_all visible s" by (simp add: list_all_length len)
qed

lemma default_date_valid: "date_pattern d \<Longrightarrow> default_date today d = d"
  using date_pattern_visible [of d] by (simp add: default_date_def)

lemma parseStatsOptions_ok:
  assumes "parseStatsOptions args = Inr opts"
  shows "1 \<le> so_Count opts" "so_Count opts \<le> 1000" "\<not> (so_Monthly opts \<and> so_Verbose opts)"
    "\<not> so_Monthly opts \<Longrightarrow> \<not> so_Verbose opts \<Longrightarrow>
      (so_StartDate opts = [] \<or> date_pattern (so_StartDate opts))
      \<and> (so_EndDate opts = [] \<or> date_pattern (so_EndDate opts))"
  using assms
  by (auto simp: parseStatsOptions_def check_options_def Let_def split: sum.splits prod.splits if_splits)

section \<open>Properties\<close>

definition sample_options :: stats_options where
  "sample_options = \<lparr>so_StartDate = ''2026-03-01'', so_EndDate = [], so_Monthly = False, so_Year = 0,
     so_Verbose = True, so_Count = 5000\<rparr>"

text \<open>A command line of given options.\<close>

definition stats_args :: "stats_options \<Rightarrow> string list" where
  "stats_args opt = [''--start-date'', so_StartDate opt, ''--end-date='' @ so_EndDate opt,
     ''--year'', show_int (so_Year opt), ''--count='' @ show_int (so_Count opt)]
     @ (if so_Monthly opt then [''--monthly''] else []) @ (if so_Verbose opt then [''--verbose''] else [])"

lemma stats_flag_names:
  "flag_name ''start-date''" "flag_name ''end-date''" "flag_name ''monthly''" "flag_name ''year''"
  "flag_name ''verbose''" "flag_name ''count''"
  by (simp_all add: flag_name_def)

lemma parse_stats_args:
  assumes "in_int64 (so_Year opt)" "in_int64 (so_Count opt)"
  shows "flag_Parse stats_flag_set (stats_args opt @ rest) = flag_Parse
     [(''start-date'', StringV (so_StartDate opt)), (''end-date'', StringV (so_EndDate opt)),
      (''monthly'', BoolV (so_Monthly opt)), (''year'', IntV (word_of_int (so_Year opt))),
      (''verbose'', BoolV (so_Verbose opt)), (''count'', IntV (word_of_int (so_Count opt)))] rest"
  using parse_string(1) [OF dashes_simps(2) stats_flag_names(1), where old = "[]"]
    parse_string(2) [OF dashes_simps(2) stats_flag_names(2), where old = "[]"]
    parse_int(1) [OF dashes_simps(2) stats_flag_names(4), where old = 0 and v = "word_of_int (so_Year opt)"]
    parse_int(2) [OF dashes_simps(2) stats_flag_names(6), where old = 100 and v = "word_of_int (so_Count opt)"]
    parse_switch [OF dashes_simps(2) stats_flag_names(3), where b = False]
    parse_switch [OF dashes_simps(2) stats_flag_names(5), where b = False]
  by (simp add: stats_args_def stats_flag_set_def sint_of_int_int64 assms del: flag_Parse.simps)

lemma stats_options_eta:
  "\<lparr>so_StartDate = so_StartDate opt, so_EndDate = so_EndDate opt, so_Monthly = so_Monthly opt,
     so_Year = so_Year opt, so_Verbose = so_Verbose opt, so_Count = so_Count opt\<rparr> = opt"
  by simp

lemma parseStatsOptions_args:
  assumes "in_int64 (so_Year opt)" "in_int64 (so_Count opt)" "word = [] \<or> hd word \<noteq> CHR ''-''"
  shows "parseStatsOptions (stats_args opt) = check_options opt"
    and "parseStatsOptions (stats_args opt @ word # rest) = check_options opt"
  using parse_stats_args [OF assms(1,2), of "[]"] parse_stats_args [OF assms(1,2), of "word # rest"]
    parse_plain [of word] assms
  by (auto simp: parseStatsOptions_def stats_options_of_def sint_of_int_int64 stats_options_eta
      simp del: flag_Parse.simps(2))

lemma sample_options_parsed:
  "parseStatsOptions (stats_args sample_options) = Inr (sample_options\<lparr>so_Count := 1000\<rparr>)"
  using parseStatsOptions_args(1) [of sample_options "[]"]
  by (simp add: sample_options_def in_int64_def check_options_def)

lemma check_options_cases:
  "check_options opt =
    (if so_Monthly opt \<and> so_Verbose opt
       \<or> \<not> so_Monthly opt \<and> \<not> so_Verbose opt
         \<and> (\<exists>d \<in> {so_StartDate opt, so_EndDate opt}. d \<noteq> [] \<and> \<not> date_pattern d)
     then Inl (if so_Monthly opt then ModesExclusive
       else if so_StartDate opt \<noteq> [] \<and> \<not> date_pattern (so_StartDate opt)
       then InvalidStartDate (so_StartDate opt) else InvalidEndDate (so_EndDate opt))
     else Inr (opt\<lparr>so_Count := max 1 (min 1000 (so_Count opt))\<rparr>))"
  by (auto simp: check_options_def Let_def max_def min_def)

text \<open>
  C39. The options arrive: for every year and count of 64 bits, whatever the dates, the client reads the
  options of its command line as they were given. It rejects them exactly when two modes are asked
  for or a date of the daily mode has the wrong form, naming the first of these faults, and otherwise
  only brings the count between 1 and 1000. An argument without a dash ends the options: what
  follows it is ignored without a message.
\<close>

theorem stats_options_arrive:
  assumes "in_int64 (so_Year opt)" "in_int64 (so_Count opt)" "word = [] \<or> hd word \<noteq> CHR ''-''"
  shows "parseStatsOptions (stats_args opt @ word # rest) = parseStatsOptions (stats_args opt)
    \<and> parseStatsOptions (stats_args opt) =
        (if so_Monthly opt \<and> so_Verbose opt
           \<or> \<not> so_Monthly opt \<and> \<not> so_Verbose opt
             \<and> (\<exists>d \<in> {so_StartDate opt, so_EndDate opt}. d \<noteq> [] \<and> \<not> date_pattern d)
         then Inl (if so_Monthly opt then ModesExclusive
           else if so_StartDate opt \<noteq> [] \<and> \<not> date_pattern (so_StartDate opt)
           then InvalidStartDate (so_StartDate opt) else InvalidEndDate (so_EndDate opt))
         else Inr (opt\<lparr>so_Count := max 1 (min 1000 (so_Count opt))\<rparr>))"
  using parseStatsOptions_args [OF assms] check_options_cases [of opt] by simp

lemma stats_options_arrive_witness:
  "parseStatsOptions (stats_args sample_options @ [''x'', ''--monthly''])
     = Inr (sample_options\<lparr>so_Count := 1000\<rparr>)"
  using stats_options_arrive [of sample_options "''x''" "[''--monthly'']"] sample_options_parsed
  by (simp add: sample_options_def in_int64_def)

text \<open>
  The verbose request is bounded end to end: whatever count the user gives, the request asks for
  between 1 and 1000 rows, the server uses that very number, and prints at most that many.
\<close>

theorem verbose_request_bounded:
  assumes "parseStatsOptions args = Inr opts" "so_Verbose opts"
    and "GetStats E fault now' (Some db) (Some (stats_request_of now opts)) = Inr resp"
  shows "sr_Mode (stats_request_of now opts) = VERBOSE
    \<and> default_limit (sr_MaxCount (stats_request_of now opts)) = so_Count opts
    \<and> 1 \<le> so_Count opts \<and> so_Count opts \<le> 1000
    \<and> length (VerboseRows resp) \<le> nat (so_Count opts)"
proof -
  note opts = parseStatsOptions_ok(1,2) [OF assms(1)]
  let ?req = "stats_request_of now opts"
  have req: "sr_Mode ?req = VERBOSE" "sr_MaxCount ?req = word_of_int (so_Count opts)"
    using assms(2) by (simp_all add: stats_request_of_def Let_def)
  have "sint (word_of_int (so_Count opts) :: 32 word) = so_Count opts"
    using opts by (simp add: sint_sbintrunc' signed_take_bit_int_eq_self)
  then have lim: "default_limit (sr_MaxCount ?req) = so_Count opts"
    using opts by (simp add: default_limit_def req)
  have "length (VerboseRows resp) \<le> nat (so_Count opts)"
    using assms(3) opts
    by (auto simp: GetStats_def req(1) lim GetVerboseLogs_def run_query_def sql_limit_def
        empty_response_def split: option.splits sum.splits dest!: length_scan_rows)
  with req lim opts show ?thesis by simp
qed

lemma verbose_request_bounded_witness:
  "sr_Mode (stats_request_of sample_time (sample_options\<lparr>so_Count := 1000\<rparr>)) = VERBOSE"
proof -
  have "\<exists>resp. GetStats sample_engine no_stats_fault sample_time (Some empty_db)
      (Some (stats_request_of sample_time (sample_options\<lparr>so_Count := 1000\<rparr>))) = Inr resp"
    by (simp add: GetStats_def stats_request_of_def sample_options_def GetVerboseLogs_def
        run_query_def no_stats_fault_def empty_db_def order_by_def sql_limit_def)
  with verbose_request_bounded [OF sample_options_parsed] show ?thesis
    by (auto simp: sample_options_def)
qed

text \<open>
  The daily range arrives: for options the client accepts without \<open>--monthly\<close> and \<open>--verbose\<close>, the
  server queries exactly the given dates, and the client's own date where none is given.
\<close>

theorem daily_range_arrives:
  assumes "parseStatsOptions args = Inr opts" "\<not> so_Monthly opts" "\<not> so_Verbose opts"
    and "date_pattern (format_date now)"
  shows "GetStats E fault now' (Some db) (Some (stats_request_of now opts))
    = (case GetDailyStats E fault db
           (if so_StartDate opts = [] then format_date now else so_StartDate opts)
           (if so_EndDate opts = [] then format_date now else so_EndDate opts) of
         Inl e \<Rightarrow> Inl (DailyStatsFailed e)
       | Inr rows \<Rightarrow> Inr (empty_response\<lparr>DailyRows := rows\<rparr>))"
  using parseStatsOptions_ok(4) [OF assms(1-3)] assms(2-4)
  by (auto simp: GetStats_def stats_request_of_def Let_def default_date_valid)

lemma daily_range_arrives_witness:
  "GetStats sample_engine no_stats_fault zero_time (Some empty_db)
      (Some (stats_request_of sample_time (sample_options\<lparr>so_Verbose := False, so_Count := 1000\<rparr>)))
    = (case GetDailyStats sample_engine no_stats_fault empty_db ''2026-03-01'' ''2026-03-07'' of
         Inl e \<Rightarrow> Inl (DailyStatsFailed e)
       | Inr rows \<Rightarrow> Inr (empty_response\<lparr>DailyRows := rows\<rparr>))"
proof -
  have today: "format_date sample_time = ''2026-03-07''"
    by code_simp
  have pats: "date_pattern ''2026-03-01''" "date_pattern ''2026-03-07''"
    by code_simp+
  have "parseStatsOptions (stats_args (sample_options\<lparr>so_Verbose := False\<rparr>))
      = Inr (sample_options\<lparr>so_Verbose := False, so_Count := 1000\<rparr>)"
    using pats parseStatsOptions_args(1) [of "sample_options\<lparr>so_Verbose := False\<rparr>" "[]"]
    by (simp add: check_options_def sample_options_def in_int64_def)
  from daily_range_arrives [OF this, of sample_time] show ?thesis
    using pats by (simp add: today) (simp add: sample_options_def today)
qed

lemma key_add_prompts:
  "snd (handleKeyAdd keyPrompt aliasPrompt client route s) \<noteq> s \<Longrightarrow>
    \<exists>key al. keyPrompt = Inr key \<and> aliasPrompt = Inr al"
  by (auto simp: handleKeyAdd_def split: sum.splits)

lemma direct_states:
  "snd (handleKeyAdd (Inr key) (Inr al) (direct_client h) route s) = s\<lparr>cp_store := snd (handle_AddKey
     (he_sha h) (he_cfg h) route key al (he_uuid h) (he_rand h) (cp_store s))\<rparr>"
  "snd (handleKeyDel (direct_client h) uid s) = s\<lparr>cp_store := snd (DeleteKey uid (cp_store s))\<rparr>"
  "cp_store (snd (handleDebugAction (direct_client h) on s)) = cp_store s"
  by (simp_all add: handleKeyAdd_def handleKeyDel_def handleDebugAction_def answered_state)
     (simp_all add: direct_client_def handle_DeleteKey_def split: prod.split)

lemma dispatch_words:
  "(dispatch args = KeyAddCmd route \<longleftrightarrow> (\<exists>rest. args = ''key'' # ''add'' # route # rest))
   \<and> (dispatch args = KeyDelCmd uid \<longleftrightarrow> (\<exists>rest. args = ''key'' # ''del'' # uid # rest))
   \<and> (dispatch args = DebugCmd on \<longleftrightarrow> (\<exists>rest. args = ''debug'' # rest
        \<and> on = (rest \<noteq> [] \<and> hd rest = ''on'')))"
proof -
  consider "args = []" | a where "args = [a]" | a b where "args = [a, b]"
    | a b c rest where "args = a # b # c # rest"
    by (metis list.exhaust)
  then show ?thesis
    by cases (auto simp: dispatch_def Let_def)
qed

text \<open>
  No mutation by accident: the client adds or deletes a key exactly for the words \<open>key add\<close> and
  \<open>key del\<close> with an argument, and it switches debugging for every second word after \<open>debug\<close>, on for
  \<open>on\<close> and off for anything else, also for none.
\<close>

theorem dispatch_mutations:
  "(dispatch args = KeyAddCmd route \<longleftrightarrow> (\<exists>rest. args = ''key'' # ''add'' # route # rest))
   \<and> (dispatch args = KeyDelCmd uid \<longleftrightarrow> (\<exists>rest. args = ''key'' # ''del'' # uid # rest))
   \<and> (dispatch args = DebugCmd on \<longleftrightarrow> (\<exists>rest. args = ''debug'' # rest
        \<and> on = (rest \<noteq> [] \<and> hd rest = ''on'')))"
  by (rule dispatch_words)

text \<open>
  What a call of the client can change on the server: if anything changed, the words after the flags
  were \<open>key add\<close> with a route and both prompts were answered, and the key store is what the handler
  of \<open>AddKey\<close> made of it for that route, key and alias; or they were \<open>key del\<close> with a UUID, and that
  record is gone; or the first was \<open>debug\<close>, and only the logger changed. Every other call, a failed
  one or one that asks for statistics or listings, leaves the server as it was.
\<close>

theorem client_changes:
  assumes "snd (cli_main env (direct_client h) args s) \<noteq> s"
  shows "\<exists>addr rest. parseCLIConfig (ci_getenv env) args = Inr (addr, rest) \<and> ci_dial env addr = None
    \<and> ((\<exists>route tail key al. rest = ''key'' # ''add'' # route # tail
          \<and> ci_keyPrompt env = Inr key \<and> ci_aliasPrompt env = Inr al
          \<and> snd (cli_main env (direct_client h) args s) = s\<lparr>cp_store := snd (handle_AddKey (he_sha h)
              (he_cfg h) route key al (he_uuid h) (he_rand h) (cp_store s))\<rparr>)
      \<or> (\<exists>uid tail. rest = ''key'' # ''del'' # uid # tail
          \<and> snd (cli_main env (direct_client h) args s) = s\<lparr>cp_store := snd (DeleteKey uid (cp_store s))\<rparr>)
      \<or> (\<exists>tail. rest = ''debug'' # tail
          \<and> cp_store (snd (cli_main env (direct_client h) args s)) = cp_store s))"
proof -
  obtain addr rest where r: "parseCLIConfig (ci_getenv env) args = Inr (addr, rest)" "ci_dial env addr = None"
      "cli_main env (direct_client h) args s = run_command env (direct_client h) (dispatch rest) s"
    and d: "(\<exists>route. dispatch rest = KeyAddCmd route) \<or> (\<exists>uid. dispatch rest = KeyDelCmd uid)
      \<or> (\<exists>on. dispatch rest = DebugCmd on)"
    by (rule direct.main_keeps [OF assms])
  note changed = assms [unfolded r(3)]
  from d consider (add) route where "dispatch rest = KeyAddCmd route"
    | (del) uid where "dispatch rest = KeyDelCmd uid" | (debug) on where "dispatch rest = DebugCmd on"
    by blast
  then show ?thesis
  proof cases
    case add
    from dispatch_words [THEN conjunct1, THEN iffD1, OF add]
    obtain tail where tail: "rest = ''key'' # ''add'' # route # tail" by (elim exE)
    from changed have "snd (handleKeyAdd (ci_keyPrompt env) (ci_aliasPrompt env) (direct_client h) route s) \<noteq> s"
      unfolding add run_command_def cli_command.case .
    from key_add_prompts [OF this] obtain key al where
      p: "ci_keyPrompt env = Inr key" "ci_aliasPrompt env = Inr al" by blast
    have * : "snd (cli_main env (direct_client h) args s) = s\<lparr>cp_store := snd (handle_AddKey (he_sha h)
        (he_cfg h) route key al (he_uuid h) (he_rand h) (cp_store s))\<rparr>"
      unfolding r(3) add run_command_def cli_command.case p by (rule direct_states)
    show ?thesis
      by (rule exI, rule exI, rule conjI [OF r(1)], rule conjI [OF r(2)], rule disjI1)
         (intro exI conjI, rule tail, rule p(1), rule p(2), rule *)
  next
    case del
    from dispatch_words [THEN conjunct2, THEN conjunct1, THEN iffD1, OF del]
    obtain tail where tail: "rest = ''key'' # ''del'' # uid # tail" by (elim exE)
    have * : "snd (cli_main env (direct_client h) args s) = s\<lparr>cp_store := snd (DeleteKey uid (cp_store s))\<rparr>"
      unfolding r(3) del run_command_def cli_command.case by (rule direct_states)
    show ?thesis
      by (rule exI, rule exI, rule conjI [OF r(1)], rule conjI [OF r(2)], rule disjI2, rule disjI1)
         (intro exI conjI, rule tail, rule *)
  next
    case debug
    from dispatch_words [THEN conjunct2, THEN conjunct2, THEN iffD1, OF debug]
    obtain tail where tail: "rest = ''debug'' # tail" by (elim exE conjE)
    have * : "cp_store (snd (cli_main env (direct_client h) args s)) = cp_store s"
      unfolding r(3) debug run_command_def cli_command.case by (rule direct_states)
    show ?thesis
      by (rule exI, rule exI, rule conjI [OF r(1)], rule conjI [OF r(2)], rule disjI2, rule disjI2)
         (intro exI conjI, rule tail, rule *)
  qed
qed

text \<open>What a reported key means.\<close>

lemma key_add_reported:
  assumes "parseCLIConfig (ci_getenv env) args = Inr (addr, [''key'', ''add'', route])"
    and "cli_main env (direct_client h) args s
      = ((0, Message (LF # ''Generated internal key successfully:'' @ [LF] @ k)), s')"
    and "he_uuid h = Inr uid" "he_rand h = Inr bytes"
  obtains key al where "ci_keyPrompt env = Inr key" "ci_aliasPrompt env = Inr al"
    "handle_AddKey (he_sha h) (he_cfg h) route key al (Inr uid) (Inr bytes) (cp_store s)
      = (Inr k, cp_store s')"
proof -
  have "dispatch [''key'', ''add'', route] = KeyAddCmd route" by (simp add: dispatch_def)
  with assms(1,2) have h: "handleKeyAdd (ci_keyPrompt env) (ci_aliasPrompt env) (direct_client h) route s
      = ((0, Message (LF # ''Generated internal key successfully:'' @ [LF] @ k)), s')"
    by (simp add: cli_main_def newAdminClient_def run_command_def split: option.splits)
  then obtain key al where p: "ci_keyPrompt env = Inr key" "ci_aliasPrompt env = Inr al"
    by (auto simp: handleKeyAdd_def split: sum.splits)
  have "handle_AddKey (he_sha h) (he_cfg h) route key al (Inr uid) (Inr bytes) (cp_store s)
      = (Inr k, cp_store s')"
    using h by (auto simp: p handleKeyAdd_def answered_def direct_client_def assms(3,4) as_rpc_def
        rpc_failed_def split: prod.splits sum.splits)
  with p show thesis by (rule that)
qed

definition sample_cli_env :: cli_env where
  "sample_cli_env = \<lparr>ci_getenv = [], ci_dial = (\<lambda>addr. None), ci_keyPrompt = Inr ''k2'',
     ci_aliasPrompt = Inr ''al'', ci_now = sample_time, ci_text = (\<lambda>e. ''e'')\<rparr>"

definition sample_handlers :: handler_env where
  "sample_handlers = \<lparr>he_sha = id, he_cfg = sample_config, he_uuid = Inr ''v'', he_rand = Inr ''ab'',
     he_engine = sample_engine, he_fault = no_stats_fault, he_now = sample_time, he_db = empty_db,
     he_text = (\<lambda>e. ''e'')\<rparr>"

definition sample_plane :: control_plane where
  "sample_plane = \<lparr>cp_store = sample_store, cp_log = fresh_log\<rparr>"

lemma sample_cli_args:
  "parseCLIConfig [] (''--addr=h:1'' # ''key'' # rest) = Inr (''h:1'', ''key'' # rest)"
proof -
  have "flag_Parse (cli_flag_set []) (''--addr=h:1'' # ''key'' # rest)
      = flag_Parse [(''addr'', StringV ''h:1'')] (''key'' # rest)"
    using parse_string(2) [OF dashes_simps(2), of "''addr''" "cli_flag_set []" "default_addr []" "''h:1''"]
    by (simp add: flag_name_def cli_flag_set_def del: flag_Parse.simps)
  then show ?thesis using parse_plain [of "''key''"] by (simp add: parseCLIConfig_def del: flag_Parse.simps)
qed

lemma sample_key_added:
  "\<exists>store. handle_AddKey id sample_config ''/a'' ''k2'' ''al'' (Inr ''v'') (Inr ''ab'') sample_store
      = (Inr (internal_key_of ''ab''), store) \<and> store \<noteq> sample_store"
proof -
  have trim: "trim_space ''k2'' = ''k2''" by (rule trim_space_visible) (simp add: visible_def)
  have "\<forall>q \<in> records sample_store. \<not> (kr_Route q = ''/a'' \<and> kr_RealKey q = ''k2'')"
    by (simp add: sample_records sample_record_def)
  note add = AddKey_success [OF this, of id "''al''" "''v''" "''ab''"]
  have "ks_keys (snd (AddKey id ''/a'' ''k2'' ''al'' (Inr ''v'') (Inr ''ab'') sample_store))
      \<noteq> ks_keys sample_store"
    by (simp add: add sample_keys)
  then have "snd (AddKey id ''/a'' ''k2'' ''al'' (Inr ''v'') (Inr ''ab'') sample_store) \<noteq> sample_store"
    by metis
  then show ?thesis using add trim by (simp add: handle_AddKey_def)
qed

lemma client_changes_witness:
  "\<exists>store. snd (cli_main sample_cli_env (direct_client sample_handlers)
      [''--addr=h:1'', ''key'', ''add'', ''/a''] sample_plane) = sample_plane\<lparr>cp_store := store\<rparr>
    \<and> store \<noteq> sample_store"
proof -
  let ?args = "[''--addr=h:1'', ''key'', ''add'', ''/a'']"
  obtain store where store: "handle_AddKey id sample_config ''/a'' ''k2'' ''al'' (Inr ''v'') (Inr ''ab'')
      sample_store = (Inr (internal_key_of ''ab''), store)" "store \<noteq> sample_store"
    using sample_key_added by blast
  have "dispatch [''key'', ''add'', ''/a''] = KeyAddCmd ''/a''" by (simp add: dispatch_def)
  then have "snd (cli_main sample_cli_env (direct_client sample_handlers) ?args sample_plane)
      = sample_plane\<lparr>cp_store := store\<rparr>"
    using store(1) sample_cli_args [of "[''add'', ''/a'']"]
    by (simp add: cli_main_def newAdminClient_def sample_cli_env_def run_command_def handleKeyAdd_def answered_state)
       (simp add: direct_client_def sample_handlers_def sample_plane_def)
  moreover from this have "snd (cli_main sample_cli_env (direct_client sample_handlers) ?args sample_plane)
      \<noteq> sample_plane"
    using store(2) by (simp add: sample_plane_def)
  note client_changes [OF this]
  ultimately show ?thesis using store(2) by blast
qed

end
