(* ===== verification/AuditLog.thy ===== *)
theory AuditLog
  imports Gateway
begin

text \<open>
  What the running gateway writes to its log: the calls of \<open>logx\<close> in \<open>internal/keystore/store.go\<close>,
  \<open>grpc/handler.go\<close>, \<open>internal/usage/store.go\<close>, \<open>internal/usage/worker.go\<close> and
  \<open>internal/proxy/proxy.go\<close>, one function for each operation, with the same branches. \<open>audit_step\<close> is
  \<open>gw_step\<close> with the logger beside it. The texts of errors that arise outside the repository and
  \<open>strconv.Quote\<close> (\<open>%q\<close>) are arguments.
\<close>

section \<open>The key store and its handlers\<close>

record log_texts =
  lt_quote :: "string \<Rightarrow> string"
  lt_query_error :: "query_error \<Rightarrow> string"
  lt_stats_error :: "stats_error \<Rightarrow> string"

definition keystore_error_text :: "log_texts \<Rightarrow> keystore_error \<Rightarrow> string" where
  "keystore_error_text X e =
     (case e of
        DuplicateCredential al \<Rightarrow>
          ''upstream authorization token already exists in mapping pool under alias '' @ lt_quote X al
      | IdentityFailed m \<Rightarrow> ''failed to generate secure tracking identity: '' @ m
      | EntropyFailed m \<Rightarrow> ''failed to generate entropy token: '' @ m)"

definition AddKey_log :: "string \<Rightarrow> keystore_error + key_record \<Rightarrow> log_call list" where
  "AddKey_log route res =
     (case res of
        Inl (DuplicateCredential al) \<Rightarrow>
          [Debug (''rejected duplicate key registration: route='' @ route @ '', existing_alias='' @ al)]
      | Inl (IdentityFailed m) \<Rightarrow> [Debug ''failed to generate secure tracking identity'']
      | Inl (EntropyFailed m) \<Rightarrow> [Debug ''failed to generate entropy token'']
      | Inr record \<Rightarrow> [])"

definition DeleteKey_log :: "string \<Rightarrow> bool \<Rightarrow> log_call list" where
  "DeleteKey_log uid found =
     (if found then []
      else [Debug (''failed to delete key: uuid '' @ uid @ '' not found in keystore'')])"

definition GetKeyByInternal_log ::
  "(string \<Rightarrow> string) \<Rightarrow> string \<Rightarrow> key_record option \<Rightarrow> log_call list" where
  "GetKeyByInternal_log sha internalKey res =
     (let h = hashInternalKey sha internalKey
      in case res of
           None \<Rightarrow> [Debug (''keystore cache miss for requested internal key hash: '' @ h)]
         | Some record \<Rightarrow>
             [Debug (''keystore cache hit: matched internal key hash '' @ h @ '' onto route ''
                @ kr_Route record @ '' with alias '' @ kr_Alias record)])"

definition handle_AddKey_log ::
  "log_texts \<Rightarrow> (string \<Rightarrow> string) \<Rightarrow> apml_config \<Rightarrow> string \<Rightarrow> string \<Rightarrow> string \<Rightarrow> string + string
     \<Rightarrow> string + string \<Rightarrow> key_store \<Rightarrow> log_call list" where
  "handle_AddKey_log X sha cfg route realKey al uuid_draw rand_draw store =
     (if map_of (cfg_Routes cfg) route = None then
        [Error (''failed to add key: target context route '' @ lt_quote X route @ '' does not exist'')]
      else if trim_space realKey = [] then
        [Error ''failed to add key: upstream authorization token payload is empty'']
      else
        (let res = fst (AddKey sha route realKey al uuid_draw rand_draw store)
         in AddKey_log route res @
            (case res of
               Inl err \<Rightarrow>
                 [Error (''failed to add key to keystore on route '' @ route @ '': ''
                    @ keystore_error_text X err)]
             | Inr record \<Rightarrow>
                 [Info (''successfully added credentials. uuid='' @ kr_UUID record @ '', alias=''
                    @ kr_Alias record @ '', route='' @ kr_Route record @ '', internalKey=''
                    @ kr_InternalKey record)])))"

definition handle_DeleteKey_log :: "string \<Rightarrow> bool \<Rightarrow> log_call list" where
  "handle_DeleteKey_log uid success =
     DeleteKey_log uid success @
     (if \<not> success
      then [Warn (''attempted to delete key but target UUID not found: '' @ uid)]
      else [Info (''successfully purged credential record: uuid='' @ uid)])"

definition GetStats_log ::
  "log_texts \<Rightarrow> sqlite \<Rightarrow> stats_fault \<Rightarrow> go_time \<Rightarrow> usage_db option \<Rightarrow> stats_request option
     \<Rightarrow> log_call list" where
  "GetStats_log X E fault now usage req =
     (case usage of
        None \<Rightarrow> [Error ''failed to query statistics: usage store is not configured'']
      | Some db \<Rightarrow>
          (case req of
             None \<Rightarrow> []
           | Some r \<Rightarrow>
               (case sr_Mode r of
                  DAILY \<Rightarrow>
                    (let today = format_date now;
                         startDate = default_date today (sr_StartDate r);
                         endDate = default_date today (sr_EndDate r)
                     in Debug (''querying daily statistics range: '' @ startDate @ '' to '' @ endDate)
                        # (case GetDailyStats E fault db startDate endDate of
                             Inl e \<Rightarrow> [Error (''failed to retrieve daily stats: '' @ lt_stats_error X e)]
                           | Inr rows \<Rightarrow> []))
                | MONTHLY \<Rightarrow>
                    (let year = default_year now (sr_Year r)
                     in Debug (''querying monthly statistics for year: '' @ show_int year)
                        # (case GetMonthlyStats E fault db year of
                             Inl e \<Rightarrow> [Error (''failed to retrieve monthly stats: '' @ lt_stats_error X e)]
                           | Inr rows \<Rightarrow> []))
                | VERBOSE \<Rightarrow>
                    (let limit = default_limit (sr_MaxCount r)
                     in Debug (''querying verbose system audit logs. limit='' @ show_int limit)
                        # (case GetVerboseLogs fault db limit of
                             Inl e \<Rightarrow> [Error (''failed to retrieve verbose logs: '' @ lt_stats_error X e)]
                           | Inr rows \<Rightarrow> []))
                | OtherMode m \<Rightarrow>
                    [Error (''failed to query statistics: unsupported stats mode '' @ show_int m)])))"

definition ConfigureDebug_log :: "bool option \<Rightarrow> log_call list" where
  "ConfigureDebug_log req =
     (case req of None \<Rightarrow> [] | Some enable \<Rightarrow> [if enable then Enable else Disable])"

lemma ConfigureDebug_calls:
  "snd (ConfigureDebug req l) = fold run_call (ConfigureDebug_log req) l"
  by (simp add: ConfigureDebug_def ConfigureDebug_log_def Let_def split: option.split)

section \<open>The quota check\<close>

text \<open>The lines of one window, then those of the rest of the check when the window lets it go on.\<close>

definition check_window_log ::
  "log_texts \<Rightarrow> sqlite \<Rightarrow> (string \<Rightarrow> string option) \<Rightarrow> usage_db \<Rightarrow> string \<Rightarrow> string \<Rightarrow> string \<Rightarrow> string
     \<Rightarrow> string \<Rightarrow> int64 \<Rightarrow> int64 \<Rightarrow> log_call list \<Rightarrow> log_call list" where
  "check_window_log X E query_fault db mode localKey routePath period periodValue limit estimated rest =
     (if i64_gt limit 0 then
        (case queryTokens E query_fault db mode localKey routePath period periodValue of
           Inl err \<Rightarrow>
             [Debug (''quota db failure (fail-open engaged): '' @ period @ '' lookup failed for route ''
                @ routePath @ '': '' @ lt_query_error X err)]
         | Inr current \<Rightarrow>
             if i64_gt (current + estimated) limit
             then [Debug (''quota violation: '' @ period @ '' limit breach on route '' @ routePath
                @ '' (used='' @ show_int (sint current) @ '', estimated='' @ show_int (sint estimated)
                @ '', limit='' @ show_int (sint limit) @ '')'')]
             else rest)
      else rest)"

definition QuotaCheck_log ::
  "log_texts \<Rightarrow> sqlite \<Rightarrow> gjson \<Rightarrow> (string \<Rightarrow> string option) \<Rightarrow> go_time \<Rightarrow> usage_db \<Rightarrow> string
     \<Rightarrow> string \<Rightarrow> quota_detail \<Rightarrow> string \<Rightarrow> provider_config option \<Rightarrow> log_call list" where
  "QuotaCheck_log X E gj query_fault now db localKey routePath quota requestBody provider =
     (if q_Daily quota = 0 \<and> q_Monthly quota = 0 then
        [Debug (''quota check bypass: unlimited allocation policy enforced on route '' @ routePath)]
      else
        (let estimated = estimateInputTokens gj requestBody provider
         in Debug (''quota pre-flight assessment: route='' @ routePath @ '', key='' @ localKey
              @ '', mode='' @ q_Mode quota @ '', estimated_input='' @ show_int (sint estimated))
            # check_window_log X E query_fault db (q_Mode quota) localKey routePath ''daily''
                (format_date now) (q_Daily quota) estimated
                (check_window_log X E query_fault db (q_Mode quota) localKey routePath ''monthly''
                   (format_month now) (q_Monthly quota) estimated
                   [Debug (''quota verification cleared for route '' @ routePath)])))"

section \<open>The proxy\<close>

definition dquote :: string where
  "dquote = [CHR 0x22]"

text \<open>
  A line in the style of a web server: \<open>%s - %s [%s] "POST %s HTTP/1.1" %d - "-" "\<dots>"\<close>. The path of
  a request is the route and what its wildcard matched.
\<close>

definition access_line :: "string \<Rightarrow> string \<Rightarrow> go_time \<Rightarrow> string \<Rightarrow> nat \<Rightarrow> string \<Rightarrow> string" where
  "access_line clientIP who startTime path status message =
     clientIP @ '' - '' @ who @ '' ['' @ format_access startTime @ ''] '' @ dquote @ ''POST '' @ path
       @ '' HTTP/1.1'' @ dquote @ '' '' @ show_int (int status) @ '' - '' @ dquote @ ''-'' @ dquote
       @ '' '' @ dquote @ message @ dquote"

definition request_path :: "string \<Rightarrow> request \<Rightarrow> string" where
  "request_path routePath rq = routePath @ rq_any rq"

definition denied_line :: "string \<Rightarrow> string \<Rightarrow> request \<Rightarrow> deny \<Rightarrow> string" where
  "denied_line who routePath rq d =
     access_line (rq_ClientIP rq) who (rq_Start rq) (request_path routePath rq) (deny_status d)
       (case d of
          MissingCustomKey header \<Rightarrow> ''Missing custom key header''
        | MissingBearer \<Rightarrow> ''Missing Bearer token''
        | InvalidKey \<Rightarrow> ''Invalid or mismatched credential token''
        | QuotaExceeded reason \<Rightarrow> ''Quota exhausted: '' @ reason)"

definition authInterceptor_log ::
  "log_texts \<Rightarrow> (string \<Rightarrow> string) \<Rightarrow> apml_config \<Rightarrow> key_store \<Rightarrow> quota_env \<Rightarrow> string \<Rightarrow> request
     \<Rightarrow> log_call list" where
  "authInterceptor_log X sha cfg store env routePath rq =
     (let providerCfg = provider_of cfg routePath in
      case presented_key providerCfg (rq_Header rq) of
        Inl d \<Rightarrow> [Access (denied_line ''-'' routePath rq d)]
      | Inr localKey \<Rightarrow>
          (let found = GetKeyByInternal sha store localKey
           in GetKeyByInternal_log sha localKey found @
              (case found of
                 None \<Rightarrow> [Access (denied_line ''-'' routePath rq InvalidKey)]
               | Some keyRecord \<Rightarrow>
                   if kr_Route keyRecord \<noteq> routePath
                   then [Access (denied_line ''-'' routePath rq InvalidKey)]
                   else
                     (let quotaName = rc_Quota (case map_of (cfg_Routes cfg) routePath of
                            None \<Rightarrow> zero_route | Some r \<Rightarrow> r)
                      in if quotaName = [] then []
                         else
                           (let quota = (case map_of (cfg_Quotas cfg) quotaName of
                                  None \<Rightarrow> zero_quota | Some q \<Rightarrow> q);
                                bodyBytes = fst (read_all (rq_Body rq));
                                provider = (case providerCfg of None \<Rightarrow> zero_provider | Some p \<Rightarrow> p);
                                result = QuotaCheck (qe_engine env) (qe_gjson env) (qe_fault env)
                                  (qe_now env) (qe_db env) localKey routePath quota bodyBytes (Some provider)
                            in QuotaCheck_log X (qe_engine env) (qe_gjson env) (qe_fault env)
                                 (qe_now env) (qe_db env) localKey routePath quota bodyBytes (Some provider)
                               @ (if \<not> c_Allowed result
                                  then [Access (denied_line (kr_Alias keyRecord) routePath rq
                                    (QuotaExceeded (c_DenyReason result)))]
                                  else []))))))"

definition Rewrite_log :: "gjson \<Rightarrow> sjson \<Rightarrow> provider_config \<Rightarrow> request \<Rightarrow> log_call list" where
  "Rewrite_log gj sj p rq =
     (case rq_Body rq of
        BodyStream bytes None \<Rightarrow>
          (if is_streaming gj bytes \<and> pc_Streaming p \<noteq> None
           then [AccessDebug (''intercepting upstream ingress tunnel: injecting apml vendor stream ''
             @ ''options into payload'')] else [])
          @ [AccessDebug (''upstream request payload body json: '' @ out_body gj sj p bytes)]
      | _ \<Rightarrow> [])"

text \<open>The line with the counts; \<open>latency\<close> is the text of the time since the start.\<close>

definition tokens_line :: "auth_context \<Rightarrow> string \<Rightarrow> string \<Rightarrow> string \<Rightarrow> token_counts \<Rightarrow> string" where
  "tokens_line cx path what latency counts =
     (case counts of (promptTokens, completionTokens) \<Rightarrow>
        access_line (cx_clientIP cx) (cx_alias cx) (cx_startTime cx) path StatusOK
          (what @ show_int (sint promptTokens) @ '' C='' @ show_int (sint completionTokens) @ '' T=''
             @ show_int (sint (promptTokens + completionTokens)) @ latency))"

definition ModifyResponse_log ::
  "gjson \<Rightarrow> provider_config \<Rightarrow> auth_context \<Rightarrow> string \<Rightarrow> string \<Rightarrow> stream_timing \<Rightarrow> bool \<Rightarrow> response
     \<Rightarrow> log_call list" where
  "ModifyResponse_log gj p cx path latency tm isStreaming res =
     (if rs_Status res \<noteq> StatusOK then
        [AccessDebug (access_line (cx_clientIP cx) (cx_alias cx) (cx_startTime cx) path (rs_Status res)
           (''Upstream vendor failure returned status '' @ show_int (int (rs_Status res))))]
      else if \<not> isStreaming then
        (case read_all (rs_Body res) of
           (bytes, Some err) \<Rightarrow> []
         | (bytes, None) \<Rightarrow>
             AccessDebug (''upstream non-streaming response body json: '' @ bytes)
             # (case ParseStandardJSON gj bytes p of
                  None \<Rightarrow> []
                | Some counts \<Rightarrow>
                    [AccessDebug (tokens_line cx path ''Tokens: P='' ('' | Latency: '' @ latency) counts)]))
      else
        (let (bytes, err) = read_all (rs_Body res);
             (text, seen) = tee_stream p tm bytes err
         in [AccessDebug (''establishing streaming server-sent events egress tunnel matrix for client ip: ''
               @ cx_clientIP cx),
             AccessDebug (tokens_line cx path ''Stream Tokens: P='' ('' | Total Latency: '' @ latency)
               (ParseStreamReader gj text p))]))"

definition bad_gateway_line :: "auth_context \<Rightarrow> string \<Rightarrow> string \<Rightarrow> string" where
  "bad_gateway_line cx routePath err =
     access_line (cx_clientIP cx) (cx_alias cx) (cx_startTime cx) routePath 502
       (''Bad Gateway Proxy Connection Fault: '' @ err)"

definition fault_text :: "log_texts \<Rightarrow> gateway_fault \<Rightarrow> string" where
  "fault_text X err =
     (case err of
        TransportFault m \<Rightarrow> m
      | ClientProtocol t \<Rightarrow> ''client tried to switch to invalid protocol '' @ lt_quote X t
      | BackendProtocol t \<Rightarrow> ''backend tried to switch to invalid protocol '' @ lt_quote X t
      | OtherProtocol res req \<Rightarrow>
          ''backend tried to switch protocol '' @ lt_quote X res @ '' when '' @ lt_quote X req
            @ '' was requested'')"

definition bad_gateway :: "log_texts \<Rightarrow> auth_context \<Rightarrow> string \<Rightarrow> gateway_fault \<Rightarrow> log_call" where
  "bad_gateway X cx routePath err = Access (bad_gateway_line cx routePath (fault_text X err))"

definition handleReverseProxy_log ::
  "log_texts \<Rightarrow> gjson \<Rightarrow> sjson \<Rightarrow> apml_config \<Rightarrow> proxy_route \<Rightarrow> (out_request \<Rightarrow> string + response) \<Rightarrow> string
     \<Rightarrow> stream_timing \<Rightarrow> auth_context \<Rightarrow> request \<Rightarrow> log_call list" where
  "handleReverseProxy_log X gj sj cfg r upstream latency tm cx rq =
     (case map_of (cfg_Providers cfg) (rc_Provider (pr_routeCfg r)) of
        None \<Rightarrow> []
      | Some p \<Rightarrow>
          if \<not> printable_name (upgrade_type (rq_Header rq))
          then [bad_gateway X cx (pr_routePath r) (ClientProtocol (upgrade_type (rq_Header rq)))]
          else
            (let (out, isStreaming) = Rewrite gj sj p (pr_target r) (cx_realKey cx) rq
             in Rewrite_log gj sj p rq @
                (case upstream out of
                   Inl err \<Rightarrow> [bad_gateway X cx (pr_routePath r) (TransportFault err)]
                 | Inr res \<Rightarrow>
                     ModifyResponse_log gj p cx (request_path (pr_routePath r) rq) latency tm isStreaming
                       (end_to_end res)
                     @ (if rs_Status res = StatusSwitchingProtocols then
                          (case upgrade_fault (o_Header out) (rs_Header res) of
                             Some err \<Rightarrow> [bad_gateway X cx (pr_routePath r) err]
                           | None \<Rightarrow> [])
                        else []))))"

section \<open>The usage backend\<close>

definition long_dash :: string where
  "long_dash = [CHR 0xE2, CHR 0x80, CHR 0x94]"

definition EmitNonBlocking_log :: "usage_record \<Rightarrow> backend \<Rightarrow> log_call list" where
  "EmitNonBlocking_log rec b =
     (if length (b_queue b) < defaultQueueSize then []
      else [Warn (''queue full, dropping usage record (local_key='' @ r_LocalKey rec @ '' route=''
        @ r_RoutePath rec @ '') '' @ long_dash @ '' '' @ show_int (sint (b_dropped b + 1))
        @ '' dropped total'')])"

fun write_error_text :: "write_stage \<times> string \<Rightarrow> string" where
  "write_error_text (BeginTx, m) = ''begin transaction: '' @ m"
| "write_error_text (InsertLogs, m) = ''insert usage_logs: '' @ m"
| "write_error_text (UpsertDaily, m) = ''upsert daily_usages: '' @ m"
| "write_error_text (UpsertMonthly, m) = ''upsert monthly_usages: '' @ m"
| "write_error_text (CommitTx, m) = ''commit transaction: '' @ m"

definition writeRecord_log ::
  "sqlite \<Rightarrow> write_fault \<Rightarrow> go_time \<Rightarrow> string \<Rightarrow> usage_record \<Rightarrow> usage_db \<Rightarrow> log_call list" where
  "writeRecord_log E fault now clock rec db =
     (case fst (executeTripleWrite E fault now clock rec db) of
        None \<Rightarrow> []
      | Some err \<Rightarrow>
          [Error (''failed to persist usage record (local_key='' @ r_LocalKey rec @ '' route=''
             @ r_RoutePath rec @ '' tokens='' @ show_int (sint (r_TotalTokens rec)) @ ''): ''
             @ write_error_text err)])"

fun background_log :: "sqlite \<Rightarrow> usage_db \<Rightarrow> backend_event \<Rightarrow> log_call list" where
  "background_log E db (Write rec fault now clock) = writeRecord_log E fault now clock rec db"
| "background_log E db ev = []"


section \<open>The gateway with its log\<close>

record audit =
  au_gateway :: gateway
  au_log :: log_state

text \<open>A gateway that starts, after \<open>Init\<close> has left the logger in the state \<open>l\<close>.\<close>

definition audit_start :: "usage_db \<Rightarrow> log_state \<Rightarrow> audit" where
  "audit_start db l = \<lparr>au_gateway = gw_start db, au_log = l\<rparr>"

datatype audit_event =
    Step gw_event
  | StatsAsked
  | DebugConfigured "bool option"

definition proxy_log ::
  "deployment \<Rightarrow> log_texts \<Rightarrow> (out_request \<Rightarrow> string + response) \<Rightarrow> string \<Rightarrow> stream_timing \<Rightarrow> flight
     \<Rightarrow> log_call list" where
  "proxy_log D X upstream latency tm fl =
     handleReverseProxy_log X (d_gjson D) (d_sjson D) (d_cfg D) (fl_route fl) upstream latency tm
       (fl_context fl) (fl_request fl)"

definition logged :: "log_call list \<Rightarrow> log_state \<Rightarrow> log_state" where
  "logged cs l = fold run_call cs l"

text \<open>
  The steps of \<open>gw_step\<close>, each with the calls of the logger it makes, in their order, and the remote
  calls that touch the log alone. (What the vendor answered, the clocks and the draws are the same
  in the step and in its log.)
\<close>

inductive audit_step :: "deployment \<Rightarrow> log_texts \<Rightarrow> audit \<Rightarrow> audit_event \<Rightarrow> audit \<Rightarrow> bool" for D X where
  au_add: "handle_AddKey (d_sha D) (d_cfg D) route realKey al ud rd (gw_store g) = (res, store) \<Longrightarrow>
    (\<And>uid bytes. ud = Inr uid \<Longrightarrow> rd = Inr bytes \<Longrightarrow> fresh_for (d_sha D) uid bytes (gw_store g)) \<Longrightarrow>
    audit_step D X \<lparr>au_gateway = g, au_log = l\<rparr> (Step (KeyAdded res))
      \<lparr>au_gateway = g\<lparr>gw_store := store\<rparr>,
       au_log = logged (handle_AddKey_log X (d_sha D) (d_cfg D) route realKey al ud rd (gw_store g)) l\<rparr>"
| au_delete: "handle_DeleteKey uid (gw_store g) = (found, store) \<Longrightarrow>
    audit_step D X \<lparr>au_gateway = g, au_log = l\<rparr> (Step (KeyDeleted uid found))
      \<lparr>au_gateway = g\<lparr>gw_store := store\<rparr>, au_log = logged (handle_DeleteKey_log uid found) l\<rparr>"
| au_admit: "r \<in> set (d_routes D) \<Longrightarrow>
    authInterceptor (d_sha D) (d_cfg D) (gw_store g) (quota_env_of D fault now g) (pr_routePath r) rq
      = Inr (cx, rq') \<Longrightarrow>
    fl = \<lparr>fl_route = r, fl_context = cx, fl_request = rq'\<rparr> \<Longrightarrow>
    audit_step D X \<lparr>au_gateway = g, au_log = l\<rparr> (Step (Admitted fault now rq fl))
      \<lparr>au_gateway = g\<lparr>gw_flights := gw_flights g @ [fl]\<rparr>,
       au_log = logged (authInterceptor_log X (d_sha D) (d_cfg D) (gw_store g)
         (quota_env_of D fault now g) (pr_routePath r) rq) l\<rparr>"
| au_refuse: "r \<in> set (d_routes D) \<Longrightarrow>
    authInterceptor (d_sha D) (d_cfg D) (gw_store g) (quota_env_of D fault now g) (pr_routePath r) rq
      = Inl d \<Longrightarrow>
    audit_step D X \<lparr>au_gateway = g, au_log = l\<rparr> (Step (Refused d))
      \<lparr>au_gateway = g, au_log = logged (authInterceptor_log X (d_sha D) (d_cfg D) (gw_store g)
         (quota_env_of D fault now g) (pr_routePath r) rq) l\<rparr>"
| au_silent: "fl \<in> set (gw_flights g) \<Longrightarrow>
    proxy_outcome D upstream now tm fl = Forwarded out res None \<Longrightarrow>
    audit_step D X \<lparr>au_gateway = g, au_log = l\<rparr> (Step (Answered fl None))
      \<lparr>au_gateway = g\<lparr>gw_flights := remove1 fl (gw_flights g)\<rparr>,
       au_log = logged (proxy_log D X upstream latency tm fl) l\<rparr>"
| au_billed: "fl \<in> set (gw_flights g) \<Longrightarrow>
    proxy_outcome D upstream now tm fl = Forwarded out res (Some rec) \<Longrightarrow>
    ev = Accept rec \<or> ev = Drop rec \<Longrightarrow> backend_step (d_engine D) (gw_backend g) ev b \<Longrightarrow>
    audit_step D X \<lparr>au_gateway = g, au_log = l\<rparr> (Step (Answered fl (Some ev)))
      \<lparr>au_gateway = g\<lparr>gw_flights := remove1 fl (gw_flights g), gw_backend := b\<rparr>,
       au_log = logged (proxy_log D X upstream latency tm fl @ EmitNonBlocking_log rec (gw_backend g)) l\<rparr>"
| au_failed: "fl \<in> set (gw_flights g) \<Longrightarrow>
    (\<exists>out err. proxy_outcome D upstream now tm fl = BadGateway out err)
      \<or> proxy_outcome D upstream now tm fl = Panicked \<Longrightarrow>
    audit_step D X \<lparr>au_gateway = g, au_log = l\<rparr> (Step (Failed fl))
      \<lparr>au_gateway = g\<lparr>gw_flights := remove1 fl (gw_flights g)\<rparr>,
       au_log = logged (proxy_log D X upstream latency tm fl) l\<rparr>"
| au_background: "own_event ev \<Longrightarrow> backend_step (d_engine D) (gw_backend g) ev b \<Longrightarrow>
    audit_step D X \<lparr>au_gateway = g, au_log = l\<rparr> (Step (Background ev))
      \<lparr>au_gateway = g\<lparr>gw_backend := b\<rparr>,
       au_log = logged (background_log (d_engine D) (b_db (gw_backend g)) ev) l\<rparr>"
| au_stats: "audit_step D X \<lparr>au_gateway = g, au_log = l\<rparr> StatsAsked
    \<lparr>au_gateway = g, au_log = logged (GetStats_log X (d_engine D) fault now
       (Some (b_db (gw_backend g))) req) l\<rparr>"
| au_debug: "audit_step D X \<lparr>au_gateway = g, au_log = l\<rparr> (DebugConfigured req)
    \<lparr>au_gateway = g, au_log = snd (ConfigureDebug req l)\<rparr>"

inductive_cases audit_stepE: "audit_step D X a ev a'"

inductive audit_run :: "deployment \<Rightarrow> log_texts \<Rightarrow> audit \<Rightarrow> audit_event list \<Rightarrow> audit \<Rightarrow> bool" for D X a where
  au_nil: "audit_run D X a [] a"
| au_snoc: "audit_run D X a evs a' \<Longrightarrow> audit_step D X a' ev a'' \<Longrightarrow> audit_run D X a (evs @ [ev]) a''"

end
