(* ===== verification/AuditTrail.thy ===== *)
theory AuditTrail
  imports AuditLog
begin

text \<open>
  What the log of the gateway says of a run: the audited steps are the steps of the gateway, and its
  lines of the levels that are always written count refusals and failed connections exactly, and
  name the dropped and the lost records one by one. Two properties say what else is in it: the issued keys, and whatever a client
  puts there.
\<close>

section \<open>The audited steps are the gateway's steps\<close>

fun gw_events :: "audit_event list \<Rightarrow> gw_event list" where
  "gw_events [] = []"
| "gw_events (Step ev # evs) = ev # gw_events evs"
| "gw_events (ev # evs) = gw_events evs"

lemma gw_events_append [simp]: "gw_events (evs @ evs') = gw_events evs @ gw_events evs'"
  by (induction evs rule: gw_events.induct) simp_all

lemma audit_step_gateway:
  assumes "audit_step D X a ev a'"
  shows "(\<exists>gev. ev = Step gev \<and> gw_step D (au_gateway a) gev (au_gateway a'))
    \<or> (gw_events [ev] = [] \<and> au_gateway a' = au_gateway a)"
  using assms by (cases rule: audit_step.cases) (simp_all, (metis gw_step.intros)+)

lemma audit_run_gateway:
  "audit_run D X a evs a' \<Longrightarrow> gw_run D (au_gateway a) (gw_events evs) (au_gateway a')"
proof (induction rule: audit_run.induct)
  case (au_snoc evs a' ev a'')
  from audit_step_gateway [OF au_snoc.hyps(2)] au_snoc.IH show ?case
    by (auto intro: gw_snoc)
qed (simp add: gw_nil)

text \<open>Logging never stops a step.\<close>

lemma gw_step_audited:
  "gw_step D g ev g' \<Longrightarrow> \<exists>l'. audit_step D X \<lparr>au_gateway = g, au_log = l\<rparr> (Step ev)
    \<lparr>au_gateway = g', au_log = l'\<rparr>"
  by (erule gw_stepE) (simp_all, (blast intro: audit_step.intros)+)

section \<open>The lines that are always written\<close>

text \<open>The line a call writes whether or not debugging is on.\<close>

fun kept_line :: "log_call \<Rightarrow> (string \<times> string) option" where
  "kept_line (Info m) = Some (''[INFO]'', m)"
| "kept_line (Warn m) = Some (''[WARN]'', m)"
| "kept_line (Error m) = Some (''[ERROR]'', m)"
| "kept_line (Access m) = Some (''[ACCESS]'', m)"
| "kept_line c = None"

definition kept_lines :: "log_call list \<Rightarrow> (string \<times> string) list" where
  "kept_lines cs = List.map_filter kept_line cs"

lemma kept_lines_simps [simp]:
  "kept_lines [] = []"
  "kept_lines (c # cs) = (case kept_line c of None \<Rightarrow> [] | Some x \<Rightarrow> [x]) @ kept_lines cs"
  "kept_lines (cs @ cs') = kept_lines cs @ kept_lines cs'"
  by (simp_all add: kept_lines_def List.map_filter_def split: option.split)

text \<open>What is counted: no debug line, and not the answer of the debug switch.\<close>

definition countable_line :: "(string \<times> string \<Rightarrow> bool) \<Rightarrow> bool" where
  "countable_line P \<longleftrightarrow> (\<forall>m. \<not> P (''[DEBUG]'', m)) \<and> (\<forall>m. \<not> P (''[ACCESS_DEBUG]'', m))
     \<and> (\<forall>m. P (''[INFO]'', m) \<longrightarrow> m \<notin> {''debug mode enabled'', ''debug mode disabled''})"

lemma run_call_ready: "lg_ready l \<Longrightarrow> lg_ready (run_call c l)"
  by (cases c) (auto simp: log_defs Let_def split: option.split)

lemma logged_simps [simp]:
  "logged [] l = l"
  "logged (c # cs) l = logged cs (run_call c l)"
  "logged (cs @ cs') l = logged cs' (logged cs l)"
  by (simp_all add: logged_def)

lemma logged_ready: "lg_ready l \<Longrightarrow> lg_ready (logged cs l)"
  by (induction cs arbitrary: l) (simp_all add: run_call_ready)

lemma run_call_count:
  assumes "countable_line P" "lg_ready l"
  shows "filter P (lg_lines (run_call c l)) = filter P (lg_lines l) @ filter P (kept_lines [c])"
  using assms unfolding countable_line_def
  by (cases c) (auto simp: log_defs Let_def split: option.splits)

lemma logged_count:
  assumes "countable_line P" "lg_ready l"
  shows "filter P (lg_lines (logged cs l)) = filter P (lg_lines l) @ filter P (kept_lines cs)"
  using assms(2)
proof (induction cs arbitrary: l)
  case (Cons c cs)
  then show ?case
    using run_call_count [OF assms(1) Cons.prems, of c] Cons.IH [OF run_call_ready [OF Cons.prems, of c]]
    by simp
qed simp

lemma logged_extends: "prefix (lg_lines l) (lg_lines (logged cs l))"
proof (induction cs arbitrary: l)
  case (Cons c cs)
  from run_call_appends [of c l] have "prefix (lg_lines l) (lg_lines (run_call c l))" by auto
  with Cons.IH [of "run_call c l"] show ?case by (auto intro: prefix_order.trans)
qed simp

section \<open>Which lines an operation always writes\<close>

lemma kept_QuotaCheck [simp]:
  "kept_lines (QuotaCheck_log X E gj fault now db k path q body p) = []"
  by (simp add: QuotaCheck_log_def check_window_log_def Let_def split: sum.split)

lemma kept_GetKey [simp]: "kept_lines (GetKeyByInternal_log sha k res) = []"
  by (simp add: GetKeyByInternal_log_def Let_def split: option.split)

lemma kept_AddKey [simp]: "kept_lines (AddKey_log route res) = []"
  by (simp add: AddKey_log_def split: sum.split keystore_error.split)

lemma kept_DeleteKey [simp]: "kept_lines (DeleteKey_log uid found) = []"
  by (simp add: DeleteKey_log_def)

text \<open>The interceptor writes one access line for a refusal and none for an admission.\<close>

lemma kept_refused:
  assumes "authInterceptor sha cfg store env path rq = Inl d"
  shows "\<exists>who. kept_lines (authInterceptor_log X sha cfg store env path rq)
    = [(''[ACCESS]'', denied_line who path rq d)]"
proof (cases "presented_key (provider_of cfg path) (rq_Header rq)")
  case (Inl d')
  with assms show ?thesis by (auto simp: authInterceptor_log_def authInterceptor_def)
next
  case (Inr k)
  then show ?thesis
    using assms
    by (cases "GetKeyByInternal sha store k")
       (auto simp: authInterceptor_log_def authInterceptor_def Let_def split: if_splits)
qed

lemma kept_admitted:
  assumes "authInterceptor sha cfg store env path rq = Inr ok"
  shows "kept_lines (authInterceptor_log X sha cfg store env path rq) = []"
proof (cases "presented_key (provider_of cfg path) (rq_Header rq)")
  case (Inl d')
  with assms show ?thesis by (simp add: authInterceptor_def)
next
  case (Inr k)
  then show ?thesis
    using assms
    by (cases "GetKeyByInternal sha store k")
       (auto simp: authInterceptor_log_def authInterceptor_def Let_def split: if_splits)
qed

lemma kept_ModifyResponse [simp]:
  "kept_lines (ModifyResponse_log gj p cx path latency tm str res) = []"
  by (auto simp: ModifyResponse_log_def Let_def split: prod.split option.split)

lemma kept_Rewrite [simp]: "kept_lines (Rewrite_log gj sj p rq) = []"
  by (simp add: Rewrite_log_def split: http_body.split option.split)

lemma kept_proxy:
  "kept_lines (proxy_log D X upstream latency tm fl) =
    (case proxy_outcome D upstream now tm fl of
       BadGateway out err \<Rightarrow>
         [(''[ACCESS]'', bad_gateway_line (fl_context fl) (pr_routePath (fl_route fl)) (fault_text X err))]
     | _ \<Rightarrow> [])"
  by (simp add: proxy_log_def proxy_outcome_def handleReverseProxy_log_def handleReverseProxy_branches
      bad_gateway_def split: option.split prod.split sum.split)

section \<open>Counting lines\<close>

definition is_access :: "string \<times> string \<Rightarrow> bool" where
  "is_access line \<longleftrightarrow> fst line = ''[ACCESS]''"

definition is_drop :: "string \<times> string \<Rightarrow> bool" where
  "is_drop line \<longleftrightarrow> fst line = ''[WARN]'' \<and> has_prefix (snd line) ''queue full, dropping''"

definition is_lost :: "string \<times> string \<Rightarrow> bool" where
  "is_lost line \<longleftrightarrow> fst line = ''[ERROR]'' \<and> has_prefix (snd line) ''failed to persist''"

lemmas line_kinds = is_access_def is_drop_def is_lost_def has_prefix_def

lemma countable_kinds: "countable_line is_access" "countable_line is_drop" "countable_line is_lost"
  by (simp_all add: countable_line_def line_kinds)

definition count_lines :: "(string \<times> string \<Rightarrow> bool) \<Rightarrow> log_state \<Rightarrow> nat" where
  "count_lines P l = length (filter P (lg_lines l))"

definition count_calls :: "(string \<times> string \<Rightarrow> bool) \<Rightarrow> log_call list \<Rightarrow> nat" where
  "count_calls P cs = length (filter P (kept_lines cs))"

lemma count_calls_append [simp]: "count_calls P (cs @ cs') = count_calls P cs + count_calls P cs'"
  by (simp add: count_calls_def)

lemma count_logged:
  "countable_line P \<Longrightarrow> lg_ready l \<Longrightarrow>
    count_lines P (logged cs l) = count_lines P l + count_calls P cs"
  by (simp add: count_lines_def count_calls_def logged_count)

text \<open>The calls of the remote operations: no such line.\<close>

lemma kept_handle_AddKey:
  "kept_lines (handle_AddKey_log X sha cfg route realKey al ud rd store) =
    (if map_of (cfg_Routes cfg) route = None then
       [(''[ERROR]'', ''failed to add key: target context route '' @ lt_quote X route @ '' does not exist'')]
     else if trim_space realKey = [] then
       [(''[ERROR]'', ''failed to add key: upstream authorization token payload is empty'')]
     else (case fst (AddKey sha route realKey al ud rd store) of
         Inl err \<Rightarrow> [(''[ERROR]'', ''failed to add key to keystore on route '' @ route @ '': ''
           @ keystore_error_text X err)]
       | Inr record \<Rightarrow> [(''[INFO]'', ''successfully added credentials. uuid='' @ kr_UUID record @ '', alias=''
           @ kr_Alias record @ '', route='' @ kr_Route record @ '', internalKey=''
           @ kr_InternalKey record)]))"
  by (simp add: handle_AddKey_log_def Let_def split: sum.split)

lemma count_add:
  "count_calls is_access (handle_AddKey_log X sha cfg route realKey al ud rd store) = 0"
  "count_calls is_drop (handle_AddKey_log X sha cfg route realKey al ud rd store) = 0"
  "count_calls is_lost (handle_AddKey_log X sha cfg route realKey al ud rd store) = 0"
  unfolding count_calls_def kept_handle_AddKey
  by (simp_all add: line_kinds split: sum.split)

lemma count_delete:
  "count_calls is_access (handle_DeleteKey_log uid found) = 0"
  "count_calls is_drop (handle_DeleteKey_log uid found) = 0"
  "count_calls is_lost (handle_DeleteKey_log uid found) = 0"
  by (simp_all add: count_calls_def handle_DeleteKey_log_def line_kinds)

lemma count_stats:
  "count_calls is_access (GetStats_log X E fault now usage req) = 0"
  "count_calls is_drop (GetStats_log X E fault now usage req) = 0"
  "count_calls is_lost (GetStats_log X E fault now usage req) = 0"
  by (simp_all add: count_calls_def GetStats_log_def line_kinds Let_def
      split: option.split stats_mode.split sum.split)

lemma count_debug:
  "count_calls is_access (ConfigureDebug_log dbg) = 0"
  "count_calls is_drop (ConfigureDebug_log dbg) = 0"
  "count_calls is_lost (ConfigureDebug_log dbg) = 0"
  by (simp_all add: count_calls_def ConfigureDebug_log_def line_kinds split: option.split)

lemma count_refused:
  assumes "authInterceptor sha cfg store env path rq = Inl d"
  shows "count_calls is_access (authInterceptor_log X sha cfg store env path rq) = 1"
    "count_calls is_drop (authInterceptor_log X sha cfg store env path rq) = 0"
    "count_calls is_lost (authInterceptor_log X sha cfg store env path rq) = 0"
  using kept_refused [OF assms, of X] by (auto simp: count_calls_def line_kinds)

lemma count_admitted:
  "authInterceptor sha cfg store env path rq = Inr ok \<Longrightarrow>
    count_calls P (authInterceptor_log X sha cfg store env path rq) = 0"
  by (simp add: count_calls_def kept_admitted)

lemma count_proxy:
  "count_calls is_access (proxy_log D X upstream latency tm fl) =
    (case proxy_outcome D upstream now tm fl of BadGateway out err \<Rightarrow> 1 | _ \<Rightarrow> 0)"
  "count_calls is_drop (proxy_log D X upstream latency tm fl) = 0"
  "count_calls is_lost (proxy_log D X upstream latency tm fl) = 0"
  by (simp_all add: count_calls_def kept_proxy [where now = now] line_kinds split: outcome.split)

lemma count_emit:
  "count_calls is_access (EmitNonBlocking_log rec b) = 0"
  "count_calls is_drop (EmitNonBlocking_log rec b)
    = (if length (b_queue b) < defaultQueueSize then 0 else 1)"
  "count_calls is_lost (EmitNonBlocking_log rec b) = 0"
  by (simp_all add: count_calls_def EmitNonBlocking_log_def line_kinds)

text \<open>A line that says that a record was dropped, or that its write failed, names the record.\<close>

definition drop_line :: "usage_record \<Rightarrow> string \<times> string \<Rightarrow> bool" where
  "drop_line u line \<longleftrightarrow> fst line = ''[WARN]'' \<and> has_prefix (snd line)
     (''queue full, dropping usage record (local_key='' @ r_LocalKey u @ '' route='' @ r_RoutePath u @ '') '')"

definition lost_line :: "usage_record \<Rightarrow> string \<times> string \<Rightarrow> bool" where
  "lost_line u line \<longleftrightarrow> fst line = ''[ERROR]'' \<and> has_prefix (snd line)
     (''failed to persist usage record (local_key='' @ r_LocalKey u @ '' route='' @ r_RoutePath u
       @ '' tokens='' @ show_int (sint (r_TotalTokens u)) @ ''): '')"

definition lines_of :: "(string \<times> string \<Rightarrow> bool) \<Rightarrow> log_call list \<Rightarrow> (string \<times> string) list" where
  "lines_of P cs = filter P (kept_lines cs)"

lemma lines_of_append [simp]: "lines_of P (cs @ cs') = lines_of P cs @ lines_of P cs'"
  by (simp add: lines_of_def)

lemma lines_of_none: "count_calls P cs = 0 \<Longrightarrow> lines_of P cs = []"
  by (simp add: lines_of_def count_calls_def)

lemma lines_logged:
  "countable_line P \<Longrightarrow> lg_ready l \<Longrightarrow>
    filter P (lg_lines (logged cs l)) = filter P (lg_lines l) @ lines_of P cs"
  by (simp add: lines_of_def logged_count)

lemma drop_line_text:
  "drop_line u (''[WARN]'', ''queue full, dropping usage record (local_key='' @ r_LocalKey u @ '' route=''
     @ r_RoutePath u @ '') '' @ rest)"
  by (simp add: drop_line_def has_prefix_iff)

lemma lost_line_text:
  "lost_line u (''[ERROR]'', ''failed to persist usage record (local_key='' @ r_LocalKey u @ '' route=''
     @ r_RoutePath u @ '' tokens='' @ show_int (sint (r_TotalTokens u)) @ ''): '' @ rest)"
  by (simp add: lost_line_def has_prefix_iff)

lemma emit_drop_lines:
  "if length (b_queue b) < defaultQueueSize then lines_of is_drop (EmitNonBlocking_log rec b) = []
   else \<exists>line. lines_of is_drop (EmitNonBlocking_log rec b) = [line] \<and> drop_line rec line"
  using drop_line_text [of rec]
  by (simp add: lines_of_def EmitNonBlocking_log_def is_drop_def has_prefix_def)

lemma count_write:
  "count_calls is_access (writeRecord_log E fault now clock rec db) = 0"
  "count_calls is_drop (writeRecord_log E fault now clock rec db) = 0"
  by (cases rule: executeTripleWrite_cases [of E fault now clock rec db];
      simp add: count_calls_def writeRecord_log_def line_kinds)+

text \<open>
  What became of records that were taken to the database: each is in a new row of \<open>usage_logs\<close>, in
  order, or in a line about a failed write, in order.
\<close>

definition write_trace ::
  "usage_record list \<Rightarrow> log_row list \<Rightarrow> (string \<times> string) list \<Rightarrow> bool" where
  "write_trace us rows losses \<longleftrightarrow>
     (\<exists>written failed. mset us = mset written + mset failed
        \<and> map log_entry rows = map record_entry written \<and> list_all2 lost_line failed losses)"

lemma write_trace_Nil [simp]: "write_trace [] [] []"
  by (simp add: write_trace_def)

lemma write_trace_append:
  assumes "write_trace us rows losses" "write_trace us' rows' losses'"
  shows "write_trace (us @ us') (rows @ rows') (losses @ losses')"
proof -
  obtain w f where 1: "mset us = mset w + mset f" "map log_entry rows = map record_entry w"
      "list_all2 lost_line f losses"
    using assms(1) unfolding write_trace_def by blast
  obtain w' f' where 2: "mset us' = mset w' + mset f'" "map log_entry rows' = map record_entry w'"
      "list_all2 lost_line f' losses'"
    using assms(2) unfolding write_trace_def by blast
  show ?thesis
    unfolding write_trace_def
    by (intro exI [of _ "w @ w'"] exI [of _ "f @ f'"]) (use 1 2 in \<open>simp add: list_all2_appendI\<close>)
qed

lemma write_trace_length:
  assumes "write_trace us rows losses"
  shows "length us = length rows + length losses"
proof -
  obtain w f where w: "mset us = mset w + mset f" "map log_entry rows = map record_entry w"
      "list_all2 lost_line f losses"
    using assms unfolding write_trace_def by blast
  from arg_cong [OF w(1), of size] have "length us = length w + length f" by simp
  then show ?thesis using map_eq_imp_length_eq [OF w(2)] list_all2_lengthD [OF w(3)] by simp
qed

lemma write_lines:
  obtains rows losses where "db_logs (writeRecord E fault now clock rec db) = db_logs db @ rows"
    "lines_of is_lost (writeRecord_log E fault now clock rec db) = losses" "write_trace [rec] rows losses"
proof (cases rule: executeTripleWrite_cases [of E fault now clock rec db])
  case (err e)
  let ?line = "(''[ERROR]'', ''failed to persist usage record (local_key='' @ r_LocalKey rec @ '' route=''
      @ r_RoutePath rec @ '' tokens='' @ show_int (sint (r_TotalTokens rec)) @ ''): '' @ write_error_text e)"
  have "lost_line rec ?line" by (rule lost_line_text)
  then have "write_trace [rec] [] [?line]"
    unfolding write_trace_def by (intro exI [of _ "[]"] exI [of _ "[rec]"]) simp
  with err show ?thesis
    by (intro that [of "[]" "[?line]"]) (simp_all add: writeRecord_def writeRecord_log_def lines_of_def line_kinds)
next
  case ok
  obtain row where row: "db_logs (committed_db E now clock rec db) = db_logs db @ [row]"
      "log_entry row = record_entry rec"
    by (simp add: committed_db_def log_entry_def record_entry_def)
  then have "write_trace [rec] [row] []"
    unfolding write_trace_def by (intro exI [of _ "[rec]"] exI [of _ "[]"]) simp
  with ok row show ?thesis
    by (intro that [of "[row]" "[]"]) (simp_all add: writeRecord_def writeRecord_log_def lines_of_def)
qed

lemma count_background:
  "count_calls is_access (background_log E db ev) = 0"
  "count_calls is_drop (background_log E db ev) = 0"
  by (cases ev; simp add: count_write; simp add: count_calls_def)+

section \<open>The lines of a run\<close>

fun refusals :: "gw_event list \<Rightarrow> nat" where
  "refusals [] = 0"
| "refusals (Refused d # evs) = Suc (refusals evs)"
| "refusals (ev # evs) = refusals evs"

fun failures :: "gw_event list \<Rightarrow> nat" where
  "failures [] = 0"
| "failures (Failed fl # evs) = Suc (failures evs)"
| "failures (ev # evs) = failures evs"

lemma refusals_append [simp]: "refusals (evs @ evs') = refusals evs + refusals evs'"
  by (induction evs rule: refusals.induct) simp_all

lemma failures_append [simp]: "failures (evs @ evs') = failures evs + failures evs'"
  by (induction evs rule: failures.induct) simp_all

lemma audit_step_ready: "audit_step D X a ev a' \<Longrightarrow> lg_ready (au_log a) \<Longrightarrow> lg_ready (au_log a')"
  by (erule audit_stepE) (simp_all add: logged_ready ConfigureDebug_calls flip: logged_def)

lemma audit_step_extends:
  "audit_step D X a ev a' \<Longrightarrow> prefix (lg_lines (au_log a)) (lg_lines (au_log a'))"
  by (erule audit_stepE)
     (simp_all add: ConfigureDebug_calls logged_extends del: logged_simps flip: logged_def)

lemma audit_run_ready: "audit_run D X a evs a' \<Longrightarrow> lg_ready (au_log a) \<Longrightarrow> lg_ready (au_log a')"
  by (induction rule: audit_run.induct) (auto dest: audit_step_ready)

lemma audit_run_extends:
  "audit_run D X a evs a' \<Longrightarrow> prefix (lg_lines (au_log a)) (lg_lines (au_log a'))"
  by (induction rule: audit_run.induct) (auto dest: audit_step_extends intro: prefix_order.trans)

lemma drop_lines_step:
  assumes "audit_step D X a ev a'" "lg_ready (au_log a)"
  shows "\<exists>drops. filter is_drop (lg_lines (au_log a')) = filter is_drop (lg_lines (au_log a)) @ drops
    \<and> list_all2 drop_line (dropped (backend_events (gw_events [ev]))) drops"
  using assms(1)
proof (cases rule: audit_step.cases)
  case (au_billed fl g upstream now tm out res rec bev b l latency)
  have "dropped [bev] = (if length (b_queue (gw_backend g)) < defaultQueueSize then [] else [rec])"
    using au_billed(6,7) by (auto elim!: backend_stepE)
  then show ?thesis
    using au_billed assms(2) lines_logged [OF countable_kinds(2)] emit_drop_lines [of "gw_backend g" rec]
    by (auto simp: lines_of_none [OF count_proxy(2)] simp del: logged_simps split: if_splits)
next
  case (au_background bev g b l)
  have "dropped [bev] = []" using au_background(4) by (cases bev) simp_all
  then show ?thesis
    using au_background assms(2) lines_logged [OF countable_kinds(2)]
    by (simp add: lines_of_none [OF count_background(2)] del: logged_simps)
qed (use assms(2) lines_logged [OF countable_kinds(2)] in
    \<open>simp_all add: lines_of_none count_add count_delete count_admitted count_refused count_proxy count_stats
      count_debug ConfigureDebug_calls del: logged_simps flip: logged_def\<close>)

definition audit_rows :: "audit \<Rightarrow> log_row list" where
  "audit_rows a = db_logs (b_db (gw_backend (au_gateway a)))"

lemma lost_lines_step:
  assumes "audit_step D X a ev a'" "lg_ready (au_log a)"
  shows "\<exists>rows losses. audit_rows a' = audit_rows a @ rows
    \<and> filter is_lost (lg_lines (au_log a')) = filter is_lost (lg_lines (au_log a)) @ losses
    \<and> write_trace (processed (backend_events (gw_events [ev]))) rows losses"
  using assms(1)
proof (cases rule: audit_step.cases)
  case (au_billed fl g upstream now tm out res rec bev b l latency)
  have "b_db b = b_db (gw_backend g)" "processed [bev] = []"
    using au_billed(6,7) by (auto elim!: backend_stepE simp: EmitNonBlocking_def)
  then show ?thesis
    using au_billed assms(2) lines_logged [OF countable_kinds(3)]
    by (simp add: audit_rows_def lines_of_none count_proxy count_emit del: logged_simps)
next
  case (au_background bev g b l)
  have "\<exists>rows. db_logs (b_db b) = db_logs (b_db (gw_backend g)) @ rows
      \<and> write_trace (processed [bev]) rows (lines_of is_lost (background_log (d_engine D) (b_db (gw_backend g)) bev))"
  proof (cases bev)
    case (Write rec fault now clock)
    with au_background(5) have "b_db b = writeRecord (d_engine D) fault now clock rec (b_db (gw_backend g))"
      by (auto elim!: backend_stepE)
    then show ?thesis
      using write_lines [of "d_engine D" fault now clock rec "b_db (gw_backend g)"] Write by (metis background_log.simps(1) processed.simps(1,2))
  qed (use au_background(5) in \<open>auto elim!: backend_stepE simp: EmitNonBlocking_def lines_of_def\<close>)
  then show ?thesis
    using au_background assms(2) lines_logged [OF countable_kinds(3)]
    by (simp add: audit_rows_def del: logged_simps)
qed (use assms(2) lines_logged [OF countable_kinds(3)] in
    \<open>simp_all add: audit_rows_def lines_of_none count_add count_delete count_admitted count_refused count_proxy
      count_stats count_debug ConfigureDebug_calls del: logged_simps flip: logged_def\<close>)

definition registered_flights :: "deployment \<Rightarrow> gateway \<Rightarrow> bool" where
  "registered_flights D g \<longleftrightarrow> (\<forall>fl \<in> set (gw_flights g). fl_route fl \<in> set (d_routes D))"

lemma registered_flights_step:
  "gw_step D g ev g' \<Longrightarrow> registered_flights D g \<Longrightarrow> registered_flights D g'"
  by (erule gw_stepE)
     (auto simp: registered_flights_def dest: set_remove1_subset [THEN subsetD])

lemma audit_step_registered:
  "audit_step D X a ev a' \<Longrightarrow> registered_flights D (au_gateway a) \<Longrightarrow>
    registered_flights D (au_gateway a')"
  using audit_step_gateway registered_flights_step by metis

lemma deployed_not_panicked:
  assumes "deployed D" "fl_route fl \<in> set (d_routes D)"
  shows "proxy_outcome D upstream now tm fl \<noteq> Panicked"
proof -
  from assms(1) have d: "config_ok (d_cfg D)" "routes_ok (d_cfg D)"
      "setupRoutes (d_cfg D) = Inr (d_routes D)"
    by (simp_all add: deployed_def)
  obtain p where "map_of (cfg_Providers (d_cfg D)) (rc_Provider (pr_routeCfg (fl_route fl))) = Some p"
      "provider_ok p"
    by (rule registered_provider [OF d(3) assms(2) d(2,1)])
  then show ?thesis
    using handleReverseProxy_not_panicked by (auto simp: proxy_outcome_def provider_ok_def)
qed

lemma access_lines_step:
  assumes "audit_step D X a ev a'" "lg_ready (au_log a)" "deployed D"
    and "registered_flights D (au_gateway a)"
  shows "count_lines is_access (au_log a') = count_lines is_access (au_log a)
      + refusals (gw_events [ev]) + failures (gw_events [ev])"
  using assms(1)
proof (cases rule: audit_step.cases)
  case (au_silent fl g upstream now tm out res l latency)
  then show ?thesis
    using assms(2) count_logged [OF countable_kinds(1)]
    by (simp add: count_proxy(1) [where now = now])
next
  case (au_billed fl g upstream now tm out res rec bev b l latency)
  then show ?thesis
    using assms(2) count_logged [OF countable_kinds(1)]
    by (simp add: count_proxy(1) [where now = now] count_emit del: logged_simps)
next
  case (au_failed fl g upstream now tm l latency)
  have "proxy_outcome D upstream now tm fl \<noteq> Panicked"
    using deployed_not_panicked [OF assms(3)] assms(4) au_failed(1,4)
    by (simp add: registered_flights_def)
  then have "count_calls is_access (proxy_log D X upstream latency tm fl) = 1"
    using au_failed(5) by (auto simp: count_proxy(1) [where now = now])
  then show ?thesis
    using au_failed assms(2) count_logged [OF countable_kinds(1)]
    by (simp del: logged_simps)
qed (use assms(2) count_logged [OF countable_kinds(1)] in
    \<open>simp_all add: count_add count_delete count_admitted count_refused count_background count_stats
      count_debug ConfigureDebug_calls del: logged_simps flip: logged_def\<close>)

lemma drop_lines_run:
  "audit_run D X a evs a' \<Longrightarrow> lg_ready (au_log a) \<Longrightarrow>
    \<exists>drops. filter is_drop (lg_lines (au_log a')) = filter is_drop (lg_lines (au_log a)) @ drops
      \<and> list_all2 drop_line (dropped (backend_events (gw_events evs))) drops"
proof (induction rule: audit_run.induct)
  case (au_snoc evs a' ev a'')
  obtain drops where 1: "filter is_drop (lg_lines (au_log a')) = filter is_drop (lg_lines (au_log a)) @ drops"
      "list_all2 drop_line (dropped (backend_events (gw_events evs))) drops"
    using au_snoc.IH [OF au_snoc.prems] by blast
  obtain drops' where "filter is_drop (lg_lines (au_log a'')) = filter is_drop (lg_lines (au_log a')) @ drops'"
      "list_all2 drop_line (dropped (backend_events (gw_events [ev]))) drops'"
    using drop_lines_step [OF au_snoc.hyps(2) audit_run_ready [OF au_snoc.hyps(1) au_snoc.prems]] by blast
  with 1 show ?case by (intro exI [of _ "drops @ drops'"]) (simp add: list_all2_appendI)
qed simp

lemma lost_lines_run:
  "audit_run D X a evs a' \<Longrightarrow> lg_ready (au_log a) \<Longrightarrow>
    \<exists>rows losses. audit_rows a' = audit_rows a @ rows
      \<and> filter is_lost (lg_lines (au_log a')) = filter is_lost (lg_lines (au_log a)) @ losses
      \<and> write_trace (processed (backend_events (gw_events evs))) rows losses"
proof (induction rule: audit_run.induct)
  case (au_snoc evs a' ev a'')
  obtain rows losses where 1: "audit_rows a' = audit_rows a @ rows"
      "filter is_lost (lg_lines (au_log a')) = filter is_lost (lg_lines (au_log a)) @ losses"
      "write_trace (processed (backend_events (gw_events evs))) rows losses"
    using au_snoc.IH [OF au_snoc.prems] by blast
  obtain rows' losses' where "audit_rows a'' = audit_rows a' @ rows'"
      "filter is_lost (lg_lines (au_log a'')) = filter is_lost (lg_lines (au_log a')) @ losses'"
      "write_trace (processed (backend_events (gw_events [ev]))) rows' losses'"
    using lost_lines_step [OF au_snoc.hyps(2) audit_run_ready [OF au_snoc.hyps(1) au_snoc.prems]] by blast
  with 1 write_trace_append [OF 1(3)] show ?case
    by (intro exI [of _ "rows @ rows'"] exI [of _ "losses @ losses'"]) simp
qed simp

lemma audit_run_registered:
  "audit_run D X a evs a' \<Longrightarrow> registered_flights D (au_gateway a) \<Longrightarrow>
    registered_flights D (au_gateway a')"
  by (induction rule: audit_run.induct) (auto dest: audit_step_registered)

lemma access_lines_run:
  "audit_run D X a evs a' \<Longrightarrow> lg_ready (au_log a) \<Longrightarrow> deployed D \<Longrightarrow>
    registered_flights D (au_gateway a) \<Longrightarrow>
    count_lines is_access (au_log a')
      = count_lines is_access (au_log a) + refusals (gw_events evs) + failures (gw_events evs)"
proof (induction rule: audit_run.induct)
  case (au_snoc evs a' ev a'')
  show ?case
    using access_lines_step [OF au_snoc.hyps(2) audit_run_ready [OF au_snoc.hyps(1) au_snoc.prems(1)]
        au_snoc.prems(2) audit_run_registered [OF au_snoc.hyps(1) au_snoc.prems(3)]]
      au_snoc.IH [OF au_snoc.prems] by simp
qed simp

lemma gw_run_audited:
  "gw_run D g evs g' \<Longrightarrow> \<exists>l'. audit_run D X \<lparr>au_gateway = g, au_log = l\<rparr> (map Step evs)
    \<lparr>au_gateway = g', au_log = l'\<rparr>"
proof (induction rule: gw_run.induct)
  case (gw_snoc evs g' ev g'')
  then obtain l1 where run: "audit_run D X \<lparr>au_gateway = g, au_log = l\<rparr> (map Step evs)
      \<lparr>au_gateway = g', au_log = l1\<rparr>" by blast
  obtain l2 where "audit_step D X \<lparr>au_gateway = g', au_log = l1\<rparr> (Step ev)
      \<lparr>au_gateway = g'', au_log = l2\<rparr>"
    using gw_step_audited [OF gw_snoc.hyps(2)] by blast
  from au_snoc [OF run this] show ?case by auto
qed (auto intro: au_nil)

lemma gw_events_Step [simp]: "gw_events (map Step evs) = evs"
  by (induction evs) simp_all

section \<open>Properties\<close>

text \<open>Lines of a kind written since the logger was in the state \<open>l\<close>.\<close>

definition lines_since :: "(string \<times> string \<Rightarrow> bool) \<Rightarrow> log_state \<Rightarrow> audit \<Rightarrow> nat" where
  "lines_since P l a = count_lines P (au_log a) - count_lines P l"

definition ready_log :: log_state where
  "ready_log = snd (Init None False fresh_log)"

definition sample_texts :: log_texts where
  "sample_texts = \<lparr>lt_quote = (\<lambda>s. dquote @ s @ dquote), lt_query_error = (\<lambda>e. []),
     lt_stats_error = (\<lambda>e. [])\<rparr>"

lemma ready_log_ready: "lg_ready ready_log"
  by (simp add: ready_log_def Init_def fresh_log_def)

lemma sample_audited:
  "\<exists>l'. audit_run sample_deployment sample_texts (audit_start empty_db ready_log)
     (map Step sample_gateway_run)
     \<lparr>au_gateway = sample_gateway\<lparr>gw_backend := EmitNonBlocking sample_emitted
        (gw_backend sample_gateway)\<rparr>, au_log = l'\<rparr>"
  using gw_run_audited [OF sample_gateway_ran] by (simp add: audit_start_def)

text \<open>
  C13. No usage record is lost without a trace, in every interleaving, with debugging on or off. Each
  record that was ever handed to the backend was dropped at a full queue, was taken to the database, or is still
  queued or being written. For the dropped ones the log has gained exactly one warning each, in order,
  that names key and route; those taken to the database are each in a new row of \<open>usage_logs\<close> or in
  an error, with key, route and tokens, that the write failed, and there are no other such rows or
  lines. In numbers, with the requests: the admitted ones are in flight, or ended without a record,
  or have a new row, a warning or an error, or their record is still pending. This is about records only: a
  request that ended without one (C15) need not leave any line, such as a tunnel or an answer whose
  body could not be read.
\<close>

theorem losses_are_logged:
  assumes "audit_run D X (audit_start db l) evs a" "lg_ready l"
    and "b = gw_backend (au_gateway a)" "gevs = gw_events evs"
  shows "\<exists>drops rows losses.
    mset (offered (backend_events gevs))
      = mset (dropped (backend_events gevs)) + mset (processed (backend_events gevs)) + mset (pending b)
    \<and> filter is_drop (lg_lines (au_log a)) = filter is_drop (lg_lines l) @ drops
    \<and> list_all2 drop_line (dropped (backend_events gevs)) drops
    \<and> db_logs (b_db b) = db_logs db @ rows
    \<and> filter is_lost (lg_lines (au_log a)) = filter is_lost (lg_lines l) @ losses
    \<and> write_trace (processed (backend_events gevs)) rows losses
    \<and> length (admitted gevs) = length (gw_flights (au_gateway a)) + length (unbilled gevs)
        + length rows + length drops + length losses + length (pending b)"
proof -
  have start: "au_gateway (audit_start db l) = gw_start db" "au_log (audit_start db l) = l"
    by (simp_all add: audit_start_def)
  have ready: "lg_ready (au_log (audit_start db l))" using assms(2) start by simp
  obtain drops where drops: "filter is_drop (lg_lines (au_log a)) = filter is_drop (lg_lines l) @ drops"
      "list_all2 drop_line (dropped (backend_events gevs)) drops"
    using drop_lines_run [OF assms(1) ready] start assms(4) by auto
  obtain rows losses where rows: "db_logs (b_db b) = db_logs db @ rows"
      "filter is_lost (lg_lines (au_log a)) = filter is_lost (lg_lines l) @ losses"
      "write_trace (processed (backend_events gevs)) rows losses"
    using lost_lines_run [OF assms(1) ready] start assms(3,4)
    by (auto simp: audit_rows_def gw_start_def NewUsageBackend_def)
  have run: "gw_run D (gw_start db) gevs (au_gateway a)"
    using audit_run_gateway [OF assms(1)] start assms(4) by simp
  have "backend_run (d_engine D) (NewUsageBackend db) (backend_events gevs) b"
    using gw_run_backend [OF run] assms(3) by (simp add: gw_start_def)
  from run_from_new(1,2) [OF this]
  have split: "mset (offered (backend_events gevs))
      = mset (dropped (backend_events gevs)) + mset (processed (backend_events gevs)) + mset (pending b)"
    by (simp add: mset_offered pending_def)
  have "length (admitted gevs) = length (gw_flights (au_gateway a)) + length (unbilled gevs)
      + length (offered (backend_events gevs))"
    using arg_cong [OF gw_run_flights_mset [OF run], of size] list_all2_lengthD [OF gw_run_billed [OF run]]
    by (simp add: gw_start_def)
  moreover have "length (offered (backend_events gevs)) = length drops + (length rows + length losses) + length (pending b)"
    using arg_cong [OF split, of size] list_all2_lengthD [OF drops(2)] write_trace_length [OF rows(3)] by simp
  ultimately show ?thesis
    using split drops rows by (intro exI [of _ drops] exI [of _ rows] exI [of _ losses]) simp
qed

text \<open>For the instance: the write of the only record fails.\<close>

definition failed_write_run :: "gw_event list" where
  "failed_write_run = sample_gateway_run @ map Background
     [StartWorker, Receive sample_emitted, Write sample_emitted (\<lambda>st. Some ''disk'') sample_time ''now'']"

lemma background_at:
  "own_event ev \<Longrightarrow> backend_step (d_engine D) b ev b' \<Longrightarrow>
    gw_step D (g\<lparr>gw_backend := b\<rparr>) (Background ev) (g\<lparr>gw_backend := b'\<rparr>)"
  using gw_background [of ev D "g\<lparr>gw_backend := b\<rparr>" b'] by simp

lemma failed_write_ran:
  "\<exists>b. gw_run sample_deployment (gw_start empty_db) failed_write_run (sample_gateway\<lparr>gw_backend := b\<rparr>)
    \<and> b_db b = empty_db"
proof -
  let ?E = "d_engine sample_deployment" and ?fault = "\<lambda>st :: write_stage. Some ''disk''"
  let ?b = "EmitNonBlocking sample_emitted (gw_backend sample_gateway)"
  let ?b1 = "?b\<lparr>b_worker := Selecting\<rparr>" and ?b2 = "?b\<lparr>b_queue := [], b_worker := Writing sample_emitted\<rparr>"
  let ?b3 = "?b2\<lparr>b_db := empty_db, b_worker := Selecting\<rparr>"
  have b: "b_worker ?b = NotStarted" "b_queue ?b = [sample_emitted]" "b_db ?b = empty_db"
    by (simp_all add: sample_gateway_def gw_start_def NewUsageBackend_def EmitNonBlocking_def defaultQueueSize_def)
  have same: "writeRecord ?E ?fault sample_time ''now'' sample_emitted empty_db = empty_db"
    by (cases rule: executeTripleWrite_cases [of ?E ?fault sample_time "''now''" sample_emitted empty_db])
       (simp_all add: writeRecord_def)
  have 1: "backend_step ?E ?b StartWorker ?b1" by (rule bs_start [OF b(1)])
  have 2: "backend_step ?E ?b1 (Receive sample_emitted) ?b2"
    using bs_receive [of ?b1 sample_emitted "[]" ?E] b(2) by simp
  have 3: "backend_step ?E ?b2 (Write sample_emitted ?fault sample_time ''now'') ?b3"
    using bs_write [of ?b2 sample_emitted ?E ?fault sample_time "''now''"] b(3) same by simp
  have own: "own_event StartWorker" "own_event (Receive sample_emitted)"
      "own_event (Write sample_emitted ?fault sample_time ''now'')"
    by simp_all
  have "gw_run sample_deployment (gw_start empty_db) failed_write_run (sample_gateway\<lparr>gw_backend := ?b3\<rparr>)"
    using gw_snoc [OF gw_snoc [OF gw_snoc [OF sample_gateway_ran background_at [OF own(1) 1]]
          background_at [OF own(2) 2]] background_at [OF own(3) 3]]
    by (simp add: failed_write_run_def)
  then show ?thesis by (intro exI [of _ ?b3]) simp
qed

lemma losses_are_logged_witness:
  "\<exists>a line. audit_run sample_deployment sample_texts (audit_start empty_db ready_log)
      (map Step failed_write_run) a
    \<and> filter is_lost (lg_lines (au_log a)) = filter is_lost (lg_lines ready_log) @ [line]
    \<and> lost_line sample_emitted line"
proof -
  obtain b l' where b: "b_db b = empty_db" and run: "audit_run sample_deployment sample_texts
      (audit_start empty_db ready_log) (map Step failed_write_run) \<lparr>au_gateway = sample_gateway\<lparr>gw_backend := b\<rparr>, au_log = l'\<rparr>"
    using failed_write_ran gw_run_audited unfolding audit_start_def by metis
  obtain rows losses where "rows = []" and losses: "filter is_lost (lg_lines l') = filter is_lost (lg_lines ready_log) @ losses"
      "write_trace [sample_emitted] rows losses"
    using losses_are_logged [OF run ready_log_ready refl refl] b
    by (auto simp: failed_write_run_def sample_gateway_run_def sample_admission_def empty_db_def)
  then obtain w f where "mset [sample_emitted] = mset w + mset f" "w = []" "list_all2 lost_line f losses"
    unfolding write_trace_def by auto
  then have "list_all2 lost_line [sample_emitted] losses" by (metis add_0 mset.simps(1) mset_single_iff_right)
  then obtain line where "losses = [line]" "lost_line sample_emitted line" by (auto simp: list_all2_Cons1)
  with run losses(1) show ?thesis
    by (intro exI [of _ "\<lparr>au_gateway = sample_gateway\<lparr>gw_backend := b\<rparr>, au_log = l'\<rparr>"] exI [of _ line])
       simp
qed

text \<open>
  C23. Refusals are on record: the access log, with debugging off, has exactly one line for each
  refused request and for each failed connection to a vendor, and nothing else. A request that was
  served leaves no access line at all, and neither does a vendor's error status.
\<close>

theorem refusals_are_logged:
  assumes "audit_run D X (audit_start db l) evs a" "lg_ready l" "deployed D"
  shows "lines_since is_access l a = refusals (gw_events evs) + failures (gw_events evs)"
  using access_lines_run [OF assms(1) _ assms(3)] assms(2)
  by (simp add: audit_start_def lines_since_def registered_flights_def gw_start_def)

lemma refusals_are_logged_witness:
  "\<exists>a. audit_run sample_deployment sample_texts (audit_start empty_db ready_log)
      (map Step sample_gateway_run) a \<and> lines_since is_access ready_log a = 0"
proof -
  obtain l' where run: "audit_run sample_deployment sample_texts (audit_start empty_db ready_log)
     (map Step sample_gateway_run)
     \<lparr>au_gateway = sample_gateway\<lparr>gw_backend := EmitNonBlocking sample_emitted
        (gw_backend sample_gateway)\<rparr>, au_log = l'\<rparr>"
    using sample_audited by blast
  from refusals_are_logged [OF run ready_log_ready sample_deployed] run
  show ?thesis by (auto simp: sample_gateway_run_def sample_admission_def)
qed

text \<open>
  C31. Issued keys stand in the log: whatever happens, the log keeps, for every key that \<open>AddKey\<close>
  issued, a line of level INFO that ends with this key in clear. Debugging need not be on, and
  deleting the key does not remove the line.
\<close>

theorem issued_keys_in_log:
  assumes "audit_run D X a evs a'" "lg_ready (au_log a)" "Step (KeyAdded (Inr k)) \<in> set evs"
  shows "\<exists>m. (''[INFO]'', m @ '', internalKey='' @ k) \<in> set (lg_lines (au_log a'))"
  using assms
proof (induction rule: audit_run.induct)
  case (au_snoc evs a' ev a'')
  have keep: "set (lg_lines (au_log a')) \<subseteq> set (lg_lines (au_log a''))"
    using audit_step_extends [OF au_snoc.hyps(2)] by (rule set_mono_prefix)
  show ?case
  proof (cases "Step (KeyAdded (Inr k)) \<in> set evs")
    case True
    then show ?thesis using au_snoc.IH [OF au_snoc.prems(1)] keep by blast
  next
    case False
    then have ev: "ev = Step (KeyAdded (Inr k))" using au_snoc.prems(2) by simp
    have ready: "lg_ready (au_log a')"
      using audit_run_ready [OF au_snoc.hyps(1) au_snoc.prems(1)] .
    from au_snoc.hyps(2) ev show ?thesis
    proof (cases rule: audit_step.cases)
      case (au_add route realKey al ud rd g res store l)
      then have res: "handle_AddKey (d_sha D) (d_cfg D) route realKey al ud rd (gw_store g) = (Inr k, store)"
        using ev by simp
      then obtain r where r: "fst (AddKey (d_sha D) route realKey al ud rd (gw_store g)) = Inr r"
          "kr_InternalKey r = k" "map_of (cfg_Routes (d_cfg D)) route \<noteq> None" "trim_space realKey \<noteq> []"
        by (auto simp: handle_AddKey_def split: if_splits prod.splits sum.splits)
      define m where "m = ''successfully added credentials. uuid='' @ kr_UUID r @ '', alias=''
        @ kr_Alias r @ '', route='' @ kr_Route r"
      define line where "line = (''[INFO]'', m @ '', internalKey='' @ k)"
      have "countable_line ((=) line)" by (simp add: countable_line_def line_def m_def)
      note count = logged_count [OF this]
      have "kept_lines (handle_AddKey_log X (d_sha D) (d_cfg D) route realKey al ud rd (gw_store g)) = [line]"
        using r by (simp add: kept_handle_AddKey line_def m_def)
      with count ready au_add(1) have "line \<in> set (filter ((=) line) (lg_lines (au_log a'')))"
        unfolding au_add(3) by simp
      then have "line \<in> set (lg_lines (au_log a''))" by simp
      then show ?thesis unfolding line_def by (rule exI [of _ m])
    qed simp_all
  qed
qed simp

lemma sample_trail:
  "\<exists>l'. audit_run sample_deployment sample_texts (audit_start empty_db ready_log)
     [Step (KeyAdded (Inr (internal_key_of ''xy'')))] \<lparr>au_gateway = sample_gateway, au_log = l'\<rparr>"
  using gw_run_audited [OF gw_snoc [OF gw_nil sample_added]] by (simp add: audit_start_def)

lemma issued_keys_in_log_witness:
  "\<exists>a m. audit_run sample_deployment sample_texts (audit_start empty_db ready_log)
      [Step (KeyAdded (Inr (internal_key_of ''xy'')))] a
    \<and> (''[INFO]'', m @ '', internalKey='' @ internal_key_of ''xy'') \<in> set (lg_lines (au_log a))"
proof -
  obtain l' where run: "audit_run sample_deployment sample_texts (audit_start empty_db ready_log)
     [Step (KeyAdded (Inr (internal_key_of ''xy'')))] \<lparr>au_gateway = sample_gateway, au_log = l'\<rparr>"
    using sample_trail by blast
  have ready: "lg_ready (au_log (audit_start empty_db ready_log))"
    by (simp add: audit_start_def ready_log_ready)
  have "\<exists>m. (''[INFO]'', m @ '', internalKey='' @ internal_key_of ''xy'')
      \<in> set (lg_lines (au_log \<lparr>au_gateway = sample_gateway, au_log = l'\<rparr>))"
    by (rule issued_keys_in_log [OF run ready]) simp
  with run show ?thesis by blast
qed

lemma access_line_path: "\<exists>u v. access_line clientIP who startTime path status message = u @ path @ v"
  by (intro exI [of _ "clientIP @ '' - '' @ who @ '' ['' @ format_access startTime @ ''] '' @ dquote
        @ ''POST ''"] exI [of _ "'' HTTP/1.1'' @ dquote @ '' '' @ show_int (int status) @ '' - ''
        @ dquote @ ''-'' @ dquote @ '' '' @ dquote @ message @ dquote"])
     (simp add: access_line_def)

text \<open>
  C32. The access log can be forged: a client without any key can have any text written to the log on a
  line of its own. The decoded path of a refused request is logged as it is, so a line feed in
  it (sent as \<open>%0A\<close>) ends the line.
\<close>

theorem access_log_forged:
  assumes "lg_ready l" "r \<in> set (d_routes D)"
    and "presented_key (provider_of (d_cfg D) (pr_routePath r)) (rq_Header (rq :: request)) = Inl d"
    and "rq_any rq = pre @ LF # line @ LF # post"
  shows "\<exists>l' u v. audit_step D X \<lparr>au_gateway = g, au_log = l\<rparr> (Step (Refused d))
      \<lparr>au_gateway = g, au_log = l'\<rparr>
    \<and> lg_lines l' = lg_lines l @ [(''[ACCESS]'', u @ LF # line @ LF # v)]"
proof -
  have refused: "authInterceptor (d_sha D) (d_cfg D) (gw_store g) (quota_env_of D fault now g)
      (pr_routePath r) rq = Inl d" for fault now
    by (simp add: authInterceptor_def assms(3))
  have log: "authInterceptor_log X (d_sha D) (d_cfg D) (gw_store g) (quota_env_of D fault now g)
      (pr_routePath r) rq = [Access (denied_line ''-'' (pr_routePath r) rq d)]" for fault now
    by (simp add: authInterceptor_log_def assms(3))
  obtain u v where "denied_line ''-'' (pr_routePath r) rq d = u @ request_path (pr_routePath r) rq @ v"
    unfolding denied_line_def using access_line_path by blast
  then have "denied_line ''-'' (pr_routePath r) rq d
      = (u @ pr_routePath r @ pre) @ LF # line @ LF # (post @ v)"
    by (simp add: request_path_def assms(4))
  moreover have "lg_lines (logged [Access m] l) = lg_lines l @ [(''[ACCESS]'', m)]" for m
    using assms(1) by (simp add: Accessf_def log_line_def)
  ultimately have lines: "lg_lines (logged [Access (denied_line ''-'' (pr_routePath r) rq d)] l)
      = lg_lines l @ [(''[ACCESS]'', (u @ pr_routePath r @ pre) @ LF # line @ LF # (post @ v))]"
    by simp
  show ?thesis
    by (rule exI, rule exI, rule exI, rule conjI,
        rule au_refuse [OF assms(2) refused [of "\<lambda>p. None" zero_time], of X l])
       (simp only: log lines)
qed

lemma access_log_forged_witness:
  "\<exists>l' u v. audit_step sample_deployment sample_texts
      \<lparr>au_gateway = sample_gateway, au_log = ready_log\<rparr> (Step (Refused MissingBearer))
      \<lparr>au_gateway = sample_gateway, au_log = l'\<rparr>
    \<and> lg_lines l' = lg_lines ready_log @ [(''[ACCESS]'', u @ LF # ''[INFO] all is well'' @ LF # v)]"
proof -
  have fields: "string_fields [] = []" by code_simp
  let ?rq = "sample_request\<lparr>rq_Header := [], rq_any := ''/'' @ LF # ''[INFO] all is well'' @ LF # []\<rparr>"
  have "presented_key (provider_of (d_cfg sample_deployment) (pr_routePath sample_route)) (rq_Header ?rq)
      = Inl MissingBearer"
    by (simp add: sample_deployment_def sample_path sample_provider_of presented_key_def Let_def
        auth_header_key_def sample_provider_def header_get_def header_values_def fields)
  moreover have "sample_route \<in> set (d_routes sample_deployment)" by (simp add: sample_deployment_def)
  ultimately show ?thesis
    using access_log_forged [OF ready_log_ready, of sample_route sample_deployment ?rq MissingBearer
        "''/''" "''[INFO] all is well''" "[]" sample_texts sample_gateway]
    by simp
qed

end
