(* ===== verification/Console.thy ===== *)
theory Console
  imports Cli AuditTrail
begin

text \<open>
  The command line client against the running gateway. A remote call is a step of the gateway with its
  log (\<open>audit_step\<close>), and the network may lose the request or the reply. One call of the client makes
  at most one such step, so what is shown for the runs of the gateway holds for a gateway that is
  administered by the client.
\<close>

section \<open>Remote calls over a network\<close>

datatype delivery = Delivered | RequestLost string | ReplyLost string

definition remote :: "delivery \<Rightarrow> ('s \<Rightarrow> (string + 'a) \<times> 's) \<Rightarrow> 's \<Rightarrow> (string + 'a) \<times> 's" where
  "remote d call s =
     (case d of
        Delivered \<Rightarrow> call s
      | RequestLost err \<Rightarrow> (Inl err, s)
      | ReplyLost err \<Rightarrow> (Inl err, snd (call s)))"

lemma remote_state: "snd (remote d call s) = (case d of RequestLost err \<Rightarrow> s | _ \<Rightarrow> snd (call s))"
  by (simp add: remote_def split: delivery.split)

lemma remote_ok: "fst (remote d call s) = Inr x \<Longrightarrow> d = Delivered \<and> call s = (Inr x, snd (remote d call s))"
  by (auto simp: remote_def prod_eq_iff split: delivery.splits)

text \<open>What a remote call meets on the server, and on its way.\<close>

record rpc_env =
  re_uuid :: "string + string"
  re_rand :: "string + string"
  re_fault :: stats_fault
  re_now :: go_time
  re_text :: "admin_error \<Rightarrow> string"
  re_delivery :: delivery

definition serve_AddKey ::
  "deployment \<Rightarrow> log_texts \<Rightarrow> rpc_env \<Rightarrow> string \<Rightarrow> string \<Rightarrow> string \<Rightarrow> audit \<Rightarrow> (string + string) \<times> audit" where
  "serve_AddKey D X e route realKey al a =
     (let store = gw_store (au_gateway a);
          (r, store') = handle_AddKey (d_sha D) (d_cfg D) route realKey al (re_uuid e) (re_rand e) store
      in (as_rpc (re_text e) r,
          \<lparr>au_gateway = (au_gateway a)\<lparr>gw_store := store'\<rparr>,
           au_log = logged (handle_AddKey_log X (d_sha D) (d_cfg D) route realKey al (re_uuid e) (re_rand e)
             store) (au_log a)\<rparr>))"

definition serve_DeleteKey :: "string \<Rightarrow> audit \<Rightarrow> (string + bool) \<times> audit" where
  "serve_DeleteKey uid a =
     (let (found, store) = handle_DeleteKey uid (gw_store (au_gateway a))
      in (Inr found,
          \<lparr>au_gateway = (au_gateway a)\<lparr>gw_store := store\<rparr>,
           au_log = logged (handle_DeleteKey_log uid found) (au_log a)\<rparr>))"

definition serve_GetStats ::
  "deployment \<Rightarrow> log_texts \<Rightarrow> rpc_env \<Rightarrow> stats_request \<Rightarrow> audit \<Rightarrow> (string + stats_response) \<times> audit" where
  "serve_GetStats D X e req a =
     (let db = Some (b_db (gw_backend (au_gateway a)))
      in (as_rpc (re_text e) (GetStats (d_engine D) (re_fault e) (re_now e) db (Some req)),
          a\<lparr>au_log := logged (GetStats_log X (d_engine D) (re_fault e) (re_now e) db (Some req)) (au_log a)\<rparr>))"

definition serve_ConfigureDebug :: "rpc_env \<Rightarrow> bool \<Rightarrow> audit \<Rightarrow> (string + bool) \<times> audit" where
  "serve_ConfigureDebug e enable a =
     (case ConfigureDebug (Some enable) (au_log a) of
        (r, l) \<Rightarrow> (as_rpc (re_text e) r, a\<lparr>au_log := l\<rparr>))"

definition running_client :: "deployment \<Rightarrow> log_texts \<Rightarrow> rpc_env \<Rightarrow> audit admin_client" where
  "running_client D X e =
     (let d = re_delivery e in
      \<lparr>cl_ListRoutes = remote d (\<lambda>a. (Inr (ListRoutes (d_cfg D)), a)),
       cl_ListQuotas = remote d (\<lambda>a. (Inr (ListQuotas (d_cfg D)), a)),
       cl_ListKeys = remote d (\<lambda>a. (Inr (handle_ListKeys (gw_store (au_gateway a))), a)),
       cl_AddKey = (\<lambda>route realKey al. remote d (serve_AddKey D X e route realKey al)),
       cl_DeleteKey = (\<lambda>uid. remote d (serve_DeleteKey uid)),
       cl_GetStats = (\<lambda>req. remote d (serve_GetStats D X e req)),
       cl_ConfigureDebug = (\<lambda>enable. remote d (serve_ConfigureDebug e enable))\<rparr>)"

section \<open>One call, one step\<close>

text \<open>
  The contract of a control plane whose calls are steps: each remote call makes at most one, adding a
  key under a condition on the draws.
\<close>

locale stepwise_service =
  fixes client :: "'s admin_client" and ready :: "'s \<Rightarrow> bool" and step :: "'s \<Rightarrow> 's \<Rightarrow> bool"
  assumes keep: "step s s"
    and routes_step: "step s (snd (cl_ListRoutes client s))"
    and quotas_step: "step s (snd (cl_ListQuotas client s))"
    and keys_step: "step s (snd (cl_ListKeys client s))"
    and add_step: "ready s \<Longrightarrow> step s (snd (cl_AddKey client route realKey al s))"
    and delete_step: "step s (snd (cl_DeleteKey client uid s))"
    and stats_step: "step s (snd (cl_GetStats client req s))"
    and debug_step: "step s (snd (cl_ConfigureDebug client enable s))"
begin

lemma stats_command_step: "step s (snd (handleStatsCommand now client args s))"
proof (cases "parseStatsOptions args")
  case (Inr opts)
  have "snd (handleStatsCommand now client args s) = snd (cl_GetStats client (stats_request_of now opts) s)"
    by (simp add: handleStatsCommand_def Inr Let_def split: prod.split sum.split stats_mode.split)
  then show ?thesis by (simp add: stats_step)
qed (simp add: handleStatsCommand_def keep)

lemma command_step:
  assumes "ready s"
  shows "step s (snd (run_command env client c s))"
proof (cases c)
  case (StatsCmd args)
  have "snd (run_command env client c s) = snd (handleStatsCommand (ci_now env) client args s)"
    by (simp add: run_command_def StatsCmd split: prod.split sum.split)
  then show ?thesis by (simp add: stats_command_step)
qed (simp_all add: run_command_def handleRouteList_def handleQuotaList_def handleKeyList_def
    handleKeyAdd_def handleKeyDel_def handleDebugAction_def answered_state keep routes_step quotas_step
    keys_step add_step [OF assms] delete_step debug_step split: sum.split)

lemma main_step: "ready s \<Longrightarrow> step s (snd (cli_main env client args s))"
  by (auto simp: cli_main_def keep command_step split: sum.split option.split prod.split)

end

text \<open>The events of the administrator.\<close>

fun admin_event :: "audit_event \<Rightarrow> bool" where
  "admin_event (Step (KeyAdded res)) = True"
| "admin_event (Step (KeyDeleted uid found)) = True"
| "admin_event (Step ev) = False"
| "admin_event StatsAsked = True"
| "admin_event (DebugConfigured req) = True"

definition one_step :: "deployment \<Rightarrow> log_texts \<Rightarrow> audit \<Rightarrow> audit \<Rightarrow> bool" where
  "one_step D X a a' \<longleftrightarrow> a' = a \<or> (\<exists>ev. admin_event ev \<and> audit_step D X a ev a')"

definition fresh_draws :: "deployment \<Rightarrow> rpc_env \<Rightarrow> audit \<Rightarrow> bool" where
  "fresh_draws D e a \<longleftrightarrow>
     (\<forall>uid bytes. re_uuid e = Inr uid \<longrightarrow> re_rand e = Inr bytes \<longrightarrow>
        fresh_for (d_sha D) uid bytes (gw_store (au_gateway a)))"

lemma serve_AddKey_step:
  assumes "fresh_draws D e a"
  shows "\<exists>res. audit_step D X a (Step (KeyAdded res)) (snd (serve_AddKey D X e route realKey al a))
    \<and> fst (serve_AddKey D X e route realKey al a) = as_rpc (re_text e) res"
proof (cases a)
  case (fields g l)
  obtain res store where h: "handle_AddKey (d_sha D) (d_cfg D) route realKey al (re_uuid e) (re_rand e)
      (gw_store g) = (res, store)" by fastforce
  from au_add [OF h, of X l] assms show ?thesis
    by (intro exI [of _ res]) (simp add: fields serve_AddKey_def h fresh_draws_def)
qed

lemma serve_DeleteKey_step:
  "\<exists>found. audit_step D X a (Step (KeyDeleted uid found)) (snd (serve_DeleteKey uid a))
    \<and> fst (serve_DeleteKey uid a) = Inr found"
proof (cases a)
  case (fields g l)
  obtain found store where h: "handle_DeleteKey uid (gw_store g) = (found, store)" by fastforce
  from au_delete [OF h, of D X l] show ?thesis
    by (intro exI [of _ found]) (simp add: fields serve_DeleteKey_def h)
qed

lemma serve_GetStats_step: "audit_step D X a StatsAsked (snd (serve_GetStats D X e req a))"
  using au_stats [of D X "au_gateway a" "au_log a"] by (cases a) (simp add: serve_GetStats_def Let_def)

lemma serve_ConfigureDebug_step:
  "audit_step D X a (DebugConfigured (Some enable)) (snd (serve_ConfigureDebug e enable a))"
  using au_debug [of D X "au_gateway a" "au_log a" "Some enable"]
  by (cases a) (simp add: serve_ConfigureDebug_def split_beta)

lemma one_step_remote:
  "(\<exists>ev. admin_event ev \<and> audit_step D X a ev (snd (call a))) \<or> snd (call a) = a \<Longrightarrow>
    one_step D X a (snd (remote d call a))"
  by (auto simp: one_step_def remote_state split: delivery.split)

interpretation running: stepwise_service "running_client D X e" "fresh_draws D e" "one_step D X"
  for D X e
proof
  fix a route realKey al uid req enable
  show "one_step D X a a" by (simp add: one_step_def)
  show "one_step D X a (snd (cl_ListRoutes (running_client D X e) a))"
    "one_step D X a (snd (cl_ListQuotas (running_client D X e) a))"
    "one_step D X a (snd (cl_ListKeys (running_client D X e) a))"
    by (simp_all add: running_client_def Let_def one_step_remote)
  show "one_step D X a (snd (cl_AddKey (running_client D X e) route realKey al a))" if "fresh_draws D e a"
    using serve_AddKey_step [OF that, of X route realKey al]
    by (auto simp: running_client_def Let_def intro!: one_step_remote intro: admin_event.simps(1) [THEN iffD2])
  show "one_step D X a (snd (cl_DeleteKey (running_client D X e) uid a))"
    using serve_DeleteKey_step [of D X a uid]
    by (auto simp: running_client_def Let_def intro!: one_step_remote intro: admin_event.simps(2) [THEN iffD2])
  show "one_step D X a (snd (cl_GetStats (running_client D X e) req a))"
    using serve_GetStats_step [of D X a e req]
    by (auto simp: running_client_def Let_def intro!: one_step_remote exI [of _ StatsAsked])
  show "one_step D X a (snd (cl_ConfigureDebug (running_client D X e) enable a))"
    using serve_ConfigureDebug_step [of D X a enable e]
    by (auto simp: running_client_def Let_def intro!: one_step_remote exI [of _ "DebugConfigured (Some enable)"])
qed

section \<open>What the client reports\<close>

definition key_message :: "string \<Rightarrow> cli_output" where
  "key_message k = Message (LF # ''Generated internal key successfully:'' @ [LF] @ k)"

lemma answered_ok:
  assumes "answered show r = ((0, out), s)"
  obtains x where "fst r = Inr x" "show x = (0, out)" "snd r = s"
  using assms by (auto simp: answered_def rpc_failed_def split: prod.splits sum.splits)

lemma as_rpc_Inr [simp]: "as_rpc text r = Inr x \<longleftrightarrow> r = Inr x" "Inr x = as_rpc text r \<longleftrightarrow> r = Inr x"
  by (auto simp: as_rpc_def split: sum.split)

lemma key_add_running:
  assumes "fresh_draws D e a" "handleKeyAdd kp ap (running_client D X e) route a = ((0, out), a')"
  shows "\<exists>k. out = key_message k \<and> audit_step D X a (Step (KeyAdded (Inr k))) a'"
proof -
  obtain key al where p: "kp = Inr key" "ap = Inr al"
    using assms(2) by (auto simp: handleKeyAdd_def split: sum.splits)
  have call: "cl_AddKey (running_client D X e) route key al a
      = remote (re_delivery e) (serve_AddKey D X e route key al) a"
    by (simp add: running_client_def Let_def)
  obtain k where k: "fst (remote (re_delivery e) (serve_AddKey D X e route key al) a) = Inr k"
      "out = key_message k" "snd (remote (re_delivery e) (serve_AddKey D X e route key al) a) = a'"
    using assms(2) unfolding handleKeyAdd_def p sum.case call
    by (elim answered_ok) (simp add: key_message_def)
  from remote_ok [OF k(1)] k(3) have "serve_AddKey D X e route key al a = (Inr k, a')" by simp
  moreover obtain res where "audit_step D X a (Step (KeyAdded res)) (snd (serve_AddKey D X e route key al a))"
      "as_rpc (re_text e) res = fst (serve_AddKey D X e route key al a)"
    using serve_AddKey_step [OF assms(1), of X route key al] by metis
  ultimately show ?thesis using k(2) by (intro exI [of _ k]) simp
qed

lemma key_del_running:
  assumes "handleKeyDel (running_client D X e) uid a = ((0, out), a')"
  shows "audit_step D X a (Step (KeyDeleted uid True)) a'"
proof -
  have call: "cl_DeleteKey (running_client D X e) uid a = remote (re_delivery e) (serve_DeleteKey uid) a"
    by (simp add: running_client_def Let_def)
  obtain success where s: "fst (remote (re_delivery e) (serve_DeleteKey uid) a) = Inr success" success
      "snd (remote (re_delivery e) (serve_DeleteKey uid) a) = a'"
    using assms unfolding handleKeyDel_def call by (elim answered_ok) (simp split: if_splits)
  from remote_ok [OF s(1)] s(2,3) have "serve_DeleteKey uid a = (Inr True, a')" by simp
  with serve_DeleteKey_step [of D X a uid] show ?thesis by auto
qed

text \<open>A call that gets to a command runs it.\<close>

lemma cli_main_command:
  assumes "parseCLIConfig (ci_getenv env) args = Inr (addr, w # ws)"
    and "ci_dial env addr = None \<or> fst (fst (cli_main env client args s)) = 0"
  shows "cli_main env client args s = run_command env client (dispatch (w # ws)) s"
  using assms by (auto simp: cli_main_def newAdminClient_def split: option.splits)

lemma dispatch_key:
  "dispatch (''key'' # ''add'' # route # tail) = KeyAddCmd route"
  "dispatch (''key'' # ''del'' # uid # tail) = KeyDelCmd uid"
  by (simp_all add: dispatch_def)

text \<open>An issued key is a record of the store, which is listed, and a second one for it is refused.\<close>

lemma issued_record:
  assumes "store_ok sha store" "fresh_for sha uid bytes store"
    and "handle_AddKey sha cfg route realKey al (Inr uid) (Inr bytes) store = (Inr k, store')"
  obtains r where "store_ok sha store'" "r \<in> records store'" "kr_UUID r = uid" "kr_Route r = route"
    "kr_RealKey r = realKey" "kr_InternalKey r = k"
proof -
  obtain r where add: "AddKey sha route realKey al (Inr uid) (Inr bytes) store = (Inr r, store')"
      and k: "k = kr_InternalKey r"
    using assms(3) by (auto simp: handle_AddKey_def split: if_splits prod.splits sum.splits)
  note r = records_AddKey [OF add assms(2)]
  have "store_ok sha store'"
    using AddKey_ok [OF assms(1), of "Inr uid" "Inr bytes" route realKey al] assms(2) add by auto
  with that [of r] show ?thesis by (simp add: r k)
qed

lemma listed_record: "r \<in> records store \<Longrightarrow> key_info_of r \<in> set (handle_ListKeys store)"
  by (auto simp: handle_ListKeys_def ListKeys_def records_def)

lemma duplicate_not_added:
  assumes "store_ok sha store" "r \<in> records store" "kr_Route r = route" "kr_RealKey r = realKey"
  obtains err where "handle_AddKey sha cfg route realKey al ud rd store = (Inl err, store)"
  using duplicate_found [OF assms(1,2)] assms(3,4)
  by (cases "handle_AddKey sha cfg route realKey al ud rd store") (auto simp: handle_AddKey_def split: if_splits)

lemma retry_is_refused:
  assumes "store_ok (d_sha D) store" "r \<in> records store" "kr_Route r = route" "kr_RealKey r = realKey"
    and "gw_store (au_gateway a) = store"
    and "parseCLIConfig (ci_getenv env) args = Inr (addr, ''key'' # ''add'' # route # tail)"
    and "ci_keyPrompt env = Inr realKey"
  shows "fst (fst (cli_main env (running_client D X e) args a)) = 1
    \<and> gw_store (au_gateway (snd (cli_main env (running_client D X e) args a))) = store"
proof -
  have "fst (fst (handleKeyAdd (Inr realKey) ap (running_client D X e) route a)) = 1
      \<and> gw_store (au_gateway (snd (handleKeyAdd (Inr realKey) ap (running_client D X e) route a))) = store" for ap
  proof (cases ap)
    case (Inr al)
    obtain err where "handle_AddKey (d_sha D) (d_cfg D) route realKey al (re_uuid e) (re_rand e) store
        = (Inl err, store)"
      by (rule duplicate_not_added [OF assms(1-4)])
    then show ?thesis
      by (cases "re_delivery e")
         (simp_all add: Inr handleKeyAdd_def running_client_def Let_def answered_def rpc_failed_def remote_def
           serve_AddKey_def as_rpc_def assms(5))
  qed (simp add: handleKeyAdd_def assms(5) rpc_failed_def)
  then show ?thesis
    by (simp add: cli_main_def newAdminClient_def dispatch_key run_command_def assms(5-7) split: option.split)
qed

section \<open>Properties\<close>

text \<open>
  C11. The client acts on the running gateway: whatever its arguments, the answers at its prompts and the
  network, one call of the client is no step of the gateway at all or exactly one step of the
  administrator, with its log lines. And what it reports has happened: when it ends with status 0,
  \<open>key add\<close> has printed the very key that the gateway issued in this step, and \<open>key del\<close> has deleted the
  record that was named.
\<close>

theorem client_is_one_step:
  assumes "fresh_draws D e a" "cli_main env (running_client D X e) args a = ((status, out), a')"
  shows "(a' = a \<or> (\<exists>ev. admin_event ev \<and> audit_step D X a ev a'))
    \<and> (\<forall>addr route tail. parseCLIConfig (ci_getenv env) args = Inr (addr, ''key'' # ''add'' # route # tail)
        \<longrightarrow> status = 0 \<longrightarrow> (\<exists>k. out = key_message k \<and> audit_step D X a (Step (KeyAdded (Inr k))) a'))
    \<and> (\<forall>addr uid tail. parseCLIConfig (ci_getenv env) args = Inr (addr, ''key'' # ''del'' # uid # tail)
        \<longrightarrow> status = 0 \<longrightarrow> audit_step D X a (Step (KeyDeleted uid True)) a')"
proof (intro conjI allI impI)
  show "a' = a \<or> (\<exists>ev. admin_event ev \<and> audit_step D X a ev a')"
    using running.main_step [OF assms(1), of X env args] assms(2) by (simp add: one_step_def)
next
  fix addr route tail
  assume args: "parseCLIConfig (ci_getenv env) args = Inr (addr, ''key'' # ''add'' # route # tail)"
    and "status = 0"
  then have "run_command env (running_client D X e) (KeyAddCmd route) a = ((0, out), a')"
    using cli_main_command [OF args, of "running_client D X e" a] assms(2) by (simp add: dispatch_key)
  then show "\<exists>k. out = key_message k \<and> audit_step D X a (Step (KeyAdded (Inr k))) a'"
    using key_add_running [OF assms(1)] by (simp add: run_command_def)
next
  fix addr uid tail
  assume args: "parseCLIConfig (ci_getenv env) args = Inr (addr, ''key'' # ''del'' # uid # tail)"
    and "status = 0"
  then have "run_command env (running_client D X e) (KeyDelCmd uid) a = ((0, out), a')"
    using cli_main_command [OF args, of "running_client D X e" a] assms(2) by (simp add: dispatch_key)
  then show "audit_step D X a (Step (KeyDeleted uid True)) a'"
    using key_del_running by (simp add: run_command_def)
qed

text \<open>
  C38. A reply that is lost: when the gateway issued a key but its reply got lost, the client ends with
  status 1 and shows the error of the network only, yet the key is live. Every retry with the same
  route and upstream key, on whatever network, fails and leaves the store alone; the key is in the
  list of keys, from where it can be taken, or deleted by its UUID.
\<close>

theorem lost_reply_keeps_key:
  assumes "fresh_draws D e a" "store_ok (d_sha D) (gw_store (au_gateway a))"
    and "re_delivery e = ReplyLost err" "re_uuid e = Inr uid" "re_rand e = Inr bytes"
    and "handle_AddKey (d_sha D) (d_cfg D) route realKey al (Inr uid) (Inr bytes) (gw_store (au_gateway a))
      = (Inr k, store)"
    and "parseCLIConfig (ci_getenv env) args = Inr (addr, ''key'' # ''add'' # route # tail)"
    and "ci_dial env addr = None" "ci_keyPrompt env = Inr realKey" "ci_aliasPrompt env = Inr al"
  shows "\<exists>a'. cli_main env (running_client D X e) args a = ((1, Failure (''rpc error: '' @ err)), a')
    \<and> audit_step D X a (Step (KeyAdded (Inr k))) a' \<and> gw_store (au_gateway a') = store
    \<and> (\<exists>i \<in> set (handle_ListKeys store). ki_InternalKey i = k \<and> ki_Uuid i = uid \<and> ki_Route i = route)
    \<and> (\<forall>e' env' args' addr' tail' a''. gw_store (au_gateway a'') = store \<longrightarrow>
        parseCLIConfig (ci_getenv env') args' = Inr (addr', ''key'' # ''add'' # route # tail') \<longrightarrow>
        ci_keyPrompt env' = Inr realKey \<longrightarrow>
        fst (fst (cli_main env' (running_client D X e') args' a'')) = 1
        \<and> gw_store (au_gateway (snd (cli_main env' (running_client D X e') args' a''))) = store)"
proof -
  let ?serve = "serve_AddKey D X e route realKey al a"
  have serve: "fst ?serve = Inr k" "gw_store (au_gateway (snd ?serve)) = store"
    by (simp_all add: serve_AddKey_def assms(4-6) as_rpc_def)
  have step: "audit_step D X a (Step (KeyAdded (Inr k))) (snd ?serve)"
    using serve_AddKey_step [OF assms(1), of X route realKey al] serve(1) by auto
  have main: "cli_main env (running_client D X e) args a = ((1, Failure (''rpc error: '' @ err)), snd ?serve)"
    using cli_main_command [OF assms(7) disjI1 [OF assms(8)], of "running_client D X e" a]
    by (simp add: dispatch_key run_command_def handleKeyAdd_def assms(3,9,10) running_client_def Let_def
        remote_def answered_def rpc_failed_def)
  have fresh: "fresh_for (d_sha D) uid bytes (gw_store (au_gateway a))"
    using assms(1,4,5) by (simp add: fresh_draws_def)
  obtain r where r: "store_ok (d_sha D) store" "r \<in> records store" "kr_UUID r = uid" "kr_Route r = route"
      "kr_RealKey r = realKey" "kr_InternalKey r = k"
    by (rule issued_record [OF assms(2) fresh assms(6)])
  have listed: "\<exists>i \<in> set (handle_ListKeys store). ki_InternalKey i = k \<and> ki_Uuid i = uid \<and> ki_Route i = route"
    by (rule bexI [OF _ listed_record [OF r(2)]]) (simp add: key_info_of_def r(3,4,6))
  note retry = retry_is_refused [OF r(1,2,4,5)]
  show ?thesis
    by (rule exI [of _ "snd ?serve"]) (use main step serve(2) listed retry in blast)
qed

section \<open>Instances\<close>

definition sample_rpc :: "delivery \<Rightarrow> rpc_env" where
  "sample_rpc d = \<lparr>re_uuid = Inr ''v'', re_rand = Inr ''ab'', re_fault = no_stats_fault,
     re_now = sample_time, re_text = (\<lambda>e. ''e''), re_delivery = d\<rparr>"

definition sample_audit :: audit where
  "sample_audit = \<lparr>au_gateway = sample_gateway, au_log = ready_log\<rparr>"

lemma sample_draws: "fresh_draws sample_deployment (sample_rpc d) sample_audit"
  using sample_fresh
  by (simp add: fresh_draws_def sample_rpc_def sample_audit_def sample_deployment_def sample_gateway_def)

lemma sample_add_args:
  "parseCLIConfig (ci_getenv sample_cli_env) [''--addr=h:1'', ''key'', ''add'', ''/a'']
     = Inr (''h:1'', ''key'' # ''add'' # ''/a'' # [])"
  using sample_cli_args [of "[''add'', ''/a'']"] by (simp add: sample_cli_env_def)

lemma sample_gateway_store:
  "gw_store (au_gateway sample_audit) = sample_store" "d_sha sample_deployment = id"
  "d_cfg sample_deployment = sample_config"
  by (simp_all add: sample_audit_def sample_gateway_def sample_deployment_def)

lemma sample_env_sel:
  "ci_dial sample_cli_env addr = None" "ci_keyPrompt sample_cli_env = Inr ''k2''"
  "ci_aliasPrompt sample_cli_env = Inr ''al''" "re_delivery (sample_rpc d) = d"
  "re_uuid (sample_rpc d) = Inr ''v''" "re_rand (sample_rpc d) = Inr ''ab''"
  by (simp_all add: sample_cli_env_def sample_rpc_def)

lemma client_is_one_step_witness:
  "\<exists>a'. cli_main sample_cli_env (running_client sample_deployment sample_texts (sample_rpc Delivered))
      [''--addr=h:1'', ''key'', ''add'', ''/a''] sample_audit = ((0, key_message (internal_key_of ''ab'')), a')
    \<and> audit_step sample_deployment sample_texts sample_audit (Step (KeyAdded (Inr (internal_key_of ''ab'')))) a'"
proof -
  let ?client = "running_client sample_deployment sample_texts (sample_rpc Delivered)"
  let ?args = "[''--addr=h:1'', ''key'', ''add'', ''/a'']"
  obtain store where "handle_AddKey id sample_config ''/a'' ''k2'' ''al'' (Inr ''v'') (Inr ''ab'') sample_store
      = (Inr (internal_key_of ''ab''), store)"
    using sample_key_added by blast
  then have "fst (serve_AddKey sample_deployment sample_texts (sample_rpc Delivered) ''/a'' ''k2'' ''al'' sample_audit)
      = Inr (internal_key_of ''ab'')"
    by (simp add: serve_AddKey_def sample_gateway_store sample_env_sel)
  then obtain a1 where "serve_AddKey sample_deployment sample_texts (sample_rpc Delivered) ''/a'' ''k2'' ''al''
      sample_audit = (Inr (internal_key_of ''ab''), a1)" by (metis prod.collapse)
  then have "fst (cli_main sample_cli_env ?client ?args sample_audit) = (0, key_message (internal_key_of ''ab''))"
    using cli_main_command [OF sample_add_args disjI1 [OF sample_env_sel(1)], of ?client sample_audit]
    by (simp add: dispatch_key run_command_def handleKeyAdd_def running_client_def Let_def remote_def
        answered_def sample_env_sel key_message_def)
  then obtain a' where main: "cli_main sample_cli_env ?client ?args sample_audit
      = ((0, key_message (internal_key_of ''ab'')), a')"
    by (metis prod.collapse)
  from client_is_one_step [OF sample_draws this] sample_add_args obtain k where
    "key_message (internal_key_of ''ab'') = key_message k"
    "audit_step sample_deployment sample_texts sample_audit (Step (KeyAdded (Inr k))) a'"
    by blast
  with main show ?thesis by (auto simp: key_message_def)
qed

lemma lost_reply_keeps_key_witness:
  "\<exists>a'. cli_main sample_cli_env (running_client sample_deployment sample_texts (sample_rpc (ReplyLost ''eof'')))
      [''--addr=h:1'', ''key'', ''add'', ''/a''] sample_audit = ((1, Failure ''rpc error: eof''), a')
    \<and> (\<exists>i \<in> set (handle_ListKeys (gw_store (au_gateway a'))). ki_InternalKey i = internal_key_of ''ab'')"
proof -
  obtain store where "handle_AddKey id sample_config ''/a'' ''k2'' ''al'' (Inr ''v'') (Inr ''ab'') sample_store
      = (Inr (internal_key_of ''ab''), store)"
    using sample_key_added by blast
  from lost_reply_keeps_key [OF sample_draws _ _ _ _ this [folded sample_gateway_store] sample_add_args,
      of "ReplyLost ''eof''" "''eof''" sample_texts] sample_ok
  show ?thesis by (auto simp: sample_gateway_store sample_env_sel)
qed

end
