(* ===== verification/Secrecy.thy ===== *)
theory Secrecy
  imports AuditTrail
begin

text \<open>
  The vendors' keys stay inside the gateway: what it writes to the log and to the database does not
  depend on them. This is noninterference, stated by renaming: when every upstream key is replaced
  by another (different keys by different keys, blank ones by blank ones), the gateway can take the
  same steps with the same log and the same tables.
\<close>

section \<open>Renaming the upstream keys\<close>

definition rekey_record :: "(string \<Rightarrow> string) \<Rightarrow> key_record \<Rightarrow> key_record" where
  "rekey_record f r = r\<lparr>kr_RealKey := f (kr_RealKey r)\<rparr>"

definition rekey_map :: "(string \<Rightarrow> string) \<Rightarrow> (string, key_record) gomap \<Rightarrow> (string, key_record) gomap" where
  "rekey_map f m = map (\<lambda>(k, r). (k, rekey_record f r)) m"

definition rekey_store :: "(string \<Rightarrow> string) \<Rightarrow> key_store \<Rightarrow> key_store" where
  "rekey_store f s = \<lparr>ks_keys = rekey_map f (ks_keys s), ks_byHash = rekey_map f (ks_byHash s)\<rparr>"

definition rekey_context :: "(string \<Rightarrow> string) \<Rightarrow> auth_context \<Rightarrow> auth_context" where
  "rekey_context f cx = cx\<lparr>cx_realKey := f (cx_realKey cx)\<rparr>"

definition rekey_flight :: "(string \<Rightarrow> string) \<Rightarrow> flight \<Rightarrow> flight" where
  "rekey_flight f fl = fl\<lparr>fl_context := rekey_context f (fl_context fl)\<rparr>"

definition rekey_gateway :: "(string \<Rightarrow> string) \<Rightarrow> gateway \<Rightarrow> gateway" where
  "rekey_gateway f g = g\<lparr>gw_store := rekey_store f (gw_store g),
     gw_flights := map (rekey_flight f) (gw_flights g)\<rparr>"

fun rekey_event :: "(string \<Rightarrow> string) \<Rightarrow> audit_event \<Rightarrow> audit_event" where
  "rekey_event f (Step (Admitted fault now rq fl)) = Step (Admitted fault now rq (rekey_flight f fl))"
| "rekey_event f (Step (Answered fl ev)) = Step (Answered (rekey_flight f fl) ev)"
| "rekey_event f (Step (Failed fl)) = Step (Failed (rekey_flight f fl))"
| "rekey_event f ev = ev"

text \<open>Renamings: different keys stay different, and only blank keys become blank.\<close>

definition renaming :: "(string \<Rightarrow> string) \<Rightarrow> bool" where
  "renaming f \<longleftrightarrow> inj f \<and> (\<forall>k. trim_space (f k) = [] \<longleftrightarrow> trim_space k = [])"

lemma rekey_record_sel [simp]:
  "kr_UUID (rekey_record f r) = kr_UUID r" "kr_Alias (rekey_record f r) = kr_Alias r"
  "kr_Route (rekey_record f r) = kr_Route r" "kr_InternalKey (rekey_record f r) = kr_InternalKey r"
  "kr_KeyHash (rekey_record f r) = kr_KeyHash r" "kr_RealKey (rekey_record f r) = f (kr_RealKey r)"
  by (simp_all add: rekey_record_def)

lemma rekey_context_sel [simp]:
  "cx_realKey (rekey_context f cx) = f (cx_realKey cx)" "cx_localKey (rekey_context f cx) = cx_localKey cx"
  "cx_clientIP (rekey_context f cx) = cx_clientIP cx" "cx_alias (rekey_context f cx) = cx_alias cx"
  "cx_startTime (rekey_context f cx) = cx_startTime cx"
  by (simp_all add: rekey_context_def)

lemma rekey_flight_sel [simp]:
  "fl_route (rekey_flight f fl) = fl_route fl" "fl_request (rekey_flight f fl) = fl_request fl"
  "fl_context (rekey_flight f fl) = rekey_context f (fl_context fl)"
  by (simp_all add: rekey_flight_def)

lemma rekey_gateway_sel [simp]:
  "gw_store (rekey_gateway f g) = rekey_store f (gw_store g)"
  "gw_flights (rekey_gateway f g) = map (rekey_flight f) (gw_flights g)"
  "gw_backend (rekey_gateway f g) = gw_backend g"
  by (simp_all add: rekey_gateway_def)

lemma rekey_store_sel [simp]:
  "ks_keys (rekey_store f s) = rekey_map f (ks_keys s)"
  "ks_byHash (rekey_store f s) = rekey_map f (ks_byHash s)"
  by (simp_all add: rekey_store_def)

lemma map_of_rekey [simp]: "map_of (rekey_map f m) k = map_option (rekey_record f) (map_of m k)"
  by (simp add: rekey_map_def map_of_map)

lemma rekey_update: "AList.update k (rekey_record f r) (rekey_map f m) = rekey_map f (AList.update k r m)"
  by (induction m) (auto simp: rekey_map_def)

lemma rekey_delete: "AList.delete k (rekey_map f m) = rekey_map f (AList.delete k m)"
  by (induction m) (auto simp: rekey_map_def)

lemma rekey_new_record:
  "rekey_record f (new_record sha route realKey al uid bytes) = new_record sha route (f realKey) al uid bytes"
  by (simp add: rekey_record_def new_record_def)

lemma inj_rekey_flight: "inj f \<Longrightarrow> inj (rekey_flight f)"
proof (rule injI)
  fix x y
  assume "inj f" "rekey_flight f x = rekey_flight f y"
  then show "x = y"
    by (cases x; cases y; cases "fl_context x"; cases "fl_context y")
       (simp add: rekey_flight_def rekey_context_def inj_eq)
qed

lemma remove1_map: "inj F \<Longrightarrow> remove1 (F x) (map F xs) = map F (remove1 x xs)"
  by (induction xs) (auto simp: inj_eq)

section \<open>The operations under a renaming\<close>

lemma duplicates_rekey:
  assumes "inj f"
  shows "first_error (duplicate_check route (f realKey)) (map snd (rekey_map f m))
    = first_error (duplicate_check route realKey) (map snd m)"
  by (induction m) (auto simp: rekey_map_def duplicate_check_def inj_eq [OF assms] split: option.split)

lemma AddKey_rekey:
  assumes "inj f"
  shows "AddKey sha route (f realKey) al ud rd (rekey_store f s)
    = map_prod (map_sum id (rekey_record f)) (rekey_store f) (AddKey sha route realKey al ud rd s)"
  by (simp add: AddKey_def duplicates_rekey [OF assms] Let_def rekey_new_record [symmetric] rekey_update
      rekey_store_def del: first_error_None_iff split: option.split sum.split)

lemma handle_AddKey_rekey:
  assumes "renaming f"
  shows "handle_AddKey sha cfg route (f realKey) al ud rd (rekey_store f s)
    = map_prod id (rekey_store f) (handle_AddKey sha cfg route realKey al ud rd s)"
  using assms unfolding renaming_def
  by (auto simp: handle_AddKey_def AddKey_rekey split: prod.split sum.split)

lemma handle_AddKey_log_rekey:
  assumes "renaming f"
  shows "handle_AddKey_log X sha cfg route (f realKey) al ud rd (rekey_store f s)
    = handle_AddKey_log X sha cfg route realKey al ud rd s"
  using assms unfolding renaming_def
  by (auto simp: handle_AddKey_log_def AddKey_log_def AddKey_rekey Let_def split: sum.split)

lemma handle_DeleteKey_rekey:
  "handle_DeleteKey uid (rekey_store f s) = map_prod id (rekey_store f) (handle_DeleteKey uid s)"
  by (simp add: handle_DeleteKey_def DeleteKey_def rekey_delete rekey_store_def split: option.split)

lemma fresh_for_rekey [simp]: "fresh_for sha uid bytes (rekey_store f s) = fresh_for sha uid bytes s"
  by (simp add: fresh_for_def)

lemma GetKey_rekey [simp]:
  "GetKeyByInternal sha (rekey_store f s) k = map_option (rekey_record f) (GetKeyByInternal sha s k)"
  by (simp add: GetKeyByInternal_def)

lemma authInterceptor_rekey:
  "authInterceptor sha cfg (rekey_store f s) env path rq
    = map_sum id (map_prod (rekey_context f) id) (authInterceptor sha cfg s env path rq)"
  by (simp add: authInterceptor_def rekey_context_def Let_def split: sum.split option.split)

lemma authInterceptor_log_rekey:
  "authInterceptor_log X sha cfg (rekey_store f s) env path rq
    = authInterceptor_log X sha cfg s env path rq"
  by (simp add: authInterceptor_log_def GetKeyByInternal_log_def Let_def split: sum.split option.split)

section \<open>The answer of the vendor\<close>

text \<open>The vendor that gives the renamed request the answer it gave the original one.\<close>

definition same_answer ::
  "deployment \<Rightarrow> (out_request \<Rightarrow> string + response) \<Rightarrow> flight \<Rightarrow> out_request \<Rightarrow> string + response" where
  "same_answer D upstream fl =
     (case map_of (cfg_Providers (d_cfg D)) (rc_Provider (pr_routeCfg (fl_route fl))) of
        None \<Rightarrow> upstream
      | Some p \<Rightarrow> (\<lambda>_. upstream (fst (Rewrite (d_gjson D) (d_sjson D) p (pr_target (fl_route fl))
          (cx_realKey (fl_context fl)) (fl_request fl)))))"

lemma Rewrite_streaming:
  "snd (Rewrite gj sj p target realKey rq) = snd (Rewrite gj sj p target realKey' rq)"
  by (simp add: Rewrite_def Let_def split: http_body.split option.split)

lemma make_record_rekey [simp]:
  "make_record (rekey_context f cx) path now counts = make_record cx path now counts"
  by (simp add: make_record_def)

lemma ModifyResponse_rekey [simp]:
  "ModifyResponse gj p (rekey_context f cx) path now tm str res = ModifyResponse gj p cx path now tm str res"
  by (simp add: ModifyResponse_def)

lemma tokens_line_rekey [simp]:
  "tokens_line (rekey_context f cx) path what latency counts = tokens_line cx path what latency counts"
  by (simp add: tokens_line_def)

lemma ModifyResponse_log_rekey [simp]:
  "ModifyResponse_log gj p (rekey_context f cx) path latency tm str res
    = ModifyResponse_log gj p cx path latency tm str res"
  by (simp add: ModifyResponse_log_def split: prod.split option.split)

text \<open>An outcome apart from the request that was sent.\<close>

fun client_view :: "outcome \<Rightarrow> (deny + gateway_fault + (response \<times> usage_record option)) option" where
  "client_view (Denied d) = Some (Inl d)"
| "client_view Panicked = None"
| "client_view (BadGateway out err) = Some (Inr (Inl err))"
| "client_view (Forwarded out res rec) = Some (Inr (Inr (res, rec)))"

lemma client_view_simps:
  "client_view x = Some (Inr (Inr (res, rec))) \<longleftrightarrow> (\<exists>out. x = Forwarded out res rec)"
  "client_view x = Some (Inr (Inl err)) \<longleftrightarrow> (\<exists>out. x = BadGateway out err)"
  "client_view x = None \<longleftrightarrow> x = Panicked"
  by (cases x; auto)+

text \<open>
  The protocol a request asks to switch to is named in errors. So the credential must not travel in
  one of the two headers that name it.
\<close>

definition credentials_apart :: "deployment \<Rightarrow> bool" where
  "credentials_apart D \<longleftrightarrow>
     (\<forall>p \<in> snd ` set (cfg_Providers (d_cfg D)). credential_header p \<notin> {''Connection'', ''Upgrade''})"

lemma credentials_apartD:
  "credentials_apart D \<Longrightarrow> map_of (cfg_Providers (d_cfg D)) name = Some p \<Longrightarrow>
    credential_header p \<noteq> ''Connection'' \<and> credential_header p \<noteq> ''Upgrade''"
  unfolding credentials_apart_def by (force dest: map_of_SomeD)

lemma Rewrite_values_rekey:
  "n \<noteq> credential_header p \<Longrightarrow>
    header_values (o_Header (fst (Rewrite gj sj p target realKey rq))) n
      = header_values (o_Header (fst (Rewrite gj sj p target realKey' rq))) n"
  by (simp add: Rewrite_def Let_def header_values_body header_values_credential
      split: http_body.split option.split)

lemma Rewrite_upgrade_rekey:
  assumes "credential_header p \<noteq> ''Connection'' \<and> credential_header p \<noteq> ''Upgrade''"
  shows "upgrade_type (o_Header (fst (Rewrite gj sj p target realKey rq)))
    = upgrade_type (o_Header (fst (Rewrite gj sj p target realKey' rq)))"
  using assms Rewrite_values_rekey [of _ p gj sj target realKey rq realKey']
  by (auto simp: upgrade_type_def header_get_def canonical_hop_names)

lemma rewritten_rekey:
  assumes "credentials_apart D"
    and "map_of (cfg_Providers (d_cfg D)) (rc_Provider (pr_routeCfg (fl_route fl))) = Some p"
  shows
  "snd (Rewrite (d_gjson D) (d_sjson D) p (pr_target (fl_route fl)) (f (cx_realKey (fl_context fl)))
      (fl_request fl))
    = snd (Rewrite (d_gjson D) (d_sjson D) p (pr_target (fl_route fl)) (cx_realKey (fl_context fl))
      (fl_request fl))"
    and "upgrade_fault (o_Header (fst (Rewrite (d_gjson D) (d_sjson D) p (pr_target (fl_route fl))
      (f (cx_realKey (fl_context fl))) (fl_request fl)))) h
    = upgrade_fault (o_Header (fst (Rewrite (d_gjson D) (d_sjson D) p (pr_target (fl_route fl))
      (cx_realKey (fl_context fl)) (fl_request fl)))) h"
  using Rewrite_streaming Rewrite_upgrade_rekey [OF credentials_apartD [OF assms]]
  unfolding upgrade_fault_def by metis+

lemma proxy_outcome_rekey:
  assumes "credentials_apart D"
  shows "client_view (proxy_outcome D (same_answer D upstream fl) now tm (rekey_flight f fl))
    = client_view (proxy_outcome D upstream now tm fl)"
  by (cases "map_of (cfg_Providers (d_cfg D)) (rc_Provider (pr_routeCfg (fl_route fl)))")
     (simp_all add: proxy_outcome_def handleReverseProxy_branches same_answer_def split_beta Let_def
       rewritten_rekey [OF assms, of fl _ f] split: option.split sum.split)

lemma proxy_log_rekey:
  assumes "credentials_apart D"
  shows "proxy_log D X (same_answer D upstream fl) latency tm (rekey_flight f fl)
    = proxy_log D X upstream latency tm fl"
  by (cases "map_of (cfg_Providers (d_cfg D)) (rc_Provider (pr_routeCfg (fl_route fl)))")
     (simp_all add: proxy_log_def handleReverseProxy_log_def same_answer_def split_beta Let_def
       bad_gateway_def bad_gateway_line_def rewritten_rekey [OF assms, of fl _ f]
       split: option.split sum.split)

section \<open>Steps and runs\<close>

lemma quota_env_rekey [simp]: "quota_env_of D fault now (rekey_gateway f g) = quota_env_of D fault now g"
  by (simp add: quota_env_of_def)

definition rekey_audit :: "(string \<Rightarrow> string) \<Rightarrow> audit \<Rightarrow> audit" where
  "rekey_audit f a = a\<lparr>au_gateway := rekey_gateway f (au_gateway a)\<rparr>"

lemma rekey_gateway_updates:
  "rekey_gateway f (g\<lparr>gw_store := s\<rparr>) = (rekey_gateway f g)\<lparr>gw_store := rekey_store f s\<rparr>"
  "rekey_gateway f (g\<lparr>gw_flights := fls\<rparr>) = (rekey_gateway f g)\<lparr>gw_flights := map (rekey_flight f) fls\<rparr>"
  "rekey_gateway f (g\<lparr>gw_backend := b\<rparr>) = (rekey_gateway f g)\<lparr>gw_backend := b\<rparr>"
  by (simp_all add: rekey_gateway_def)

text \<open>Each rule of \<open>audit_step\<close> has its renamed instance.\<close>

lemma rekey_add:
  assumes "renaming f" "handle_AddKey (d_sha D) (d_cfg D) route realKey al ud rd (gw_store g) = (res, store)"
    and "\<And>uid bytes. ud = Inr uid \<Longrightarrow> rd = Inr bytes \<Longrightarrow> fresh_for (d_sha D) uid bytes (gw_store g)"
  shows "audit_step D X (rekey_audit f \<lparr>au_gateway = g, au_log = l\<rparr>) (Step (KeyAdded res))
    (rekey_audit f \<lparr>au_gateway = g\<lparr>gw_store := store\<rparr>, au_log = logged (handle_AddKey_log X (d_sha D)
       (d_cfg D) route realKey al ud rd (gw_store g)) l\<rparr>)"
proof -
  have "handle_AddKey (d_sha D) (d_cfg D) route (f realKey) al ud rd (gw_store (rekey_gateway f g))
      = (res, rekey_store f store)"
    using assms(2) by (simp add: handle_AddKey_rekey [OF assms(1)])
  from au_add [OF this, of X l] assms(3) show ?thesis
    by (simp add: rekey_audit_def rekey_gateway_updates handle_AddKey_log_rekey [OF assms(1)])
qed

lemma rekey_delete_step:
  assumes "handle_DeleteKey uid (gw_store g) = (found, store)"
  shows "audit_step D X (rekey_audit f \<lparr>au_gateway = g, au_log = l\<rparr>) (Step (KeyDeleted uid found))
    (rekey_audit f \<lparr>au_gateway = g\<lparr>gw_store := store\<rparr>, au_log = logged (handle_DeleteKey_log uid found) l\<rparr>)"
proof -
  have "handle_DeleteKey uid (gw_store (rekey_gateway f g)) = (found, rekey_store f store)"
    using assms by (simp add: handle_DeleteKey_rekey)
  from au_delete [OF this, of D X l] show ?thesis by (simp add: rekey_audit_def rekey_gateway_updates)
qed

lemma rekey_gate:
  assumes "r \<in> set (d_routes D)" "authInterceptor (d_sha D) (d_cfg D) (gw_store g)
      (quota_env_of D fault now g) (pr_routePath r) rq = res"
    and "l' = logged (authInterceptor_log X (d_sha D) (d_cfg D) (gw_store g) (quota_env_of D fault now g)
      (pr_routePath r) rq) l"
  shows "res = Inl d \<Longrightarrow> audit_step D X (rekey_audit f \<lparr>au_gateway = g, au_log = l\<rparr>) (Step (Refused d))
      (rekey_audit f \<lparr>au_gateway = g, au_log = l'\<rparr>)"
    and "res = Inr (cx, rq') \<Longrightarrow> fl = \<lparr>fl_route = r, fl_context = cx, fl_request = rq'\<rparr> \<Longrightarrow>
      audit_step D X (rekey_audit f \<lparr>au_gateway = g, au_log = l\<rparr>)
        (Step (Admitted fault now rq (rekey_flight f fl)))
        (rekey_audit f \<lparr>au_gateway = g\<lparr>gw_flights := gw_flights g @ [fl]\<rparr>, au_log = l'\<rparr>)"
proof -
  have ic: "authInterceptor (d_sha D) (d_cfg D) (gw_store (rekey_gateway f g))
      (quota_env_of D fault now (rekey_gateway f g)) (pr_routePath r) rq
        = map_sum id (map_prod (rekey_context f) id) res"
    using assms(2) by (simp add: authInterceptor_rekey)
  show "audit_step D X (rekey_audit f \<lparr>au_gateway = g, au_log = l\<rparr>) (Step (Refused d))
      (rekey_audit f \<lparr>au_gateway = g, au_log = l'\<rparr>)" if "res = Inl d"
    using au_refuse [OF assms(1) ic [unfolded that map_sum.simps id_apply], of X l]
    by (simp add: rekey_audit_def authInterceptor_log_rekey assms(3))
  show "audit_step D X (rekey_audit f \<lparr>au_gateway = g, au_log = l\<rparr>)
      (Step (Admitted fault now rq (rekey_flight f fl)))
      (rekey_audit f \<lparr>au_gateway = g\<lparr>gw_flights := gw_flights g @ [fl]\<rparr>, au_log = l'\<rparr>)"
    if "res = Inr (cx, rq')" "fl = \<lparr>fl_route = r, fl_context = cx, fl_request = rq'\<rparr>"
    using au_admit [OF assms(1) ic [unfolded that(1) map_sum.simps map_prod_simp id_apply], of _ X l] that(2)
    by (simp add: rekey_audit_def rekey_gateway_updates authInterceptor_log_rekey rekey_flight_def assms(3))
qed

lemma rekey_silent:
  assumes "renaming f" "fl \<in> set (gw_flights g)" "proxy_outcome D upstream now tm fl = Forwarded out res None"
    and apart: "credentials_apart D"
  shows "audit_step D X (rekey_audit f \<lparr>au_gateway = g, au_log = l\<rparr>) (Step (Answered (rekey_flight f fl) None))
    (rekey_audit f \<lparr>au_gateway = g\<lparr>gw_flights := remove1 fl (gw_flights g)\<rparr>,
       au_log = logged (proxy_log D X upstream latency tm fl) l\<rparr>)"
proof -
  have mem: "rekey_flight f fl \<in> set (gw_flights (rekey_gateway f g))" using assms(2) by simp
  obtain out' where "proxy_outcome D (same_answer D upstream fl) now tm (rekey_flight f fl)
      = Forwarded out' res None"
    using proxy_outcome_rekey [OF apart, of upstream fl now tm f] assms(3) by (auto simp: client_view_simps)
  from au_silent [OF mem this, of X l latency] assms(1) show ?thesis
    by (simp add: rekey_audit_def rekey_gateway_updates proxy_log_rekey [OF apart] renaming_def remove1_map
        inj_rekey_flight)
qed

lemma rekey_billed:
  assumes "renaming f" "fl \<in> set (gw_flights g)"
    and "proxy_outcome D upstream now tm fl = Forwarded out res (Some rec)"
    and "ev = Accept rec \<or> ev = Drop rec" "backend_step (d_engine D) (gw_backend g) ev b"
    and apart: "credentials_apart D"
  shows "audit_step D X (rekey_audit f \<lparr>au_gateway = g, au_log = l\<rparr>)
    (Step (Answered (rekey_flight f fl) (Some ev)))
    (rekey_audit f \<lparr>au_gateway = g\<lparr>gw_flights := remove1 fl (gw_flights g), gw_backend := b\<rparr>,
       au_log = logged (proxy_log D X upstream latency tm fl @ EmitNonBlocking_log rec (gw_backend g)) l\<rparr>)"
proof -
  have mem: "rekey_flight f fl \<in> set (gw_flights (rekey_gateway f g))" using assms(2) by simp
  obtain out' where "proxy_outcome D (same_answer D upstream fl) now tm (rekey_flight f fl)
      = Forwarded out' res (Some rec)"
    using proxy_outcome_rekey [OF apart, of upstream fl now tm f] assms(3) by (auto simp: client_view_simps)
  from au_billed [OF mem this assms(4), of b X l latency] assms(1,5) show ?thesis
    by (simp add: rekey_audit_def rekey_gateway_updates proxy_log_rekey [OF apart] renaming_def remove1_map
        inj_rekey_flight)
qed

lemma rekey_failed:
  assumes "renaming f" "fl \<in> set (gw_flights g)"
    and "(\<exists>out err. proxy_outcome D upstream now tm fl = BadGateway out err)
      \<or> proxy_outcome D upstream now tm fl = Panicked"
    and apart: "credentials_apart D"
  shows "audit_step D X (rekey_audit f \<lparr>au_gateway = g, au_log = l\<rparr>) (Step (Failed (rekey_flight f fl)))
    (rekey_audit f \<lparr>au_gateway = g\<lparr>gw_flights := remove1 fl (gw_flights g)\<rparr>,
       au_log = logged (proxy_log D X upstream latency tm fl) l\<rparr>)"
proof -
  have mem: "rekey_flight f fl \<in> set (gw_flights (rekey_gateway f g))" using assms(2) by simp
  have "(\<exists>out err. proxy_outcome D (same_answer D upstream fl) now tm (rekey_flight f fl) = BadGateway out err)
      \<or> proxy_outcome D (same_answer D upstream fl) now tm (rekey_flight f fl) = Panicked"
    using proxy_outcome_rekey [OF apart, of upstream fl now tm f] assms(3) by (auto simp: client_view_simps)
  from au_failed [OF mem this, of X l latency] assms(1) show ?thesis
    by (simp add: rekey_audit_def rekey_gateway_updates proxy_log_rekey [OF apart] renaming_def remove1_map
        inj_rekey_flight)
qed

lemma rekey_background:
  "own_event ev \<Longrightarrow> backend_step (d_engine D) (gw_backend g) ev b \<Longrightarrow>
    audit_step D X (rekey_audit f \<lparr>au_gateway = g, au_log = l\<rparr>) (Step (Background ev))
      (rekey_audit f \<lparr>au_gateway = g\<lparr>gw_backend := b\<rparr>,
         au_log = logged (background_log (d_engine D) (b_db (gw_backend g)) ev) l\<rparr>)"
  using au_background [of ev D "rekey_gateway f g" b X l]
  by (simp add: rekey_audit_def rekey_gateway_updates)

lemmas rekey_steps = rekey_add rekey_delete_step rekey_gate rekey_silent rekey_billed rekey_failed
  rekey_background

lemma rekey_step:
  assumes "renaming f" "credentials_apart D" "audit_step D X a ev a'"
  shows "audit_step D X (rekey_audit f a) (rekey_event f ev) (rekey_audit f a')"
  using assms(3)
proof (cases rule: audit_step.cases)
  case (au_stats g l fault now req)
  then show ?thesis using audit_step.au_stats [of D X "rekey_gateway f g" l fault now req]
    by (simp add: rekey_audit_def)
next
  case (au_debug g l req)
  then show ?thesis using audit_step.au_debug [of D X "rekey_gateway f g" l req]
    by (simp add: rekey_audit_def)
qed (use assms(1,2) rekey_steps in auto)

lemma rekey_run:
  "audit_run D X a evs a' \<Longrightarrow> renaming f \<Longrightarrow> credentials_apart D \<Longrightarrow>
    audit_run D X (rekey_audit f a) (map (rekey_event f) evs) (rekey_audit f a')"
proof (induction rule: audit_run.induct)
  case (au_snoc evs a' ev a'')
  from audit_run.au_snoc [OF au_snoc.IH [OF au_snoc.prems] rekey_step [OF au_snoc.prems au_snoc.hyps(2)]]
  show ?case by simp
qed (simp add: audit_run.au_nil)

lemma rekey_start [simp]: "rekey_audit f (audit_start db l) = audit_start db l"
  by (simp add: rekey_audit_def audit_start_def rekey_gateway_def gw_start_def NewStore_def
      rekey_store_def rekey_map_def)

lemma records_rekey: "records (rekey_store f s) = rekey_record f ` records s"
  by (simp add: records_def rekey_map_def image_image split_beta)

lemma rekey_audit_sel [simp]:
  "au_gateway (rekey_audit f a) = rekey_gateway f (au_gateway a)" "au_log (rekey_audit f a) = au_log a"
  by (simp_all add: rekey_audit_def)

lemma real_keys_rekey:
  "kr_RealKey ` {q \<in> records (rekey_store f s). kr_Route q = path}
    = f ` kr_RealKey ` {q \<in> records s. kr_Route q = path}"
  unfolding records_rekey by force

section \<open>Property\<close>

text \<open>Two keys exchanged, for the instance below.\<close>

definition exchange :: "string \<Rightarrow> string \<Rightarrow> string \<Rightarrow> string" where
  "exchange a b k = (if k = a then b else if k = b then a else k)"

lemma exchange_renaming:
  "trim_space a \<noteq> [] \<Longrightarrow> trim_space b \<noteq> [] \<Longrightarrow> renaming (exchange a b)"
  by (auto simp: renaming_def exchange_def inj_def)

text \<open>
  C8. The vendors' keys do not leak: whatever a running gateway did, it can do as well with every
  upstream key replaced by another one, the vendors giving the same answers, and it then ends with
  the very same log (debug lines included), the same tables and queue, and has issued and refused the
  same. So neither the log nor the database tells anything about an upstream key but which of two
  are equal and which are blank. The configuration must not have a key travel in \<open>Connection\<close> or
  \<open>Upgrade\<close>, whose values an error about protocols would quote.
\<close>

theorem log_hides_vendor_keys:
  assumes "renaming f" "credentials_apart D" "audit_run D X (audit_start db l) evs a"
  shows "audit_run D X (audit_start db l) (map (rekey_event f) evs) (rekey_audit f a)
    \<and> au_log (rekey_audit f a) = au_log a
    \<and> gw_backend (au_gateway (rekey_audit f a)) = gw_backend (au_gateway a)
    \<and> (\<forall>path. kr_RealKey ` {q \<in> records (gw_store (au_gateway (rekey_audit f a))). kr_Route q = path}
         = f ` kr_RealKey ` {q \<in> records (gw_store (au_gateway a)). kr_Route q = path})"
  using rekey_run [OF assms(3,1,2)] by (simp add: real_keys_rekey)

lemma log_hides_vendor_keys_witness:
  "\<exists>a b. audit_run sample_deployment sample_texts (audit_start empty_db ready_log)
      [Step (KeyAdded (Inr (internal_key_of ''xy'')))] a
    \<and> audit_run sample_deployment sample_texts (audit_start empty_db ready_log)
      [Step (KeyAdded (Inr (internal_key_of ''xy'')))] b
    \<and> au_log a = au_log b
    \<and> kr_RealKey ` {q \<in> records (gw_store (au_gateway b)). kr_Route q = ''/a''} = {''other''}"
proof -
  obtain l' where run: "audit_run sample_deployment sample_texts (audit_start empty_db ready_log)
     [Step (KeyAdded (Inr (internal_key_of ''xy'')))] \<lparr>au_gateway = sample_gateway, au_log = l'\<rparr>"
    using sample_trail by blast
  have "trim_space ''real'' = ''real''" "trim_space ''other'' = ''other''"
    by (rule trim_space_visible; simp add: visible_def)+
  then have ren: "renaming (exchange ''real'' ''other'')" by (intro exchange_renaming) simp_all
  have keys: "{q \<in> records sample_store. kr_Route q = ''/a''} = {sample_record}"
    by (auto simp: sample_records sample_record_def)
  have "credentials_apart sample_deployment"
    by (simp add: credentials_apart_def sample_deployment_def sample_config_def sample_credential)
  from log_hides_vendor_keys [OF ren this run] run show ?thesis
    by (intro exI [of _ "\<lparr>au_gateway = sample_gateway, au_log = l'\<rparr>"]
        exI [of _ "rekey_audit (exchange ''real'' ''other'') \<lparr>au_gateway = sample_gateway, au_log = l'\<rparr>"])
       (simp add: sample_gateway_def keys sample_record_def exchange_def)
qed

end
