(* ===== verification/StoreLock.thy ===== *)
theory StoreLock
  imports KeyStore
begin

text \<open>
  The mutex of the key store. \<open>KeyStore\<close> treats each method of \<open>internal/keystore/store.go\<close> as one
  step; here the methods run concurrently, one access to a map at a time, under the \<open>sync.RWMutex\<close>
  of the struct: writers take \<open>Lock\<close>, readers \<open>RLock\<close>, both give it back when they return. The store
  with its lock is shown to implement the store whose methods are atomic.
\<close>

section \<open>Calls\<close>

type_synonym thread = nat

datatype store_call =
    CallAdd string string string "string + string" "string + string"
  | CallDelete string
  | CallList
  | CallGet string

datatype store_result =
    RAdd "keystore_error + key_record"
  | RDelete bool
  | RList "key_record list"
  | RGet "key_record option"

fun store_apply ::
  "(string \<Rightarrow> string) \<Rightarrow> store_call \<Rightarrow> key_store \<Rightarrow> store_result \<times> key_store" where
  "store_apply sha (CallAdd route realKey al ud rd) s =
     (RAdd (fst (AddKey sha route realKey al ud rd s)), snd (AddKey sha route realKey al ud rd s))"
| "store_apply sha (CallDelete uid) s = (RDelete (fst (DeleteKey uid s)), snd (DeleteKey uid s))"
| "store_apply sha CallList s = (RList (ListKeys s), s)"
| "store_apply sha (CallGet k) s = (RGet (GetKeyByInternal sha s k), s)"

datatype store_event = Invoke thread store_call | Return thread store_result

section \<open>The store with atomic methods\<close>

datatype phase = Idle | Pending store_call | Done store_result

record atomic =
  at_store :: key_store
  at_phase :: "thread \<Rightarrow> phase"

inductive atomic_step ::
  "(string \<Rightarrow> string) \<Rightarrow> atomic \<Rightarrow> store_event option \<Rightarrow> atomic \<Rightarrow> bool" for sha where
  at_invoke: "at_phase a t = Idle \<Longrightarrow>
    atomic_step sha a (Some (Invoke t c)) (a\<lparr>at_phase := (at_phase a)(t := Pending c)\<rparr>)"
| at_apply: "at_phase a t = Pending c \<Longrightarrow> store_apply sha c (at_store a) = (r, s) \<Longrightarrow>
    atomic_step sha a None \<lparr>at_store = s, at_phase = (at_phase a)(t := Done r)\<rparr>"
| at_return: "at_phase a t = Done r \<Longrightarrow>
    atomic_step sha a (Some (Return t r)) (a\<lparr>at_phase := (at_phase a)(t := Idle)\<rparr>)"

section \<open>The store with its lock\<close>

text \<open>
  Where a thread is inside a method: the next access to a map. An iteration over a map counts its
  entries; the record of a pending write is a local variable.
\<close>

datatype stage =
    AddScan nat
  | AddPutKeys key_record
  | AddPutHash key_record
  | DelLook
  | DelKeys key_record
  | DelHash key_record
  | ListAt nat "key_record list"
  | GetLook
  | Unlocking store_result

datatype pc = Out | Waiting store_call | Inside store_call stage | Leaving store_result

record locked =
  lk_store :: key_store
  lk_writer :: "thread option"
  lk_readers :: "thread set"
  lk_pc :: "thread \<Rightarrow> pc"

text \<open>Whether a method takes \<open>Lock\<close>, or only \<open>RLock\<close>.\<close>

fun is_write :: "store_call \<Rightarrow> bool" where
  "is_write (CallAdd route realKey al ud rd) = True"
| "is_write (CallDelete uid) = True"
| "is_write c = False"

fun first_stage :: "store_call \<Rightarrow> stage" where
  "first_stage (CallAdd route realKey al ud rd) = AddScan 0"
| "first_stage (CallDelete uid) = DelLook"
| "first_stage CallList = ListAt 0 []"
| "first_stage (CallGet k) = GetLook"

text \<open>
  One access of a method inside the lock: the store it leaves and its next stage. \<open>None\<close> when the
  method is done, and for stages of another method.
\<close>

fun access :: "(string \<Rightarrow> string) \<Rightarrow> store_call \<Rightarrow> stage \<Rightarrow> key_store \<Rightarrow> (key_store \<times> stage) option" where
  "access sha (CallAdd route realKey al ud rd) (AddScan i) s =
     Some (s,
       if i < length (ks_keys s) then
         (case duplicate_check route realKey (snd (ks_keys s ! i)) of
            Some e \<Rightarrow> Unlocking (RAdd (Inl e))
          | None \<Rightarrow> AddScan (Suc i))
       else (case ud of
           Inl m \<Rightarrow> Unlocking (RAdd (Inl (IdentityFailed m)))
         | Inr uid \<Rightarrow> (case rd of
               Inl m \<Rightarrow> Unlocking (RAdd (Inl (EntropyFailed m)))
             | Inr bytes \<Rightarrow> AddPutKeys (new_record sha route realKey al uid bytes))))"
| "access sha (CallAdd route realKey al ud rd) (AddPutKeys r) s =
     Some (s\<lparr>ks_keys := AList.update (kr_UUID r) r (ks_keys s)\<rparr>, AddPutHash r)"
| "access sha (CallAdd route realKey al ud rd) (AddPutHash r) s =
     Some (s\<lparr>ks_byHash := AList.update (kr_KeyHash r) r (ks_byHash s)\<rparr>, Unlocking (RAdd (Inr r)))"
| "access sha (CallDelete uid) DelLook s =
     Some (s, case map_of (ks_keys s) uid of None \<Rightarrow> Unlocking (RDelete False) | Some r \<Rightarrow> DelKeys r)"
| "access sha (CallDelete uid) (DelKeys r) s =
     Some (s\<lparr>ks_keys := AList.delete uid (ks_keys s)\<rparr>, DelHash r)"
| "access sha (CallDelete uid) (DelHash r) s =
     Some (s\<lparr>ks_byHash := AList.delete (kr_KeyHash r) (ks_byHash s)\<rparr>, Unlocking (RDelete True))"
| "access sha CallList (ListAt i acc) s =
     Some (s, if i < length (ks_keys s) then ListAt (Suc i) (acc @ [snd (ks_keys s ! i)])
              else Unlocking (RList acc))"
| "access sha (CallGet k) GetLook s =
     Some (s, Unlocking (RGet (map_of (ks_byHash s) (hashInternalKey sha k))))"
| "access sha c st s = None"

fun_cases accessE: "access sha c st s = Some x"

text \<open>\<open>Lock\<close> waits for every holder, \<open>RLock\<close> for a writer only.\<close>

inductive locked_step ::
  "(string \<Rightarrow> string) \<Rightarrow> locked \<Rightarrow> store_event option \<Rightarrow> locked \<Rightarrow> bool" for sha where
  lk_invoke: "lk_pc l t = Out \<Longrightarrow>
    locked_step sha l (Some (Invoke t c)) (l\<lparr>lk_pc := (lk_pc l)(t := Waiting c)\<rparr>)"
| lk_lock: "lk_pc l t = Waiting c \<Longrightarrow> is_write c \<Longrightarrow> lk_writer l = None \<Longrightarrow> lk_readers l = {} \<Longrightarrow>
    locked_step sha l None (l\<lparr>lk_writer := Some t, lk_pc := (lk_pc l)(t := Inside c (first_stage c))\<rparr>)"
| lk_rlock: "lk_pc l t = Waiting c \<Longrightarrow> \<not> is_write c \<Longrightarrow> lk_writer l = None \<Longrightarrow>
    locked_step sha l None (l\<lparr>lk_readers := insert t (lk_readers l),
      lk_pc := (lk_pc l)(t := Inside c (first_stage c))\<rparr>)"
| lk_access: "lk_pc l t = Inside c st \<Longrightarrow> access sha c st (lk_store l) = Some (s, st') \<Longrightarrow>
    locked_step sha l None (l\<lparr>lk_store := s, lk_pc := (lk_pc l)(t := Inside c st')\<rparr>)"
| lk_unlock: "lk_pc l t = Inside c (Unlocking r) \<Longrightarrow> is_write c \<Longrightarrow>
    locked_step sha l None (l\<lparr>lk_writer := None, lk_pc := (lk_pc l)(t := Leaving r)\<rparr>)"
| lk_runlock: "lk_pc l t = Inside c (Unlocking r) \<Longrightarrow> \<not> is_write c \<Longrightarrow>
    locked_step sha l None (l\<lparr>lk_readers := lk_readers l - {t}, lk_pc := (lk_pc l)(t := Leaving r)\<rparr>)"
| lk_return: "lk_pc l t = Leaving r \<Longrightarrow>
    locked_step sha l (Some (Return t r)) (l\<lparr>lk_pc := (lk_pc l)(t := Out)\<rparr>)"

inductive_cases locked_stepE: "locked_step sha l ev l'"

text \<open>Runs with the calls and returns that are seen from outside.\<close>

inductive visible_run :: "('s \<Rightarrow> 'e option \<Rightarrow> 's \<Rightarrow> bool) \<Rightarrow> 's \<Rightarrow> 'e list \<Rightarrow> 's \<Rightarrow> bool" for step s where
  vr_nil: "visible_run step s [] s"
| vr_hidden: "visible_run step s tr s' \<Longrightarrow> step s' None s'' \<Longrightarrow> visible_run step s tr s''"
| vr_event: "visible_run step s tr s' \<Longrightarrow> step s' (Some e) s'' \<Longrightarrow> visible_run step s (tr @ [e]) s''"

definition locked_start :: "key_store \<Rightarrow> locked" where
  "locked_start s = \<lparr>lk_store = s, lk_writer = None, lk_readers = {}, lk_pc = (\<lambda>t. Out)\<rparr>"

definition atomic_start :: "key_store \<Rightarrow> atomic" where
  "atomic_start s = \<lparr>at_store = s, at_phase = (\<lambda>t. Idle)\<rparr>"

section \<open>Forward simulations\<close>

text \<open>
  A relation between the states of two systems under which each step of the first is answered by the
  second: a visible step by the same visible step, a hidden one by a hidden step or by none.
\<close>

locale forward_simulation =
  fixes step :: "'s \<Rightarrow> 'e option \<Rightarrow> 's \<Rightarrow> bool"
    and spec :: "'a \<Rightarrow> 'e option \<Rightarrow> 'a \<Rightarrow> bool"
    and rel :: "'a \<Rightarrow> 's \<Rightarrow> bool"
  assumes sim_event: "rel a s \<Longrightarrow> step s (Some e) s' \<Longrightarrow> \<exists>a'. spec a (Some e) a' \<and> rel a' s'"
    and sim_hidden: "rel a s \<Longrightarrow> step s None s' \<Longrightarrow> rel a s' \<or> (\<exists>a'. spec a None a' \<and> rel a' s')"
begin

lemma trace_inclusion:
  assumes "visible_run step s tr s'" "rel a s"
  shows "\<exists>a'. visible_run spec a tr a' \<and> rel a' s'"
  using assms(1)
proof (induction rule: visible_run.induct)
  case vr_nil
  show ?case by (intro exI [of _ a] conjI visible_run.vr_nil assms(2))
next
  case (vr_hidden tr s' s'')
  then obtain a1 where a1: "visible_run spec a tr a1" "rel a1 s'" by (elim exE conjE)
  from sim_hidden [OF a1(2) vr_hidden.hyps(2)] show ?case
  proof
    assume "rel a1 s''"
    then show ?thesis by (intro exI [of _ a1] conjI a1(1))
  next
    assume "\<exists>a'. spec a1 None a' \<and> rel a' s''"
    then obtain a2 where "spec a1 None a2" "rel a2 s''" by (elim exE conjE)
    then show ?thesis by (intro exI [of _ a2] conjI visible_run.vr_hidden [OF a1(1)])
  qed
next
  case (vr_event tr s' e s'')
  then obtain a1 where a1: "visible_run spec a tr a1" "rel a1 s'" by (elim exE conjE)
  from sim_event [OF a1(2) vr_event.hyps(2)] obtain a2 where "spec a1 (Some e) a2" "rel a2 s''"
    by (elim exE conjE)
  then show ?case by (intro exI [of _ a2] conjI visible_run.vr_event [OF a1(1)])
qed

end

section \<open>What a thread inside the lock has done\<close>

text \<open>
  \<open>s\<close> is the store the thread found when it took the lock, \<open>s'\<close> the store now.
\<close>

fun progress ::
  "(string \<Rightarrow> string) \<Rightarrow> store_call \<Rightarrow> stage \<Rightarrow> key_store \<Rightarrow> key_store \<Rightarrow> bool" where
  "progress sha (CallAdd route realKey al ud rd) (AddScan i) s s' \<longleftrightarrow> s' = s
     \<and> (\<forall>q \<in> set (take i (map snd (ks_keys s))). duplicate_check route realKey q = None)"
| "progress sha (CallAdd route realKey al ud rd) (AddPutKeys r) s s' \<longleftrightarrow> s' = s
     \<and> (\<exists>uid bytes. ud = Inr uid \<and> rd = Inr bytes \<and> r = new_record sha route realKey al uid bytes)
     \<and> (\<forall>q \<in> snd ` set (ks_keys s). duplicate_check route realKey q = None)"
| "progress sha (CallAdd route realKey al ud rd) (AddPutHash r) s s' \<longleftrightarrow>
     s' = s\<lparr>ks_keys := AList.update (kr_UUID r) r (ks_keys s)\<rparr>
     \<and> (\<exists>uid bytes. ud = Inr uid \<and> rd = Inr bytes \<and> r = new_record sha route realKey al uid bytes)
     \<and> (\<forall>q \<in> snd ` set (ks_keys s). duplicate_check route realKey q = None)"
| "progress sha (CallDelete uid) DelLook s s' \<longleftrightarrow> s' = s"
| "progress sha (CallDelete uid) (DelKeys r) s s' \<longleftrightarrow> s' = s \<and> map_of (ks_keys s) uid = Some r"
| "progress sha (CallDelete uid) (DelHash r) s s' \<longleftrightarrow>
     s' = s\<lparr>ks_keys := AList.delete uid (ks_keys s)\<rparr> \<and> map_of (ks_keys s) uid = Some r"
| "progress sha CallList (ListAt i acc) s s' \<longleftrightarrow> s' = s \<and> acc = take i (ListKeys s)"
| "progress sha (CallGet k) GetLook s s' \<longleftrightarrow> s' = s"
| "progress sha c (Unlocking r) s s' \<longleftrightarrow> store_apply sha c s = (r, s')"
| "progress sha c st s s' \<longleftrightarrow> False"

lemma progress_first: "progress sha c (first_stage c) s s"
  by (cases c) simp_all

lemma scan_hit:
  assumes "\<forall>q \<in> set (take i (map snd m)). chk q = None" "i < length m" "chk (snd (m ! i)) = Some e"
  shows "first_error chk (map snd m) = Some e"
proof -
  have "map snd m = take i (map snd m) @ snd (m ! i) # drop (Suc i) (map snd m)"
    using assms(2) id_take_nth_drop [of i "map snd m"] by simp
  moreover have "first_error chk (xs @ y # ys) = Some e"
    if "\<forall>x \<in> set xs. chk x = None" "chk y = Some e" for xs y ys
    using that by (induction xs) simp_all
  ultimately show ?thesis using assms(1,3) by metis
qed

lemma scan_end:
  "\<forall>q \<in> set m. chk (snd q) = None \<Longrightarrow> first_error chk (map snd m) = None"
  by simp

lemma progress_access:
  assumes "progress sha c st s s'" "access sha c st s' = Some (s'', st')"
  shows "progress sha c st' s s''"
  using assms
proof (cases rule: progress.cases [of "(sha, c, st, s, s')"])
  case (1 sha' route realKey al ud rd i s1 s2)
  then show ?thesis
    using assms
    by (auto simp: AddKey_def take_Suc_conv_app_nth scan_hit scan_end split: if_splits option.splits sum.splits)
next
  case (2 sha' route realKey al ud rd r s1 s2)
  then show ?thesis using assms by auto
next
  case (3 sha' route realKey al ud rd r s1 s2)
  then show ?thesis using assms by (auto simp: AddKey_def Let_def scan_end)
qed (use assms in \<open>auto simp: DeleteKey_def ListKeys_def GetKeyByInternal_def take_Suc_conv_app_nth
    split: option.splits if_splits\<close>)

text \<open>Readers and stages before the first write leave the store as they found it.\<close>

lemma progress_reader: "progress sha c st s s' \<Longrightarrow> \<not> is_write c \<Longrightarrow> s' = s"
  by (cases c; cases st; simp)

lemma access_reader: "access sha c st s = Some (s', st') \<Longrightarrow> \<not> is_write c \<Longrightarrow> s' = s"
  by (cases c; cases st; simp)

section \<open>The simulation\<close>

fun phase_of :: "pc \<Rightarrow> phase" where
  "phase_of Out = Idle"
| "phase_of (Waiting c) = Pending c"
| "phase_of (Inside c st) = Pending c"
| "phase_of (Leaving r) = Done r"

text \<open>Who holds the lock: one writer and no reader, or readers.\<close>

definition lock_ok :: "locked \<Rightarrow> bool" where
  "lock_ok l \<longleftrightarrow>
     (\<forall>t. lk_writer l = Some t \<longleftrightarrow> (\<exists>c st. lk_pc l t = Inside c st \<and> is_write c))
     \<and> (\<forall>t. t \<in> lk_readers l \<longleftrightarrow> (\<exists>c st. lk_pc l t = Inside c st \<and> \<not> is_write c))
     \<and> (lk_writer l \<noteq> None \<longrightarrow> lk_readers l = {})"

definition implements :: "(string \<Rightarrow> string) \<Rightarrow> atomic \<Rightarrow> locked \<Rightarrow> bool" where
  "implements sha a l \<longleftrightarrow> lock_ok l \<and> (\<forall>t. at_phase a t = phase_of (lk_pc l t))
     \<and> (lk_writer l = None \<longrightarrow> lk_store l = at_store a)
     \<and> (\<forall>t c st. lk_pc l t = Inside c st \<longrightarrow> progress sha c st (at_store a) (lk_store l))"

lemma lock_ok_alone:
  assumes "lock_ok l" "lk_pc l t = Inside c st" "is_write c" "lk_pc l u = Inside c' st'"
  shows "u = t"
proof -
  have w: "lk_writer l = Some t" using assms(1-3) unfolding lock_ok_def by blast
  show ?thesis
  proof (cases "is_write c'")
    case True
    then have "lk_writer l = Some u" using assms(1,4) unfolding lock_ok_def by blast
    with w show ?thesis by simp
  next
    case False
    then have "u \<in> lk_readers l" using assms(1,4) unfolding lock_ok_def by blast
    with assms(1) w show ?thesis unfolding lock_ok_def by auto
  qed
qed

lemma lock_ok_step:
  assumes "locked_step sha l ev l'" "lock_ok l"
  shows "lock_ok l'"
  using assms(1)
proof (cases rule: locked_step.cases)
  case (lk_unlock t c r)
  then have "lk_pc l' u \<noteq> Inside c' st'" for u c' st'
    using lock_ok_alone [OF assms(2) lk_unlock(3,4), of u] by auto
  moreover have "lk_readers l = {}"
    using assms(2) lk_unlock(3,4) unfolding lock_ok_def by blast
  ultimately show ?thesis using lk_unlock(2) by (simp add: lock_ok_def)
qed (use assms(2) in \<open>auto simp: lock_ok_def split: if_splits\<close>)

text \<open>Each step of the locked store is answered by the atomic one.\<close>

lemma implements_invoke:
  assumes "implements sha a l" "lk_pc l t = Out"
  shows "\<exists>a'. atomic_step sha a (Some (Invoke t c)) a'
    \<and> implements sha a' (l\<lparr>lk_pc := (lk_pc l)(t := Waiting c)\<rparr>)"
proof (intro exI conjI)
  show "atomic_step sha a (Some (Invoke t c)) (a\<lparr>at_phase := (at_phase a)(t := Pending c)\<rparr>)"
    by (rule at_invoke) (use assms in \<open>simp add: implements_def\<close>)
  have "lock_ok (l\<lparr>lk_pc := (lk_pc l)(t := Waiting c)\<rparr>)"
    using lock_ok_step [OF lk_invoke [OF assms(2)]] assms(1) by (simp add: implements_def)
  then show "implements sha (a\<lparr>at_phase := (at_phase a)(t := Pending c)\<rparr>)
      (l\<lparr>lk_pc := (lk_pc l)(t := Waiting c)\<rparr>)"
    using assms(1) by (simp add: implements_def)
qed

lemma implements_return:
  assumes "implements sha a l" "lk_pc l t = Leaving r"
  shows "\<exists>a'. atomic_step sha a (Some (Return t r)) a'
    \<and> implements sha a' (l\<lparr>lk_pc := (lk_pc l)(t := Out)\<rparr>)"
proof (intro exI conjI)
  show "atomic_step sha a (Some (Return t r)) (a\<lparr>at_phase := (at_phase a)(t := Idle)\<rparr>)"
    by (rule at_return) (use assms in \<open>simp add: implements_def\<close>)
  have "lock_ok (l\<lparr>lk_pc := (lk_pc l)(t := Out)\<rparr>)"
    using lock_ok_step [OF lk_return [OF assms(2)]] assms(1) by (simp add: implements_def)
  then show "implements sha (a\<lparr>at_phase := (at_phase a)(t := Idle)\<rparr>) (l\<lparr>lk_pc := (lk_pc l)(t := Out)\<rparr>)"
    using assms(1) by (simp add: implements_def)
qed

lemma implements_lock:
  assumes "implements sha a l" "lk_pc l t = Waiting c" "locked_step sha l None l'"
    and "lk_pc l' = (lk_pc l)(t := Inside c (first_stage c))" "lk_store l' = lk_store l"
    and "lk_writer l = None" "lk_writer l' = None \<or> lk_readers l = {}"
  shows "implements sha a l'"
proof -
  have "lock_ok l'" using lock_ok_step [OF assms(3)] assms(1) by (simp add: implements_def)
  moreover have "lk_store l = at_store a" using assms(1,6) by (simp add: implements_def)
  ultimately show ?thesis
    using assms progress_first [of sha c "at_store a"] by (auto simp: implements_def)
qed

lemma implements_access:
  assumes "implements sha a l" "lk_pc l t = Inside c st" "access sha c st (lk_store l) = Some (s, st')"
  shows "implements sha a (l\<lparr>lk_store := s, lk_pc := (lk_pc l)(t := Inside c st')\<rparr>)"
proof -
  let ?l = "l\<lparr>lk_store := s, lk_pc := (lk_pc l)(t := Inside c st')\<rparr>"
  have ok: "lock_ok l" using assms(1) by (simp add: implements_def)
  have "lock_ok ?l" using lock_ok_step [OF lk_access [OF assms(2,3)] ok] .
  moreover have "progress sha c st' (at_store a) s"
    using progress_access [OF _ assms(3)] assms(1,2) by (simp add: implements_def)
  moreover have "progress sha c' st'' (at_store a) s" if "lk_pc l u = Inside c' st''" "u \<noteq> t" for u c' st''
  proof -
    have "\<not> is_write c" using lock_ok_alone [OF ok assms(2) _ that(1)] that(2) by blast
    then have "s = lk_store l" using access_reader [OF assms(3)] by simp
    then show ?thesis using assms(1) that(1) by (simp add: implements_def)
  qed
  moreover have "s = at_store a" if "lk_writer l = None"
  proof -
    have "\<not> is_write c" using ok assms(2) that unfolding lock_ok_def by auto
    then show ?thesis using access_reader [OF assms(3)] assms(1) that by (simp add: implements_def)
  qed
  ultimately show ?thesis using assms(1,2) by (auto simp: implements_def)
qed

text \<open>A method takes effect when it gives the lock back.\<close>

lemma implements_unlock:
  assumes "implements sha a l" "lk_pc l t = Inside c (Unlocking r)" "locked_step sha l None l'"
    and "lk_pc l' = (lk_pc l)(t := Leaving r)" "lk_store l' = lk_store l"
    and "is_write c \<or> lk_writer l' = lk_writer l"
  shows "\<exists>a'. atomic_step sha a None a' \<and> implements sha a' l'"
proof (intro exI conjI)
  let ?a = "\<lparr>at_store = lk_store l, at_phase = (at_phase a)(t := Done r)\<rparr>"
  have ok: "lock_ok l" and ok': "lock_ok l'"
    using lock_ok_step [OF assms(3)] assms(1) by (simp_all add: implements_def)
  have "store_apply sha c (at_store a) = (r, lk_store l)"
    using assms(1,2) by (fastforce simp: implements_def)
  with at_apply [of a t c sha r] show "atomic_step sha a None ?a"
    using assms(1,2) by (simp add: implements_def)
  have "progress sha c' st (lk_store l) (lk_store l)" if "lk_pc l u = Inside c' st" "u \<noteq> t" for u c' st
  proof -
    have "\<not> is_write c'" using lock_ok_alone [OF ok that(1) _ assms(2)] that(2) by blast
    moreover have pr: "progress sha c' st (at_store a) (lk_store l)"
      using assms(1) that(1) by (simp add: implements_def)
    ultimately show ?thesis using progress_reader [OF pr] by simp
  qed
  then show "implements sha ?a l'"
    using assms ok' by (auto simp: implements_def)
qed

interpretation store_lock: forward_simulation "locked_step sha" "atomic_step sha" "implements sha"
  for sha
proof
  fix a l e l'
  assume "implements sha a l" "locked_step sha l (Some e) l'"
  then show "\<exists>a'. atomic_step sha a (Some e) a' \<and> implements sha a' l'"
    by (auto elim!: locked_stepE intro: implements_invoke implements_return)
next
  fix a l l'
  assume rel: "implements sha a l" and step: "locked_step sha l None l'"
  from step show "implements sha a l' \<or> (\<exists>a'. atomic_step sha a None a' \<and> implements sha a' l')"
  proof (cases rule: locked_step.cases)
    case (lk_access t c st s st')
    then show ?thesis using implements_access [OF rel] by simp
  next
    case (lk_lock t c)
    then show ?thesis using implements_lock [OF rel lk_lock(2) step] by simp
  next
    case (lk_rlock t c)
    then show ?thesis using implements_lock [OF rel lk_rlock(2) step] by simp
  next
    case (lk_unlock t c r)
    then show ?thesis using implements_unlock [OF rel lk_unlock(2) step] by simp
  next
    case (lk_runlock t c r)
    then show ?thesis using implements_unlock [OF rel lk_runlock(2) step] by simp
  qed
qed

lemma implements_start: "implements sha (atomic_start s) (locked_start s)"
  by (simp add: implements_def atomic_start_def locked_start_def lock_ok_def)

lemma locked_run_ok: "visible_run (locked_step sha) (locked_start s) tr l \<Longrightarrow> lock_ok l"
  using store_lock.trace_inclusion [OF _ implements_start] by (fastforce simp: implements_def)

lemma locked_run_progress:
  assumes "visible_run (locked_step sha) (locked_start s) tr l" "lk_pc l t = Inside c st"
  obtains s0 where "progress sha c st s0 (lk_store l)"
proof -
  obtain a where "implements sha a l"
    using store_lock.trace_inclusion [OF assms(1) implements_start] by (elim exE conjE)
  then show ?thesis using that assms(2) unfolding implements_def by blast
qed

text \<open>A thread inside the lock can always go on.\<close>

lemma access_moves:
  assumes "progress sha c st s0 s" "\<nexists>r. st = Unlocking r"
  shows "\<exists>s' st'. access sha c st s = Some (s', st') \<and> st' \<noteq> st"
  using assms by (cases c; cases st) (auto split: option.split sum.split)

definition can_move :: "(string \<Rightarrow> string) \<Rightarrow> locked \<Rightarrow> thread \<Rightarrow> bool" where
  "can_move sha l v \<longleftrightarrow> (\<exists>ev l'. locked_step sha l ev l' \<and> lk_pc l' v \<noteq> lk_pc l v)"

lemma inside_can_move:
  assumes "progress sha c st s0 (lk_store l)" "lk_pc l v = Inside c st"
  shows "can_move sha l v"
proof (cases "\<exists>r. st = Unlocking r")
  case True
  then show ?thesis
    using lk_unlock [of l v c _ sha] lk_runlock [of l v c _ sha] assms(2)
    unfolding can_move_def by (cases "is_write c") fastforce+
next
  case False
  then obtain s' st' where "access sha c st (lk_store l) = Some (s', st')" "st' \<noteq> st"
    using access_moves [OF assms(1)] by blast
  with lk_access [OF assms(2)] show ?thesis
    unfolding can_move_def by (fastforce simp: assms(2))
qed

lemma some_thread_moves:
  assumes run: "visible_run (locked_step sha) (locked_start s) tr l" and "lk_pc l t \<noteq> Out"
  shows "\<exists>v. lk_pc l v \<noteq> Out \<and> can_move sha l v"
proof -
  have inside: "\<exists>v. lk_pc l v \<noteq> Out \<and> can_move sha l v" if "lk_pc l u = Inside c st" for u c st
    using inside_can_move locked_run_progress [OF run that] that by (metis pc.distinct(3))
  show ?thesis
  proof (cases "lk_pc l t")
    case (Waiting c)
    show ?thesis
    proof (cases "lk_writer l = None \<and> (is_write c \<longrightarrow> lk_readers l = {})")
      case True
      then have "can_move sha l t"
        using lk_lock [OF Waiting] lk_rlock [OF Waiting] unfolding can_move_def
        by (cases "is_write c") (fastforce simp: Waiting)+
      with assms(2) show ?thesis by blast
    next
      case False
      then obtain u c' st where "lk_pc l u = Inside c' st"
        using locked_run_ok [OF run] unfolding lock_ok_def by (metis all_not_in_conv not_None_eq)
      then show ?thesis by (rule inside)
    qed
  next
    case (Inside c st)
    then show ?thesis by (rule inside)
  next
    case (Leaving r)
    then have "can_move sha l t"
      using lk_return [OF Leaving] unfolding can_move_def by fastforce
    with assms(2) show ?thesis by blast
  qed (use assms(2) in simp)
qed

section \<open>Properties\<close>

text \<open>A run with a reader and a writer that waits for it, for the instances below.\<close>

definition sample_trace :: "store_event list" where
  "sample_trace = [Invoke 0 (CallGet (internal_key_of ''xy'')), Invoke 1 (CallDelete ''u''),
     Return 0 (RGet (Some sample_record))]"

definition sample_locked :: "pc \<Rightarrow> pc \<Rightarrow> thread set \<Rightarrow> locked" where
  "sample_locked p q rs = \<lparr>lk_store = sample_store, lk_writer = None, lk_readers = rs,
     lk_pc = (\<lambda>t. Out)(0 := p, 1 := q)\<rparr>"

lemma sample_locked_sel [simp]:
  "lk_pc (sample_locked p q rs) 0 = p" "lk_pc (sample_locked p q rs) (Suc 0) = q"
  "lk_writer (sample_locked p q rs) = None" "lk_store (sample_locked p q rs) = sample_store"
  "lk_readers (sample_locked p q rs) = rs"
  "(sample_locked p q rs)\<lparr>lk_pc := (lk_pc (sample_locked p q rs))(0 := p')\<rparr> = sample_locked p' q rs"
  "(sample_locked p q rs)\<lparr>lk_pc := (lk_pc (sample_locked p q rs))(Suc 0 := q')\<rparr> = sample_locked p q' rs"
  "(sample_locked p q rs)\<lparr>lk_readers := rs', lk_pc := (lk_pc (sample_locked p q rs))(0 := p')\<rparr>
     = sample_locked p' q rs'"
  "(sample_locked p q rs)\<lparr>lk_store := sample_store, lk_pc := (lk_pc (sample_locked p q rs))(0 := p')\<rparr>
     = sample_locked p' q rs"
  "locked_start sample_store = sample_locked Out Out {}"
  by (simp_all add: sample_locked_def locked_start_def fun_upd_twist fun_upd_idem)

lemma sample_locked_run:
  "visible_run (locked_step id) (locked_start sample_store) sample_trace
     (sample_locked Out (Waiting (CallDelete ''u'')) {})"
proof -
  let ?get = "CallGet (internal_key_of ''xy'')" and ?del = "CallDelete ''u''"
  let ?r = "RGet (Some sample_record)"
  have 1: "locked_step id (sample_locked Out Out {}) (Some (Invoke 0 ?get))
      (sample_locked (Waiting ?get) Out {})"
    using lk_invoke [of "sample_locked Out Out {}" 0] by simp
  have 2: "locked_step id (sample_locked (Waiting ?get) Out {}) (Some (Invoke 1 ?del))
      (sample_locked (Waiting ?get) (Waiting ?del) {})"
    using lk_invoke [of "sample_locked (Waiting ?get) Out {}" 1] by simp
  have 3: "locked_step id (sample_locked (Waiting ?get) (Waiting ?del) {}) None
      (sample_locked (Inside ?get GetLook) (Waiting ?del) {0})"
    using lk_rlock [of "sample_locked (Waiting ?get) (Waiting ?del) {}" 0 ?get id] by simp
  have 4: "locked_step id (sample_locked (Inside ?get GetLook) (Waiting ?del) {0}) None
      (sample_locked (Inside ?get (Unlocking ?r)) (Waiting ?del) {0})"
    using lk_access [of "sample_locked (Inside ?get GetLook) (Waiting ?del) {0}" 0 ?get GetLook id]
    by (simp add: sample_keys)
  have 5: "locked_step id (sample_locked (Inside ?get (Unlocking ?r)) (Waiting ?del) {0}) None
      (sample_locked (Leaving ?r) (Waiting ?del) {})"
    using lk_runlock [of "sample_locked (Inside ?get (Unlocking ?r)) (Waiting ?del) {0}" 0] by simp
  have 6: "locked_step id (sample_locked (Leaving ?r) (Waiting ?del) {}) (Some (Return 0 ?r))
      (sample_locked Out (Waiting ?del) {})"
    using lk_return [of "sample_locked (Leaving ?r) (Waiting ?del) {}" 0] by simp
  note ev = vr_event [where step = "locked_step id"] and hid = vr_hidden [where step = "locked_step id"]
  show ?thesis
    using ev [OF hid [OF hid [OF hid [OF ev [OF ev [OF vr_nil 1] 2] 3] 4] 5] 6]
    by (simp add: sample_trace_def)
qed

text \<open>
  C14. The key store is linearizable: whatever calls arrive from concurrent requests and remote calls,
  and however their accesses to the two maps interleave, what the callers see is a history of the store
  whose methods take effect at one instant between call and return; and when no writer holds the lock,
  the two maps are those of that history. No caller ever sees a store in which a record is in one
  map only.
\<close>

theorem keystore_linearizable:
  assumes "visible_run (locked_step sha) (locked_start s) tr l"
  shows "\<exists>a. visible_run (atomic_step sha) (atomic_start s) tr a
    \<and> (lk_writer l = None \<longrightarrow> lk_store l = at_store a)"
proof -
  obtain a where "visible_run (atomic_step sha) (atomic_start s) tr a" "implements sha a l"
    using store_lock.trace_inclusion [OF assms implements_start] by (elim exE conjE)
  then show ?thesis by (intro exI [of _ a]) (simp add: implements_def)
qed

lemma keystore_linearizable_witness:
  "\<exists>a. visible_run (atomic_step id) (atomic_start sample_store) sample_trace a"
  using keystore_linearizable [OF sample_locked_run] by blast

text \<open>
  C24. No data race and no deadlock. The first part does not ask which lock a method takes, only what
  its accesses do: when the next access of a thread is one that can change a map (there are contents of
  the store which it changes), then at that moment no other thread is between lock and unlock of any
  method, so no access to a map meets a write. The second: as long as some call has not returned, a
  thread whose call has not returned can go on.
\<close>

theorem keystore_race_free:
  assumes "visible_run (locked_step sha) (locked_start s) tr l"
  shows "(\<forall>t u c st c' st' s1 s2 st2. lk_pc l t = Inside c st \<longrightarrow> access sha c st s1 = Some (s2, st2) \<longrightarrow>
        s2 \<noteq> s1 \<longrightarrow> lk_pc l u = Inside c' st' \<longrightarrow> u = t)
    \<and> (\<forall>t. lk_pc l t \<noteq> Out \<longrightarrow> (\<exists>v. lk_pc l v \<noteq> Out \<and> can_move sha l v))"
  using lock_ok_alone [OF locked_run_ok [OF assms]] access_reader some_thread_moves [OF assms] by blast

lemma keystore_race_free_witness:
  "\<exists>v. lk_pc (sample_locked Out (Waiting (CallDelete ''u'')) {}) v \<noteq> Out
    \<and> can_move id (sample_locked Out (Waiting (CallDelete ''u'')) {}) v"
  using keystore_race_free [OF sample_locked_run] by (metis pc.distinct(1) sample_locked_sel(2))

end
