(* ===== verification/Admission.thy ===== *)
theory Admission
  imports Gateway "HOL-Library.Multiset"
begin

text \<open>
  The interceptor of \<open>internal/proxy/proxy.go\<close> reads the shared state three times: the key store when
  it looks the key up, and, after it has read the body of the client, the tables of the day and of the
  month. \<open>Gateway\<close> takes the three as one step. Here they are steps of their own, with anything the
  gateway does in between (the key may be revoked, other requests may be booked), and it is shown
  that the gateway reaches nothing that it does not reach with one step.
\<close>

section \<open>The parts of the interceptor\<close>

definition gate_lookup ::
  "(string \<Rightarrow> string) \<Rightarrow> apml_config \<Rightarrow> key_store \<Rightarrow> string \<Rightarrow> request \<Rightarrow> deny + auth_context" where
  "gate_lookup sha cfg store routePath rq =
     (case presented_key (provider_of cfg routePath) (rq_Header rq) of
        Inl d \<Rightarrow> Inl d
      | Inr localKey \<Rightarrow>
          (case GetKeyByInternal sha store localKey of
             None \<Rightarrow> Inl InvalidKey
           | Some keyRecord \<Rightarrow>
               if kr_Route keyRecord \<noteq> routePath then Inl InvalidKey
               else Inr \<lparr>cx_realKey = kr_RealKey keyRecord, cx_localKey = localKey,
                      cx_clientIP = rq_ClientIP rq, cx_alias = kr_Alias keyRecord,
                      cx_startTime = rq_Start rq\<rparr>))"

definition quota_name :: "apml_config \<Rightarrow> string \<Rightarrow> string" where
  "quota_name cfg routePath =
     rc_Quota (case map_of (cfg_Routes cfg) routePath of None \<Rightarrow> zero_route | Some r \<Rightarrow> r)"

definition route_quota :: "apml_config \<Rightarrow> string \<Rightarrow> quota_detail" where
  "route_quota cfg routePath =
     (case map_of (cfg_Quotas cfg) (quota_name cfg routePath) of None \<Rightarrow> zero_quota | Some q \<Rightarrow> q)"

text \<open>A request whose key was found and whose quota is being checked.\<close>

record gate =
  gt_route :: proxy_route
  gt_context :: auth_context
  gt_request :: request
  gt_fault :: "string \<Rightarrow> string option"
  gt_now :: go_time
  gt_daily :: bool  \<comment> \<open>the window of the day is passed\<close>

definition gate_estimate :: "deployment \<Rightarrow> string \<Rightarrow> request \<Rightarrow> int64" where
  "gate_estimate D path rq =
     estimateInputTokens (d_gjson D) (fst (read_all (rq_Body rq)))
       (Some (case provider_of (d_cfg D) path of None \<Rightarrow> zero_provider | Some p \<Rightarrow> p))"

text \<open>The two reads of \<open>QuotaCheck\<close>: \<open>None\<close> when the first one lets the check go on.\<close>

definition daily_read :: "deployment \<Rightarrow> usage_db \<Rightarrow> gate \<Rightarrow> check_result option" where
  "daily_read D db gt =
     (let path = pr_routePath (gt_route gt); q = route_quota (d_cfg D) path
      in if q_Daily q = 0 \<and> q_Monthly q = 0 then Some (allow_result 0)
         else check_window (d_engine D) (gt_fault gt) db (q_Mode q) (cx_localKey (gt_context gt)) path
           ''daily'' (format_date (gt_now gt)) (q_Daily q) (gate_estimate D path (gt_request gt)))"

definition monthly_read :: "deployment \<Rightarrow> usage_db \<Rightarrow> gate \<Rightarrow> check_result" where
  "monthly_read D db gt =
     (let path = pr_routePath (gt_route gt); q = route_quota (d_cfg D) path;
          est = gate_estimate D path (gt_request gt)
      in case check_window (d_engine D) (gt_fault gt) db (q_Mode q) (cx_localKey (gt_context gt)) path
             ''monthly'' (format_month (gt_now gt)) (q_Monthly q) est of
           Some r \<Rightarrow> r | None \<Rightarrow> allow_result est)"

definition gate_flight :: "gate \<Rightarrow> flight" where
  "gate_flight gt =
     \<lparr>fl_route = gt_route gt, fl_context = gt_context gt,
      fl_request = (gt_request gt)\<lparr>rq_Body := BodyStream (fst (read_all (rq_Body (gt_request gt)))) None\<rparr>\<rparr>"

definition gate_admitted :: "gate \<Rightarrow> gw_event" where
  "gate_admitted gt = Admitted (gt_fault gt) (gt_now gt) (gt_request gt) (gate_flight gt)"

section \<open>The gateway with the interceptor in parts\<close>

record gates =
  ga_gateway :: gateway
  ga_waiting :: "gate list"

fun gate_event :: "gw_event \<Rightarrow> bool" where
  "gate_event (Admitted fault now rq fl) = True"
| "gate_event (Refused d) = True"
| "gate_event ev = False"

fun admission_event :: "gw_event \<Rightarrow> bool" where
  "admission_event (Admitted fault now rq fl) = True"
| "admission_event ev = False"

text \<open>
  The database of each read is the one of its step. The clock is read once, before the first read;
  whether a read fails is decided by \<open>gt_fault\<close>.
\<close>

inductive fine_step :: "deployment \<Rightarrow> gates \<Rightarrow> gw_event list \<Rightarrow> gates \<Rightarrow> bool" for D where
  fs_other: "gw_step D g ev g' \<Longrightarrow> \<not> gate_event ev \<Longrightarrow>
    fine_step D \<lparr>ga_gateway = g, ga_waiting = w\<rparr> [ev] \<lparr>ga_gateway = g', ga_waiting = w\<rparr>"
| fs_unknown: "r \<in> set (d_routes D) \<Longrightarrow>
    gate_lookup (d_sha D) (d_cfg D) (gw_store g) (pr_routePath r) rq = Inl d \<Longrightarrow>
    fine_step D \<lparr>ga_gateway = g, ga_waiting = w\<rparr> [Refused d] \<lparr>ga_gateway = g, ga_waiting = w\<rparr>"
| fs_free: "r \<in> set (d_routes D) \<Longrightarrow>
    gate_lookup (d_sha D) (d_cfg D) (gw_store g) (pr_routePath r) rq = Inr cx \<Longrightarrow>
    quota_name (d_cfg D) (pr_routePath r) = [] \<Longrightarrow>
    fl = \<lparr>fl_route = r, fl_context = cx, fl_request = rq\<rparr> \<Longrightarrow>
    fine_step D \<lparr>ga_gateway = g, ga_waiting = w\<rparr> [Admitted fault now rq fl]
      \<lparr>ga_gateway = g\<lparr>gw_flights := gw_flights g @ [fl]\<rparr>, ga_waiting = w\<rparr>"
| fs_lookup: "r \<in> set (d_routes D) \<Longrightarrow>
    gate_lookup (d_sha D) (d_cfg D) (gw_store g) (pr_routePath r) rq = Inr cx \<Longrightarrow>
    quota_name (d_cfg D) (pr_routePath r) \<noteq> [] \<Longrightarrow>
    gt = \<lparr>gt_route = r, gt_context = cx, gt_request = rq, gt_fault = fault, gt_now = now,
      gt_daily = False\<rparr> \<Longrightarrow>
    fine_step D \<lparr>ga_gateway = g, ga_waiting = w\<rparr> [] \<lparr>ga_gateway = g, ga_waiting = gt # w\<rparr>"
| fs_daily: "\<not> gt_daily gt \<Longrightarrow> gt \<in> set w \<Longrightarrow> daily_read D (b_db (gw_backend g)) gt = None \<Longrightarrow>
    fine_step D \<lparr>ga_gateway = g, ga_waiting = w\<rparr> []
      \<lparr>ga_gateway = g, ga_waiting = gt\<lparr>gt_daily := True\<rparr> # remove1 gt w\<rparr>"
| fs_admit: "gt \<in> set w \<Longrightarrow>
    (if gt_daily gt then res = monthly_read D (b_db (gw_backend g)) gt
     else daily_read D (b_db (gw_backend g)) gt = Some res) \<Longrightarrow> c_Allowed res \<Longrightarrow>
    fine_step D \<lparr>ga_gateway = g, ga_waiting = w\<rparr> [gate_admitted gt]
      \<lparr>ga_gateway = g\<lparr>gw_flights := gw_flights g @ [gate_flight gt]\<rparr>, ga_waiting = remove1 gt w\<rparr>"
| fs_refuse: "gt \<in> set w \<Longrightarrow>
    (if gt_daily gt then res = monthly_read D (b_db (gw_backend g)) gt
     else daily_read D (b_db (gw_backend g)) gt = Some res) \<Longrightarrow> \<not> c_Allowed res \<Longrightarrow>
    fine_step D \<lparr>ga_gateway = g, ga_waiting = w\<rparr> [Refused (QuotaExceeded (c_DenyReason res))]
      \<lparr>ga_gateway = g, ga_waiting = remove1 gt w\<rparr>"

inductive_cases fine_stepE: "fine_step D s evs s'"

inductive fine_run :: "deployment \<Rightarrow> gates \<Rightarrow> gw_event list \<Rightarrow> gates \<Rightarrow> bool" for D where
  fr_nil: "fine_run D s [] s"
| fr_cons: "fine_step D s ev s' \<Longrightarrow> fine_run D s' evs s'' \<Longrightarrow> fine_run D s (ev @ evs) s''"

section \<open>The parts compose to the interceptor\<close>

definition gate_verdict :: "deployment \<Rightarrow> usage_db \<Rightarrow> gate \<Rightarrow> check_result" where
  "gate_verdict D db gt =
     (case daily_read D db gt of Some r \<Rightarrow> r | None \<Rightarrow> monthly_read D db gt)"

lemma gate_verdict_QuotaCheck:
  "gate_verdict D db gt =
    (let path = pr_routePath (gt_route gt) in
     QuotaCheck (d_engine D) (d_gjson D) (gt_fault gt) (gt_now gt) db (cx_localKey (gt_context gt)) path
       (route_quota (d_cfg D) path) (fst (read_all (rq_Body (gt_request gt))))
       (Some (case provider_of (d_cfg D) path of None \<Rightarrow> zero_provider | Some p \<Rightarrow> p)))"
  unfolding gate_verdict_def daily_read_def monthly_read_def QuotaCheck_def Let_def gate_estimate_def
  by simp

lemma interceptor_parts:
  assumes "gate_lookup (d_sha D) (d_cfg D) (gw_store g) (pr_routePath r) rq = Inr cx"
  shows "quota_name (d_cfg D) (pr_routePath r) = [] \<Longrightarrow>
      authInterceptor (d_sha D) (d_cfg D) (gw_store g) (quota_env_of D fault now g) (pr_routePath r) rq
        = Inr (cx, rq)"
    and "quota_name (d_cfg D) (pr_routePath r) \<noteq> [] \<Longrightarrow>
      gt = \<lparr>gt_route = r, gt_context = cx, gt_request = rq, gt_fault = fault, gt_now = now,
        gt_daily = daily\<rparr> \<Longrightarrow>
      authInterceptor (d_sha D) (d_cfg D) (gw_store g) (quota_env_of D fault now g) (pr_routePath r) rq
        = (let res = gate_verdict D (b_db (gw_backend g)) gt in
           if c_Allowed res then Inr (cx, fl_request (gate_flight gt))
           else Inl (QuotaExceeded (c_DenyReason res)))"
  using assms
  by (auto simp: gate_lookup_def authInterceptor_def quota_name_def [symmetric] route_quota_def [symmetric]
      gate_verdict_QuotaCheck quota_env_of_def gate_flight_def Let_def
      split: sum.splits option.splits if_splits)

section \<open>A later check is a stricter one\<close>

lemma route_quota_limits:
  assumes "config_ok cfg"
  shows "0 \<le> sint (q_Daily (route_quota cfg path))" "0 \<le> sint (q_Monthly (route_quota cfg path))"
  using config_ok_quota [OF assms] unfolding route_quota_def
  by (auto simp: quota_ok_def zero_quota_def split: option.split)

lemma window_answer_earlier:
  assumes "used \<le> used'"
  shows "window_answer fault period used' est limit = None \<Longrightarrow> window_answer fault period used est limit = None"
    and "window_answer fault period used' est limit = Some res \<Longrightarrow> c_Allowed res \<Longrightarrow>
      window_answer fault period used est limit = Some res"
  using assms by (auto simp: window_answer_def split: if_splits option.splits)

text \<open>Whether a gate would pass what is left of its check on a database.\<close>

definition passes :: "deployment \<Rightarrow> usage_db \<Rightarrow> gate \<Rightarrow> bool" where
  "passes D db gt \<longleftrightarrow>
     c_Allowed (if gt_daily gt then monthly_read D db gt else gate_verdict D db gt)"

lemma passes_earlier:
  assumes "config_ok (d_cfg D)" "ledger hist db" "ledger (hist @ recs) db'" "fits (hist @ recs)"
    and "0 \<le> sint (gate_estimate D (pr_routePath (gt_route gt)) (gt_request gt))"
    and "tally r_TotalTokens (hist @ recs)
      + sint (gate_estimate D (pr_routePath (gt_route gt)) (gt_request gt)) < 2 ^ 63"
    and "passes D db' gt"
  shows "passes D db gt"
proof -
  let ?path = "pr_routePath (gt_route gt)"
  let ?q = "route_quota (d_cfg D) ?path" and ?est = "gate_estimate D ?path (gt_request gt)"
  let ?k = "cx_localKey (gt_context gt)"
  have recs: "fits recs" by (rule fits_subseq [OF list_emb_append2 [OF subseq_order.refl] assms(4)])
  have less: "tally r_TotalTokens hist + sint ?est < 2 ^ 63"
    using assms(6) fits_filter_range(5) [OF recs, of "\<lambda>r. True"] by simp
  have mono: "used_tokens (q_Mode ?q) ?k ?path fmt (gt_now gt) hist
      \<le> used_tokens (q_Mode ?q) ?k ?path fmt (gt_now gt) (hist @ recs)" for fmt
    using used_tokens_range(1) [OF recs] by (simp add: used_tokens_append)
  note lim = route_quota_limits [OF assms(1), of ?path]
  note late = check_window_answer [OF assms(3,4,5,6) lim(1)] check_window_answer [OF assms(3,4,5,6) lim(2)]
  note early = check_window_answer [OF assms(2) fits_prefix [OF assms(4)] assms(5) less lim(1)]
    check_window_answer [OF assms(2) fits_prefix [OF assms(4)] assms(5) less lim(2)]
  note earlier = window_answer_earlier [OF mono]
  show ?thesis
    using assms(7)
    by (auto simp: passes_def gate_verdict_def daily_read_def monthly_read_def Let_def late early
        dest: earlier split: if_splits option.splits)
qed

section \<open>Matching the runs\<close>

text \<open>
  The other gateway has admitted the requests of \<open>W\<close> when their keys were looked up; apart from that it
  is in the same state.
\<close>

definition ahead :: "gate multiset \<Rightarrow> gateway \<Rightarrow> gateway \<Rightarrow> bool" where
  "ahead W g c \<longleftrightarrow> gw_store c = gw_store g \<and> gw_backend c = gw_backend g
     \<and> mset (gw_flights c) = mset (gw_flights g) + image_mset gate_flight W"

lemma ahead_env: "ahead W g c \<Longrightarrow> quota_env_of D fault now c = quota_env_of D fault now g"
  by (simp add: ahead_def quota_env_of_def)

lemma ahead_step:
  assumes "gw_step D g ev g'" "\<not> gate_event ev" "ahead W g c"
  shows "\<exists>c'. gw_step D c ev c' \<and> ahead W g' c'"
proof -
  have mem: "fl \<in> set (gw_flights c)" if "fl \<in> set (gw_flights g)" for fl
    using that assms(3) unfolding ahead_def by (metis set_mset_mset union_iff)
  have rem: "mset (remove1 fl (gw_flights c)) = mset (remove1 fl (gw_flights g)) + image_mset gate_flight W"
    if "fl \<in> set (gw_flights g)" for fl
    using that assms(3) by (simp add: ahead_def subset_eq_diff_conv [symmetric])
  have same: "gw_store c = gw_store g" "gw_backend c = gw_backend g"
    using assms(3) by (simp_all add: ahead_def)
  from assms(1) show ?thesis
  proof (cases rule: gw_step.cases)
    case (gw_add route realKey al ud rd res store)
    then show ?thesis
      using gw_step.gw_add [of D route realKey al ud rd c res store] assms(3) same
      by (intro exI [of _ "c\<lparr>gw_store := store\<rparr>"]) (simp add: ahead_def)
  next
    case (gw_delete uid found store)
    then show ?thesis
      using gw_step.gw_delete [of uid c found store D] assms(3) same
      by (intro exI [of _ "c\<lparr>gw_store := store\<rparr>"]) (simp add: ahead_def)
  next
    case (gw_silent fl upstream now tm out res)
    then show ?thesis
      using gw_step.gw_silent [OF mem gw_silent(4)] rem same
      by (intro exI [of _ "c\<lparr>gw_flights := remove1 fl (gw_flights c)\<rparr>"]) (simp add: ahead_def)
  next
    case (gw_billed fl upstream now tm out res rec bev b)
    then show ?thesis
      using gw_step.gw_billed [OF mem gw_billed(4,5), of b] rem same
      by (intro exI [of _ "c\<lparr>gw_flights := remove1 fl (gw_flights c), gw_backend := b\<rparr>"])
         (simp add: ahead_def)
  next
    case (gw_failed fl upstream now tm)
    then show ?thesis
      using gw_step.gw_failed [OF mem gw_failed(4)] rem same
      by (intro exI [of _ "c\<lparr>gw_flights := remove1 fl (gw_flights c)\<rparr>"]) (simp add: ahead_def)
  next
    case (gw_background bev b)
    then show ?thesis
      using gw_step.gw_background [OF gw_background(3), of D c b] assms(3) same
      by (intro exI [of _ "c\<lparr>gw_backend := b\<rparr>"]) (simp add: ahead_def)
  qed (use assms(2) in simp_all)
qed

lemma gw_append: "gw_run D g' evs' g'' \<Longrightarrow> gw_run D g evs g' \<Longrightarrow> gw_run D g (evs @ evs') g''"
proof (induction rule: gw_run.induct)
  case (gw_snoc evs' g1 ev g2)
  from gw_run.gw_snoc [OF gw_snoc.IH [OF gw_snoc.prems] gw_snoc.hyps(2)] show ?case by simp
qed simp

text \<open>
  \<open>W\<close> before the part \<open>evs\<close> of a run of the gates and \<open>W'\<close> after it: the gateway that is ahead can do
  the same, with each admission at the time of the lookup.
\<close>

definition keeps_ahead ::
  "deployment \<Rightarrow> gate multiset \<Rightarrow> gateway \<Rightarrow> gw_event list \<Rightarrow> gate multiset \<Rightarrow> gateway \<Rightarrow> bool" where
  "keeps_ahead D W g evs W' g' \<longleftrightarrow>
     (\<forall>c. ahead W g c \<longrightarrow> (\<exists>evs' c'. gw_run D c evs' c' \<and> ahead W' g' c'
        \<and> filter (\<lambda>e. \<not> gate_event e) evs' = filter (\<lambda>e. \<not> gate_event e) evs
        \<and> mset (filter admission_event evs) + image_mset gate_admitted W'
            = mset (filter admission_event evs') + image_mset gate_admitted W))"

lemma mset_chain:
  fixes A B C E F G H :: "'a multiset"
  assumes "A + B = E + C" "F + G = H + B"
  shows "(A + F) + G = (E + H) + C"
proof -
  have "(A + F) + G = A + (F + G)" by (simp add: add.assoc)
  also have "\<dots> = (A + B) + H" unfolding assms(2) by (simp add: ac_simps)
  also have "\<dots> = (E + H) + C" unfolding assms(1) by (simp add: ac_simps)
  finally show ?thesis .
qed

lemma keeps_ahead_trans:
  assumes "keeps_ahead D W g evs W1 g1" "keeps_ahead D W1 g1 evs' W2 g2"
  shows "keeps_ahead D W g (evs @ evs') W2 g2"
  unfolding keeps_ahead_def
proof (intro allI impI)
  fix c assume "ahead W g c"
  then obtain e1 c1 where c1: "gw_run D c e1 c1" "ahead W1 g1 c1"
      "filter (\<lambda>e. \<not> gate_event e) e1 = filter (\<lambda>e. \<not> gate_event e) evs"
      "mset (filter admission_event evs) + image_mset gate_admitted W1
        = mset (filter admission_event e1) + image_mset gate_admitted W"
    using assms(1) unfolding keeps_ahead_def by blast
  then obtain e2 c2 where "gw_run D c1 e2 c2" "ahead W2 g2 c2"
      "filter (\<lambda>e. \<not> gate_event e) e2 = filter (\<lambda>e. \<not> gate_event e) evs'"
      "mset (filter admission_event evs') + image_mset gate_admitted W2
        = mset (filter admission_event e2) + image_mset gate_admitted W1"
    using assms(2) unfolding keeps_ahead_def by blast
  with c1 show "\<exists>e c'. gw_run D c e c' \<and> ahead W2 g2 c'
      \<and> filter (\<lambda>e. \<not> gate_event e) e = filter (\<lambda>e. \<not> gate_event e) (evs @ evs')
      \<and> mset (filter admission_event (evs @ evs')) + image_mset gate_admitted W2
          = mset (filter admission_event e) + image_mset gate_admitted W"
    using mset_chain [OF c1(4)]
    by (intro exI [of _ "e1 @ e2"] exI [of _ c2]) (simp add: gw_append)
qed

text \<open>Steps the other gateway does not see, and steps it takes at the same time.\<close>

lemma keeps_ahead_still:
  assumes "\<And>c. ahead W g c \<Longrightarrow> ahead W' g' c" "\<forall>e \<in> set evs. gate_event e"
    and "mset (filter admission_event evs) + image_mset gate_admitted W' = image_mset gate_admitted W"
  shows "keeps_ahead D W g evs W' g'"
  unfolding keeps_ahead_def
proof (intro allI impI)
  fix c assume "ahead W g c"
  from assms(1) [OF this] assms(2,3)
  show "\<exists>e c'. gw_run D c e c' \<and> ahead W' g' c'
      \<and> filter (\<lambda>e. \<not> gate_event e) e = filter (\<lambda>e. \<not> gate_event e) evs
      \<and> mset (filter admission_event evs) + image_mset gate_admitted W'
          = mset (filter admission_event e) + image_mset gate_admitted W"
    by (intro exI [of _ "[]"] exI [of _ c]) (simp add: gw_nil filter_empty_conv)
qed

lemma keeps_ahead_step:
  assumes "\<And>c. ahead W g c \<Longrightarrow> \<exists>c'. gw_step D c ev c' \<and> ahead W' g' c'"
    and "filter (\<lambda>e. \<not> gate_event e) [ev] = filter (\<lambda>e. \<not> gate_event e) evs"
    and "mset (filter admission_event evs) + image_mset gate_admitted W'
      = mset (filter admission_event [ev]) + image_mset gate_admitted W"
  shows "keeps_ahead D W g evs W' g'"
  unfolding keeps_ahead_def
proof (intro allI impI)
  fix c assume "ahead W g c"
  then obtain c' where "gw_step D c ev c'" "ahead W' g' c'" using assms(1) by blast
  with gw_snoc [OF gw_nil this(1)] assms(2,3)
  show "\<exists>e c'. gw_run D c e c' \<and> ahead W' g' c'
      \<and> filter (\<lambda>e. \<not> gate_event e) e = filter (\<lambda>e. \<not> gate_event e) evs
      \<and> mset (filter admission_event evs) + image_mset gate_admitted W'
          = mset (filter admission_event e) + image_mset gate_admitted W"
    by (intro exI [of _ "[ev]"] exI [of _ c']) simp
qed

text \<open>What a gate reads does not depend on how far it is.\<close>

lemma gate_daily_update [simp]:
  "gate_flight (gt\<lparr>gt_daily := b\<rparr>) = gate_flight gt" "gate_admitted (gt\<lparr>gt_daily := b\<rparr>) = gate_admitted gt"
  "monthly_read D db (gt\<lparr>gt_daily := b\<rparr>) = monthly_read D db gt"
  "daily_read D db (gt\<lparr>gt_daily := b\<rparr>) = daily_read D db gt"
  by (simp_all add: gate_flight_def gate_admitted_def monthly_read_def daily_read_def Let_def)

lemma lookup_ahead:
  assumes "r \<in> set (d_routes D)" "gate_lookup (d_sha D) (d_cfg D) (gw_store g) (pr_routePath r) rq = Inr cx"
    and "quota_name (d_cfg D) (pr_routePath r) \<noteq> []"
    and "gt = \<lparr>gt_route = r, gt_context = cx, gt_request = rq, gt_fault = fault, gt_now = now, gt_daily = False\<rparr>"
    and "passes D (b_db (gw_backend g)) gt" "ahead W g c"
  shows "\<exists>c'. gw_step D c (gate_admitted gt) c' \<and> ahead (add_mset gt W) g c'"
proof -
  have same: "gw_store c = gw_store g" "b_db (gw_backend c) = b_db (gw_backend g)"
    using assms(6) by (simp_all add: ahead_def)
  have "c_Allowed (gate_verdict D (b_db (gw_backend c)) gt)"
    using assms(4,5) by (simp add: passes_def same)
  then have "authInterceptor (d_sha D) (d_cfg D) (gw_store c) (quota_env_of D fault now c) (pr_routePath r) rq
      = Inr (cx, fl_request (gate_flight gt))"
    using interceptor_parts(2) [OF assms(2) [folded same(1)] assms(3,4)] by (simp add: Let_def)
  from gw_admit [OF assms(1) this, of "gate_flight gt"]
  have "gw_step D c (gate_admitted gt) (c\<lparr>gw_flights := gw_flights c @ [gate_flight gt]\<rparr>)"
    by (simp add: assms(4) gate_flight_def gate_admitted_def)
  moreover have "ahead (add_mset gt W) g (c\<lparr>gw_flights := gw_flights c @ [gate_flight gt]\<rparr>)"
    using assms(6) by (simp add: ahead_def)
  ultimately show ?thesis by blast
qed

lemma free_ahead:
  assumes "r \<in> set (d_routes D)" "gate_lookup (d_sha D) (d_cfg D) (gw_store g) (pr_routePath r) rq = Inr cx"
    and "quota_name (d_cfg D) (pr_routePath r) = []" "fl = \<lparr>fl_route = r, fl_context = cx, fl_request = rq\<rparr>"
    and "ahead W g c"
  shows "\<exists>c'. gw_step D c (Admitted fault now rq fl) c'
    \<and> ahead W (g\<lparr>gw_flights := gw_flights g @ [fl]\<rparr>) c'"
proof -
  have same: "gw_store c = gw_store g" using assms(5) by (simp add: ahead_def)
  from gw_admit [OF assms(1) interceptor_parts(1) [OF assms(2) [folded same] assms(3)] assms(4)]
  show ?thesis
    using assms(5)
    by (intro exI [of _ "c\<lparr>gw_flights := gw_flights c @ [fl]\<rparr>"]) (simp add: ahead_def)
qed

lemma subset_mset_notin: "A \<subseteq># add_mset x B \<Longrightarrow> x \<notin># A \<Longrightarrow> A \<subseteq># B"
  unfolding subseteq_mset_def by (metis count_add_mset not_in_iff zero_le)

text \<open>The backward step: what is to be admitted after a step was to be admitted before it, or is now.\<close>

lemma fine_step_matched:
  assumes "fine_step D s evs s'" "W' \<subseteq># mset (ga_waiting s')"
    and "\<forall>gt \<in># W'. passes D (b_db (gw_backend (ga_gateway s))) gt"
  shows "\<exists>W. W \<subseteq># mset (ga_waiting s) \<and> (\<forall>gt \<in># W. passes D (b_db (gw_backend (ga_gateway s))) gt)
    \<and> keeps_ahead D W (ga_gateway s) evs W' (ga_gateway s')"
  using assms(1)
proof (cases rule: fine_step.cases)
  case (fs_other g ev g' w)
  have "keeps_ahead D W' g [ev] W' g'"
    by (rule keeps_ahead_step) (use ahead_step [OF fs_other(4,5)] in auto)
  with fs_other assms(2,3) show ?thesis by auto
next
  case (fs_unknown r g rq d w)
  have "keeps_ahead D W' g [Refused d] W' g" by (rule keeps_ahead_still) simp_all
  with fs_unknown assms(2,3) show ?thesis by auto
next
  case (fs_free r g rq cx fl w fault now)
  have "keeps_ahead D W' g [Admitted fault now rq fl] W' (g\<lparr>gw_flights := gw_flights g @ [fl]\<rparr>)"
    by (rule keeps_ahead_step) (use free_ahead [OF fs_free(4-7)] in auto)
  with fs_free assms(2,3) show ?thesis by auto
next
  case (fs_lookup r g rq cx gt fault now w)
  show ?thesis
  proof (cases "gt \<in># W'")
    case True
    then obtain W where W': "W' = add_mset gt W" by (metis mset_add)
    have pass: "passes D (b_db (gw_backend g)) gt" using assms(3) fs_lookup(1) True by simp
    have "keeps_ahead D W g [] W' g"
      by (rule keeps_ahead_step [where ev = "gate_admitted gt"])
         (use lookup_ahead [OF fs_lookup(4-7) pass] in \<open>auto simp: W' gate_admitted_def\<close>)
    with fs_lookup assms(2,3) W' show ?thesis by (intro exI [of _ W]) auto
  next
    case False
    then have "W' \<subseteq># mset w" using assms(2) fs_lookup(3) by (simp add: subset_mset_notin)
    moreover have "keeps_ahead D W' g [] W' g" by (rule keeps_ahead_still) simp_all
    ultimately show ?thesis using fs_lookup assms(3) by (intro exI [of _ W']) auto
  qed
next
  case (fs_daily gt w g)
  let ?gt = "gt\<lparr>gt_daily := True\<rparr>"
  have sub: "W' \<subseteq># add_mset ?gt (mset w - {#gt#})" using assms(2) fs_daily(3) by simp
  show ?thesis
  proof (cases "?gt \<in># W'")
    case True
    then obtain W where W': "W' = add_mset ?gt W" by (metis mset_add)
    have "passes D (b_db (gw_backend g)) ?gt" using assms(3) fs_daily(1) True by simp
    then have "passes D (b_db (gw_backend g)) gt"
      using fs_daily(4,6) by (simp add: passes_def gate_verdict_def)
    moreover have "W \<subseteq># mset w - {#gt#}" using sub by (simp add: W')
    then have "add_mset gt W \<subseteq># mset w" using fs_daily(5) by (simp add: insert_subset_eq_iff)
    moreover have "keeps_ahead D (add_mset gt W) g [] W' g"
      by (rule keeps_ahead_still) (simp_all add: W' ahead_def)
    ultimately show ?thesis using fs_daily assms(3) W' by (intro exI [of _ "add_mset gt W"]) auto
  next
    case False
    then have "W' \<subseteq># mset w - {#gt#}" using sub by (simp add: subset_mset_notin)
    then have "W' \<subseteq># mset w" using diff_subset_eq_self subset_mset.trans by blast
    moreover have "keeps_ahead D W' g [] W' g" by (rule keeps_ahead_still) simp_all
    ultimately show ?thesis using fs_daily assms(3) by (intro exI [of _ W']) auto
  qed
next
  case (fs_admit gt w res g)
  have "passes D (b_db (gw_backend g)) gt"
    using fs_admit(5,6) by (auto simp: passes_def gate_verdict_def split: if_splits)
  moreover have "W' \<subseteq># mset w - {#gt#}" using assms(2) fs_admit(3) by simp
  then have "add_mset gt W' \<subseteq># mset w" using fs_admit(4) by (simp add: insert_subset_eq_iff)
  moreover have "keeps_ahead D (add_mset gt W') g [gate_admitted gt] W'
      (g\<lparr>gw_flights := gw_flights g @ [gate_flight gt]\<rparr>)"
    by (rule keeps_ahead_still) (simp_all add: ahead_def gate_admitted_def)
  ultimately show ?thesis using fs_admit assms(3) by (intro exI [of _ "add_mset gt W'"]) auto
next
  case (fs_refuse gt w res g)
  have "W' \<subseteq># mset w - {#gt#}" using assms(2) fs_refuse(3) by simp
  then have "W' \<subseteq># mset w" using diff_subset_eq_self subset_mset.trans by blast
  moreover have "keeps_ahead D W' g [Refused (QuotaExceeded (c_DenyReason res))] W' g"
    by (rule keeps_ahead_still) simp_all
  ultimately show ?thesis using fs_refuse assms(3) by (intro exI [of _ W']) auto
qed

lemma fine_step_ledger:
  assumes "fine_step D s evs s'" "ledger hist (b_db (gw_backend (ga_gateway s)))" "fits (hist @ tried evs)"
  shows "ledger (hist @ committed (backend_events evs)) (b_db (gw_backend (ga_gateway s')))"
  using assms(1)
proof (cases rule: fine_step.cases)
  case (fs_other g ev g' w)
  from run_ledger [OF gw_run_backend [OF gw_snoc [OF gw_nil fs_other(4)]]] show ?thesis
    using assms(2,3) fs_other by (simp add: tried_def)
qed (use assms(2) in \<open>simp_all add: committed_def gate_admitted_def\<close>)

lemma keeps_ahead_admitted:
  assumes "keeps_ahead D W g evs {#} g'" "gt \<in># W"
  shows "gate_admitted gt \<in> set evs"
proof -
  obtain ws where ws: "mset ws = W" using ex_mset by blast
  then have "ahead W g (g\<lparr>gw_flights := gw_flights g @ map gate_flight ws\<rparr>)"
    by (simp add: ahead_def flip: ws)
  then obtain evs' where "mset (filter admission_event evs) + image_mset gate_admitted {#}
      = mset (filter admission_event evs') + image_mset gate_admitted W"
    using assms(1) unfolding keeps_ahead_def by blast
  then have "gate_admitted gt \<in># mset (filter admission_event evs)" using assms(2) by simp
  then show ?thesis by simp
qed

section \<open>Whole runs\<close>

text \<open>The estimates of the admitted requests stay in 64 bits together with \<open>N\<close> tokens.\<close>

definition small_requests :: "deployment \<Rightarrow> int \<Rightarrow> gw_event list \<Rightarrow> bool" where
  "small_requests D N evs \<longleftrightarrow>
     (\<forall>fault now rq fl. Admitted fault now rq fl \<in> set evs \<longrightarrow>
        0 \<le> sint (gate_estimate D (pr_routePath (fl_route fl)) rq)
        \<and> N + sint (gate_estimate D (pr_routePath (fl_route fl)) rq) < 2 ^ 63)"

lemma small_requestsD:
  "small_requests D N evs \<Longrightarrow> gate_admitted gt \<in> set evs \<Longrightarrow>
    0 \<le> sint (gate_estimate D (pr_routePath (gt_route gt)) (gt_request gt))
    \<and> N + sint (gate_estimate D (pr_routePath (gt_route gt)) (gt_request gt)) < 2 ^ 63"
  by (force simp: small_requests_def gate_admitted_def gate_flight_def)

lemma subseq_committed: "subseq (committed (backend_events evs)) (tried evs)"
  unfolding committed_def tried_def by (intro subseq_map subseq_filter_left)

lemma tally_subseq:
  "subseq xs ys \<Longrightarrow> \<forall>r \<in> set ys. 0 \<le> sint (f r) \<Longrightarrow> tally f xs \<le> tally f ys"
proof (induction rule: list_emb.induct)
  case (list_emb_Nil ys)
  then show ?case by (simp add: tally_nonneg)
qed auto

lemma tally_part: "subseq xs ys \<Longrightarrow> fits ys \<Longrightarrow> tally r_TotalTokens xs \<le> tally r_TotalTokens ys"
  using tally_subseq [of xs ys r_TotalTokens] by (simp add: fits_def)

lemma fine_run_matched:
  assumes "fine_run D s evs s'" "config_ok (d_cfg D)"
    and "ledger hist (b_db (gw_backend (ga_gateway s)))" "fits (hist @ tried evs)"
    and "tally r_TotalTokens (hist @ tried evs) \<le> N" "small_requests D N evs"
  shows "\<exists>W. W \<subseteq># mset (ga_waiting s) \<and> (\<forall>gt \<in># W. passes D (b_db (gw_backend (ga_gateway s))) gt)
    \<and> keeps_ahead D W (ga_gateway s) evs {#} (ga_gateway s')"
  using assms(1,3-6)
proof (induction arbitrary: hist rule: fine_run.induct)
  case (fr_nil s)
  have "keeps_ahead D {#} (ga_gateway s) [] {#} (ga_gateway s)" by (rule keeps_ahead_still) simp_all
  then show ?case by (intro exI [of _ "{#}"]) simp
next
  case (fr_cons s ev s1 evs s')
  let ?recs = "committed (backend_events ev)"
  have sub: "subseq (hist @ ?recs) (hist @ tried (ev @ evs))"
      "subseq (hist @ ?recs @ tried evs) (hist @ tried (ev @ evs))"
    using subseq_committed [of ev] by (simp_all add: list_emb_append_mono list_emb_prefix)
  note fits = fits_subseq [OF sub(1) fr_cons.prems(2)] fits_subseq [OF sub(2) fr_cons.prems(2)]
  have sum: "tally r_TotalTokens (hist @ ?recs) \<le> N" "tally r_TotalTokens (hist @ ?recs @ tried evs) \<le> N"
    using tally_part [OF sub(1) fr_cons.prems(2)] tally_part [OF sub(2) fr_cons.prems(2)] fr_cons.prems(3)
    by linarith+
  have small: "small_requests D N evs" using fr_cons.prems(4) by (auto simp: small_requests_def)
  have "fits (hist @ tried ev)" using fits_prefix [of "hist @ tried ev" "tried evs"] fr_cons.prems(2) by simp
  note led = fine_step_ledger [OF fr_cons.hyps(1) fr_cons.prems(1) this]
  from fr_cons.IH [OF led] fits(2) sum(2) small
  obtain W1 where W1: "W1 \<subseteq># mset (ga_waiting s1)"
      "\<forall>gt \<in># W1. passes D (b_db (gw_backend (ga_gateway s1))) gt"
      "keeps_ahead D W1 (ga_gateway s1) evs {#} (ga_gateway s')"
    by auto
  have "\<forall>gt \<in># W1. passes D (b_db (gw_backend (ga_gateway s))) gt"
  proof
    fix gt assume gt: "gt \<in># W1"
    note est = small_requestsD [OF small keeps_ahead_admitted [OF W1(3) gt]]
    then show "passes D (b_db (gw_backend (ga_gateway s))) gt"
      using passes_earlier [OF assms(2) fr_cons.prems(1) led fits(1)] W1(2) gt sum(1) by force
  qed
  from fine_step_matched [OF fr_cons.hyps(1) W1(1) this] obtain W where
    "W \<subseteq># mset (ga_waiting s)" "\<forall>gt \<in># W. passes D (b_db (gw_backend (ga_gateway s))) gt"
    "keeps_ahead D W (ga_gateway s) ev W1 (ga_gateway s1)" by blast
  with keeps_ahead_trans [OF this(3) W1(3)] show ?case by blast
qed

text \<open>The other direction: a step of the gateway is also one in parts, with nothing in between.\<close>

lemma lookup_of_interceptor:
  "authInterceptor (d_sha D) (d_cfg D) (gw_store g) (quota_env_of D fault now g) (pr_routePath r) rq = Inr (cx, rq')
    \<Longrightarrow> gate_lookup (d_sha D) (d_cfg D) (gw_store g) (pr_routePath r) rq = Inr cx"
  "authInterceptor (d_sha D) (d_cfg D) (gw_store g) (quota_env_of D fault now g) (pr_routePath r) rq = Inl d
    \<Longrightarrow> gate_lookup (d_sha D) (d_cfg D) (gw_store g) (pr_routePath r) rq \<noteq> Inl d
    \<Longrightarrow> \<exists>cx. gate_lookup (d_sha D) (d_cfg D) (gw_store g) (pr_routePath r) rq = Inr cx
      \<and> quota_name (d_cfg D) (pr_routePath r) \<noteq> []"
  by (auto simp: authInterceptor_def gate_lookup_def quota_name_def Let_def
      split: sum.splits option.splits if_splits)

text \<open>A gate that has looked its key up ends by its verdict when nothing comes in between.\<close>

lemma gate_ends:
  assumes "\<not> gt_daily gt"
  shows "fine_run D \<lparr>ga_gateway = g, ga_waiting = [gt]\<rparr>
    [if c_Allowed (gate_verdict D (b_db (gw_backend g)) gt) then gate_admitted gt
     else Refused (QuotaExceeded (c_DenyReason (gate_verdict D (b_db (gw_backend g)) gt)))]
    \<lparr>ga_gateway = if c_Allowed (gate_verdict D (b_db (gw_backend g)) gt)
       then g\<lparr>gw_flights := gw_flights g @ [gate_flight gt]\<rparr> else g, ga_waiting = []\<rparr>"
proof -
  have verdict: "fine_run D \<lparr>ga_gateway = g, ga_waiting = [gt']\<rparr>
      [if c_Allowed res then gate_admitted gt' else Refused (QuotaExceeded (c_DenyReason res))]
      \<lparr>ga_gateway = if c_Allowed res then g\<lparr>gw_flights := gw_flights g @ [gate_flight gt']\<rparr> else g,
       ga_waiting = []\<rparr>"
    if "if gt_daily gt' then res = monthly_read D (b_db (gw_backend g)) gt'
      else daily_read D (b_db (gw_backend g)) gt' = Some res" for gt' res
    using fr_cons [OF fs_admit [of gt' "[gt']", OF _ that] fr_nil]
      fr_cons [OF fs_refuse [of gt' "[gt']", OF _ that] fr_nil] by simp
  show ?thesis
  proof (cases "daily_read D (b_db (gw_backend g)) gt")
    case None
    let ?gt = "gt\<lparr>gt_daily := True\<rparr>"
    have "fine_step D \<lparr>ga_gateway = g, ga_waiting = [gt]\<rparr> [] \<lparr>ga_gateway = g, ga_waiting = [?gt]\<rparr>"
      using fs_daily [OF assms, of "[gt]" D g] None by simp
    from fr_cons [OF this verdict [of ?gt "monthly_read D (b_db (gw_backend g)) gt"]]
    show ?thesis by (simp add: gate_verdict_def None split: if_splits)
  next
    case (Some res)
    from verdict [of gt res] show ?thesis by (simp add: gate_verdict_def Some assms split: if_splits)
  qed
qed

lemma gate_in_parts:
  assumes "r \<in> set (d_routes D)"
    and "gate_lookup (d_sha D) (d_cfg D) (gw_store g) (pr_routePath r) rq = Inr cx"
    and "quota_name (d_cfg D) (pr_routePath r) \<noteq> []"
    and "gt = \<lparr>gt_route = r, gt_context = cx, gt_request = rq, gt_fault = fault, gt_now = now, gt_daily = False\<rparr>"
  shows "fine_run D \<lparr>ga_gateway = g, ga_waiting = []\<rparr>
    [if c_Allowed (gate_verdict D (b_db (gw_backend g)) gt) then gate_admitted gt
     else Refused (QuotaExceeded (c_DenyReason (gate_verdict D (b_db (gw_backend g)) gt)))]
    \<lparr>ga_gateway = if c_Allowed (gate_verdict D (b_db (gw_backend g)) gt)
       then g\<lparr>gw_flights := gw_flights g @ [gate_flight gt]\<rparr> else g, ga_waiting = []\<rparr>"
  using fr_cons [OF fs_lookup [OF assms, of "[]"] gate_ends [of gt D g]] assms(4) by simp

lemma fine_append: "fine_run D s evs s' \<Longrightarrow> fine_run D s' evs' s'' \<Longrightarrow> fine_run D s (evs @ evs') s''"
proof (induction rule: fine_run.induct)
  case (fr_cons s ev s1 evs s')
  from fine_run.fr_cons [OF fr_cons.hyps(1) fr_cons.IH [OF fr_cons.prems]] show ?case by simp
qed simp

lemma gw_step_in_parts:
  assumes "gw_step D g ev g'"
  shows "fine_run D \<lparr>ga_gateway = g, ga_waiting = []\<rparr> [ev] \<lparr>ga_gateway = g', ga_waiting = []\<rparr>"
proof (cases "gate_event ev")
  case False
  from fr_cons [OF fs_other [OF assms False] fr_nil] show ?thesis by simp
next
  case True
  from assms show ?thesis
  proof (cases rule: gw_step.cases)
    case (gw_admit r fault now rq cx rq' fl)
    note look = lookup_of_interceptor(1) [OF gw_admit(4)]
    show ?thesis
    proof (cases "quota_name (d_cfg D) (pr_routePath r) = []")
      case True
      with interceptor_parts(1) [OF look True, of fault now] gw_admit
      have "fl = \<lparr>fl_route = r, fl_context = cx, fl_request = rq\<rparr>" by simp
      from fr_cons [OF fs_free [OF gw_admit(3) look True this] fr_nil] show ?thesis
        using gw_admit by simp
    next
      case False
      show ?thesis
        using gate_in_parts [OF gw_admit(3) look False refl, of fault now]
          interceptor_parts(2) [OF look False refl, of fault now False] gw_admit(1,2,4,5)
        by (auto simp: Let_def gate_admitted_def gate_flight_def split: if_splits)
    qed
  next
    case (gw_refuse r fault now rq d)
    show ?thesis
    proof (cases "gate_lookup (d_sha D) (d_cfg D) (gw_store g) (pr_routePath r) rq = Inl d")
      case True
      from fr_cons [OF fs_unknown [OF gw_refuse(3) True] fr_nil] show ?thesis using gw_refuse by simp
    next
      case False
      then obtain cx where look: "gate_lookup (d_sha D) (d_cfg D) (gw_store g) (pr_routePath r) rq = Inr cx"
          "quota_name (d_cfg D) (pr_routePath r) \<noteq> []"
        using lookup_of_interceptor(2) [OF gw_refuse(4)] by blast
      show ?thesis
        using gate_in_parts [OF gw_refuse(3) look refl, of fault now]
          interceptor_parts(2) [OF look refl, of fault now False] gw_refuse(1,2,4)
        by (auto simp: Let_def split: if_splits)
    qed
  qed (use True in simp_all)
qed

lemma gw_run_in_parts:
  "gw_run D g evs g' \<Longrightarrow> fine_run D \<lparr>ga_gateway = g, ga_waiting = []\<rparr> evs \<lparr>ga_gateway = g', ga_waiting = []\<rparr>"
proof (induction rule: gw_run.induct)
  case (gw_snoc evs g' ev g'')
  from fine_append [OF gw_snoc.IH gw_step_in_parts [OF gw_snoc.hyps(2)]] show ?case .
qed (rule fr_nil)

section \<open>Property\<close>

text \<open>
  C6. The interceptor need not be atomic. Take a run in which the lookup of the key, the read of the
  day and the read of the month are separate steps, with revocations, bookings and other requests in
  between, from a database that accounts for its records, on which no count is negative and all totals,
  with each estimate added, stay within 64 bits (\<open>ledger\<close>, \<open>fits\<close>, \<open>small_requests\<close>). Then the
  gateway reaches the same key store, the same queue and tables and the same requests in flight with
  an interceptor that reads everything at once, when it looks the key up: it admits the same requests,
  and the events other than admissions and refusals are the same in the same order. Refusals, which
  change nothing of this state, are not matched: who is refused at a late read may have no counterpart
  in the other run. (Usage only grows, so whoever passes a window later would have passed it earlier.)
\<close>

theorem admission_is_atomic:
  assumes "deployed D" "fine_run D \<lparr>ga_gateway = g, ga_waiting = []\<rparr> evs s"
    and "ledger hist (b_db (gw_backend g))" "fits (hist @ tried evs)"
    and "small_requests D (tally r_TotalTokens (hist @ tried evs)) evs"
  shows "\<exists>evs' g'. gw_run D g evs' g' \<and> gw_store g' = gw_store (ga_gateway s)
    \<and> gw_backend g' = gw_backend (ga_gateway s)
    \<and> mset (gw_flights g') = mset (gw_flights (ga_gateway s))
    \<and> filter (\<lambda>e. \<not> gate_event e) evs' = filter (\<lambda>e. \<not> gate_event e) evs
    \<and> mset (filter admission_event evs') = mset (filter admission_event evs)"
proof -
  have "config_ok (d_cfg D)" using assms(1) by (simp add: deployed_def)
  from fine_run_matched [OF assms(2) this _ assms(4) order.refl assms(5)] assms(3)
  have "keeps_ahead D {#} g evs {#} (ga_gateway s)" by simp
  moreover have "ahead {#} g g" by (simp add: ahead_def)
  ultimately obtain evs' g' where "gw_run D g evs' g'" "ahead {#} (ga_gateway s) g'"
      "filter (\<lambda>e. \<not> gate_event e) evs' = filter (\<lambda>e. \<not> gate_event e) evs"
      "mset (filter admission_event evs) = mset (filter admission_event evs')"
    unfolding keeps_ahead_def by force
  then show ?thesis unfolding ahead_def by (intro exI [of _ evs'] exI [of _ g']) simp
qed

text \<open>For the instance: the key is revoked between the lookup and the reads.\<close>

definition sample_gate :: gate where
  "sample_gate = \<lparr>gt_route = sample_route, gt_context = fl_context sample_flight,
     gt_request = sample_request, gt_fault = no_query_fault, gt_now = sample_time, gt_daily = False\<rparr>"

lemma sample_gate_flight: "gate_flight sample_gate = sample_flight"
  by (simp add: gate_flight_def sample_gate_def sample_flight_def checked_request_def ResolveQuota_def)

lemma sample_gate_passes: "c_Allowed (gate_verdict sample_deployment empty_db sample_gate)"
proof -
  have "route_quota sample_config ''/a'' = sample_quota" by (simp add: route_quota_def quota_name_def)
  then show ?thesis
    using sample_allowed [of "internal_key_of ''xy''"]
    by (simp add: gate_verdict_QuotaCheck Let_def sample_gate_def sample_flight_def context_of_def
        sample_path sample_deployment_def sample_provider_of quota_result_def ResolveQuota_def sample_env_def)
qed

lemma sample_gate_run:
  "fine_run sample_deployment \<lparr>ga_gateway = sample_gateway, ga_waiting = []\<rparr>
     [KeyDeleted ''u'' True, gate_admitted sample_gate]
     \<lparr>ga_gateway = sample_gateway\<lparr>gw_store := snd (DeleteKey ''u'' sample_store), gw_flights := [sample_flight]\<rparr>,
      ga_waiting = []\<rparr>"
proof -
  let ?D = sample_deployment
  let ?g = "sample_gateway\<lparr>gw_store := snd (DeleteKey ''u'' sample_store)\<rparr>"
  obtain r cx rq' where "r \<in> set (d_routes ?D)" "sample_flight = \<lparr>fl_route = r, fl_context = cx, fl_request = rq'\<rparr>"
      "gate_lookup (d_sha ?D) (d_cfg ?D) (gw_store sample_gateway) (pr_routePath r) sample_request = Inr cx"
    by (rule gw_admitE [OF sample_admitted [unfolded sample_admission_def]])
       (blast dest: lookup_of_interceptor(1))
  then have look: "sample_route \<in> set (d_routes ?D)"
      "gate_lookup (d_sha ?D) (d_cfg ?D) (gw_store sample_gateway) (pr_routePath sample_route) sample_request
        = Inr (fl_context sample_flight)"
    by (auto simp: sample_flight_def)
  have "quota_name (d_cfg ?D) (pr_routePath sample_route) \<noteq> []"
    by (simp add: quota_name_def sample_deployment_def sample_path)
  note start = fs_lookup [OF look this sample_gate_def, of "[]"]
  have "handle_DeleteKey ''u'' (gw_store sample_gateway) = (True, snd (DeleteKey ''u'' sample_store))"
    by (simp add: handle_DeleteKey_def sample_gateway_def DeleteKey_def sample_keys)
  from fs_other [OF gw_delete [OF this], of ?D "[sample_gate]"]
  have del: "fine_step ?D \<lparr>ga_gateway = sample_gateway, ga_waiting = [sample_gate]\<rparr> [KeyDeleted ''u'' True]
      \<lparr>ga_gateway = ?g, ga_waiting = [sample_gate]\<rparr>"
    by simp
  have "b_db (gw_backend ?g) = empty_db" "gw_flights ?g = []"
    by (simp_all add: sample_gateway_def gw_start_def NewUsageBackend_def)
  then have "fine_run ?D \<lparr>ga_gateway = ?g, ga_waiting = [sample_gate]\<rparr> [gate_admitted sample_gate]
      \<lparr>ga_gateway = ?g\<lparr>gw_flights := [sample_flight]\<rparr>, ga_waiting = []\<rparr>"
    using gate_ends [of sample_gate ?D ?g] sample_gate_passes
    by (simp add: sample_gate_flight) (simp add: sample_gate_def)
  from fr_cons [OF start fr_cons [OF del this]] show ?thesis by simp
qed

lemma admission_is_atomic_witness:
  "\<exists>evs g'. gw_run sample_deployment sample_gateway evs g'
    \<and> gw_store g' = snd (DeleteKey ''u'' sample_store) \<and> gw_flights g' = [sample_flight]
    \<and> filter (\<lambda>e. \<not> gate_event e) evs = [KeyDeleted ''u'' True]"
proof -
  have led: "ledger [] (b_db (gw_backend sample_gateway))"
    using ledger_empty by (simp add: sample_gateway_def gw_start_def NewUsageBackend_def)
  have none: "tried [KeyDeleted ''u'' True, gate_admitted sample_gate] = []"
    by (simp add: tried_def gate_admitted_def)
  have "gate_estimate sample_deployment ''/a'' sample_request = 1"
    by (simp add: gate_estimate_def sample_deployment_def sample_provider_of sample_request_def
        estimateInputTokens_def sample_gjson_def sample_provider_def quot_int64_def)
  then have small: "small_requests sample_deployment 0 [KeyDeleted ''u'' True, gate_admitted sample_gate]"
    by (simp add: small_requests_def gate_admitted_def sample_gate_flight sample_flight_def sample_path)
       (simp add: sample_gate_def)
  have fits: "fits ([] @ tried [KeyDeleted ''u'' True, gate_admitted sample_gate])"
    and "small_requests sample_deployment (tally r_TotalTokens ([] @ tried [KeyDeleted ''u'' True,
      gate_admitted sample_gate])) [KeyDeleted ''u'' True, gate_admitted sample_gate]"
    using small by (simp_all only: none append_Nil) (simp_all add: fits_def)
  from admission_is_atomic [OF sample_deployed sample_gate_run led this] obtain evs g' where
    "gw_run sample_deployment sample_gateway evs g'" "gw_store g' = snd (DeleteKey ''u'' sample_store)"
    "mset (gw_flights g') = {#sample_flight#}"
    "filter (\<lambda>e. \<not> gate_event e) evs = [KeyDeleted ''u'' True]"
    by (auto simp: gate_admitted_def)
  then show ?thesis by auto
qed

end
