(* ===== verification/Spec2Isabelle.thy ===== *)
theory Spec2Isabelle
  imports ServerRun Console Secrecy StoreLock Admission
begin

text \<open>
  A verification development for ai.local, a self-hosted gateway between local clients and the
  vendors of language models. The administrator describes providers, routes and quotas in an APML
  file and issues local keys over a control plane (gRPC). The data plane is a reverse proxy: it
  authenticates a local key for the route of the request, checks the token quota, replaces the local
  key by the vendor's key, forwards the request, reads the token counts out of the vendor's answer and
  hands a usage record to a background worker, which writes it to three SQLite tables. The quota
  check of later requests reads two of these tables.

  \<^bold>\<open>Theories.\<close> In the order of their imports:

  \<^item> \<open>Prelude\<close>: \<open>int64\<close> as a 64-bit word, Go maps as association lists, loops over a map that return
    at the first error, reachable states, the interface \<open>inductive_invariant\<close>, and a rule for what
    happens eventually when a measure decreases.
  \<^item> \<open>GoStrings\<close>, \<open>GoFormat\<close>, \<open>GoHttp\<close>, \<open>GoNet\<close>, \<open>GoUrl\<close>, \<open>GoFlag\<close>: the parts of Go's standard
    library the program uses (\<open>strings\<close>, \<open>textproto\<close>, \<open>hex\<close>, \<open>fmt\<close>, \<open>time\<close>, \<open>http.Header\<close>, the
    hop-by-hop rules of \<open>httputil.ReverseProxy\<close>, bodies; host, port and IP addresses of \<open>net\<close>;
    \<open>url.Parse\<close> as of Go 1.26; \<open>flag\<close> with the numbers of \<open>strconv\<close>). A Go string is its list of
    bytes.
  \<^item> \<open>KeyStore\<close>: \<open>internal/keystore/store.go\<close>. The record \<open>key_store\<close> has the two indexes of the
    \<open>Store\<close> struct; \<open>AddKey\<close>, \<open>DeleteKey\<close>, \<open>ListKeys\<close>, \<open>GetKeyByInternal\<close> and \<open>MaskKey\<close> are its
    methods. \<open>store_ok\<close> is the invariant, \<open>ks_step\<close> the history of a store. \<open>StoreLock\<close>: the same
    methods one access to a map at a time, by concurrent threads under the \<open>RWMutex\<close>
    (\<open>locked_step\<close>); \<open>implements\<close> relates it to the store of atomic methods.
  \<^item> \<open>APML\<close>: \<open>internal/apml/types.go\<close> and \<open>parser.go\<close>. \<open>validate\<close> has one error constructor for each
    \<open>return\<close>; \<open>config_ok\<close> is the specification of an accepted configuration.
  \<^item> \<open>UsageDb\<close>: \<open>schema/usage.sql\<close> and the statements of \<open>executeTripleWrite\<close> in
    \<open>internal/usage/worker.go\<close>, with a fault at every call on the database.
  \<^item> \<open>UsageLedger\<close>: what the tables mean. \<open>ledger hist db\<close> says that the database accounts for the
    list \<open>hist\<close> of records; the interface \<open>token_ledger\<close> is interpreted on the daily and the monthly
    table.
  \<^item> \<open>UsageWorker\<close>: the rest of \<open>internal/usage/worker.go\<close>. \<open>backend_step\<close> has one rule for each
    atomic step of a producer (\<open>EmitNonBlocking\<close>), of the goroutine and of \<open>Stop\<close>. \<open>UsageLive\<close>:
    infinite runs of it under a fair scheduler, for what happens eventually.
  \<^item> \<open>Json\<close>, \<open>UsageStore\<close>: \<open>internal/usage/store.go\<close>, the quota check and the statistics queries.
  \<^item> \<open>UsageParser\<close>: \<open>internal/usage/parser.go\<close>, with the line scanner of \<open>bufio\<close>.
  \<^item> \<open>Proxy\<close>: \<open>internal/proxy/proxy.go\<close>. \<open>setupRoutes\<close> builds the routes, \<open>authInterceptor\<close> and
    \<open>Rewrite\<close> and \<open>ModifyResponse\<close> are the functions and closures of that name, \<open>serve\<close> composes
    them for one request. A stream has its own record of timing (\<open>stream_timing\<close>): how far the copy
    to the client and the parser behind the pipe have come. An answer 101 joins the connections
    (\<open>upgrade_fault\<close>).
  \<^item> \<open>LogX\<close>: \<open>internal/logx/logger.go\<close>. \<open>Admin\<close>: the remote calls of \<open>grpc/handler.go\<close>. \<open>Certs\<close>:
    \<open>internal/tls/cert.go\<close> and \<open>grpc/tls.go\<close>.
  \<^item> \<open>Cli\<close>: \<open>cmd/cli/main.go\<close> and \<open>stats.go\<close>, from the arguments to the exit status. \<open>cli_main\<close> acts on
    a server through the calls of \<open>admin_client\<close>; \<open>direct_client\<close> is the handlers of \<open>Admin\<close>.
  \<^item> \<open>Gateway\<close>: the key store, the requests in flight and the usage backend as one step relation
    \<open>gw_step\<close>, in which administration, admission, answers and the worker interleave. \<open>Admission\<close>: the
    interceptor in three steps (\<open>fine_step\<close>: key store, day, month), with other steps in between.
  \<^item> \<open>AuditLog\<close>: what all these write to the log, one function \<open>f_log\<close> beside each operation \<open>f\<close>;
    \<open>audit_step\<close> is \<open>gw_step\<close> with the logger. \<open>AuditTrail\<close>: what the log says of a run. \<open>Secrecy\<close>: what
    it does not say. \<open>Console\<close>: the client of \<open>Cli\<close> against the running gateway, over a network that may
    lose the request or the reply (\<open>running_client\<close>).
  \<^item> \<open>ServerMain\<close>: paths, names and flags of \<open>cmd/server/main.go\<close>, and the plan of its steps. \<open>Server\<close>:
    \<open>boot\<close>, which is \<open>main\<close> over the other components with each failing branch, its messages and its
    exit status, with \<open>grpc/server.go\<close> and \<open>InitSchema\<close>. \<open>ServerRun\<close>: the process from then on,
    \<open>server_step\<close>: listeners, backup, gateway, signal, shutdown.
  \<^item> \<open>Spec2Isabelle\<close> (this theory): the properties that span components.

  \<^bold>\<open>What is shown.\<close> For the key store, the two indexes implement one map from digests to records
  (a refinement), every reachable store is well formed, the locked methods are linearizable, free of
  races and never all blocked, issuing and revoking act at once and on
  nothing else. For the configuration, \<open>validate\<close> is equivalent to \<open>config_ok\<close> (which accepts
  a plan version with a leading digit, as the code does, against \<open>docs/APML-Spec.md\<close>) and does not
  depend on the order in which Go iterates a map. For the usage tables, a committed write keeps the ledger, a
  failed one changes nothing, and the monthly rows are the sums of the daily rows. For the worker, in
  every interleaving the accepted records are those processed, in flight and queued; the database
  accounts for the committed ones; \<open>Stop\<close> terminates when no producer interferes; and the exit of the
  worker is the exact boundary after which accepted records are no longer written. The decision of
  the quota check, with what a failing query does, and the statistics are stated as sums over the
  ledger's records. Their days and months are those of the server's local clock
  (\<open>quota_day_is_local\<close>), where the documents say UTC. The proxy's gate
  (\<open>serve_gate\<close>) says exactly when a request is refused, with which status; others state the exchange
  of the credential, the body, the billing, the delivery of streams and the absence of panics. For the
  gateway as a whole, every admitted request is accounted for in every interleaving, every charge
  goes back to an admission, the lost records and the refused requests are exactly those the log
  names (\<open>losses_are_logged\<close>, \<open>refusals_are_logged\<close>), neither the log nor the tables depend on the vendors'
  keys (\<open>log_hides_vendor_keys\<close>), though the issued keys are in the log, and \<open>quota_overshoot\<close>
  bounds by how much requests that overlap can exceed a limit together. What happens between the
  reads of an admission adds nothing to that (\<open>admission_is_atomic\<close>). One call of the client is at most
  one step of the gateway, and a reported success has happened there (\<open>client_is_one_step\<close>); a key
  whose reply was lost stays live (\<open>lost_reply_keeps_key\<close>). Under a fair scheduler each record
  accepted before the worker exits is eventually processed and \<open>Stop\<close> eventually returns. For the process, \<open>server_refines_gateway\<close> says that all this holds for
  whatever \<open>main\<close> starts; others say how a start fails, what the exit status means, what a clean end
  has accounted for and what it can lose. This theory joins the rest: a key that the administrator's
  client reports opens the proxy on its route only, a deleted key is refused, and what was served
  counts against the quota.

  \<^bold>\<open>Interfaces.\<close> \<open>credential_pool\<close> (KeyStore), \<open>token_ledger\<close> (UsageLedger), \<open>row_order\<close> (UsageStore),
  \<open>bounded_queue\<close> (UsageWorker), \<open>admin_service\<close> (Cli), \<open>stepwise_service\<close> (Console),
  \<open>forward_simulation\<close> (StoreLock) and
  \<open>inductive_invariant\<close> (Prelude, interpreted for the key store and the logger) state what one part
  relies on; each is interpreted on the definitions of the code.

  \<^bold>\<open>Bounds.\<close> Token counts are 64-bit words as in Go. A sum of SQLite that leaves 64 bits continues in
  floating point, so a cell is an integer or a double; the hypothesis \<open>fits\<close> (no count is negative
  and the total of each stays under \<open>2 ^ 63\<close>) is what rules the second out, and it is stated wherever it is
  used. The queue has 1024 places (\<open>defaultQueueSize\<close>) and the scanner takes lines of less than 64 KiB
  (\<open>max_token_size\<close>), both as in the code. No definition uses fuel: the recursions are structural
  or have a termination proof. The number of worker steps after \<open>Stop\<close> is bounded by
  \<open>drain_measure\<close>, two steps for each queued record plus at most three.

  \<^bold>\<open>Arguments of the model\<close>, for code outside the repository: SHA-256 (\<open>sha\<close>, any function), the random
  draws, the YAML library (\<open>yaml_codec\<close>), gjson and sjson (\<open>gjson\<close>, \<open>sjson\<close>), the arithmetic of
  SQLite on doubles and its text of a time (\<open>sqlite\<close>), the faults of the database and the file system,
  the cryptography of certificates, the verdict of the router on a list of patterns (\<open>be_router\<close>),
  the answers to the client's prompts, the texts of errors (\<open>%v\<close>) and \<open>strconv.Quote\<close>
  (\<open>log_texts\<close>), what the network does with a remote call (\<open>delivery\<close>), and the vendor (\<open>upstream\<close>).

  \<^bold>\<open>Not modelled.\<close> The router of gin (which registered route a request belongs to is an argument of
  \<open>serve\<close>) and the transports under the listeners; what is exchanged over an upgraded connection;
  what the package \<open>flag\<close> prints, the editing of \<open>promptui\<close>, the layout of \<open>tabwriter\<close>; the generated
  code of \<open>proto/\<close>, whose messages appear as records; the embedding of the schema
  (\<open>schema/schema.go\<close>). The log of a run has the lines of each operation in one piece, where lines of
  concurrent operations can mix. A process that is killed from outside ends like a crash: what was
  queued is lost.
\<close>

section \<open>From the administrator to the proxy\<close>

text \<open>A request carries a key the way the provider of its route expects it.\<close>

definition carries_key :: "apml_config \<Rightarrow> string \<Rightarrow> request \<Rightarrow> string \<Rightarrow> bool" where
  "carries_key cfg routePath rq k \<longleftrightarrow>
     (case auth_header_key (provider_of cfg routePath) of
        (H, True) \<Rightarrow> header_get (rq_Header rq) H = k
      | (H, False) \<Rightarrow> header_get (rq_Header rq) H = ''Bearer '' @ k)"

lemma carries_key_presented:
  assumes "carries_key cfg routePath rq k" "list_all visible k" "k \<noteq> []"
  shows "presented_key (provider_of cfg routePath) (rq_Header rq) = Inr k"
proof -
  obtain H custom where ah: "auth_header_key (provider_of cfg routePath) = (H, custom)"
    by fastforce
  show ?thesis
  proof (cases custom)
    case True
    with ah have a: "auth_header_key (provider_of cfg routePath) = (H, True)" by simp
    show ?thesis
      by (rule presented_custom [OF a assms(2,3)]) (use assms(1) in \<open>simp add: carries_key_def a\<close>)
  next
    case False
    then have "H = ''Authorization''"
      using ah by (auto simp: auth_header_key_def split: option.splits if_splits)
    with False ah have a: "auth_header_key (provider_of cfg routePath) = (''Authorization'', False)"
      by simp
    show ?thesis
      by (rule presented_bearer [OF a assms(2,3)]) (use assms(1) in \<open>simp add: carries_key_def a\<close>)
  qed
qed

lemma issued_key:
  assumes "store_ok sha store" "fresh_for sha uid bytes store"
    and "handle_AddKey sha cfg route realKey al (Inr uid) (Inr bytes) store = (Inr k, store')"
    and "carries_key cfg path rq k"
  shows "(path = route \<longrightarrow> (\<exists>a. authenticated sha cfg store' route rq k a \<and> kr_RealKey a = realKey))
    \<and> (path \<noteq> route \<longrightarrow> (\<exists>d. authInterceptor sha cfg store' env path rq = Inl d \<and> deny_status d = 401))"
proof -
  let ?r = "new_record sha route realKey al uid bytes"
  obtain r where r: "AddKey sha route realKey al (Inr uid) (Inr bytes) store = (Inr r, store')"
      "k = kr_InternalKey r"
    using assms(3) by (auto simp: handle_AddKey_def split: if_splits prod.splits sum.splits)
  from records_AddKey(1) [OF r(1) assms(2)] r
  have add: "AddKey sha route realKey al (Inr uid) (Inr bytes) store = (Inr ?r, store')"
    and k: "k = internal_key_of bytes"
    by simp_all
  have "store_ok sha (snd (AddKey sha route realKey al (Inr uid) (Inr bytes) store))"
    by (rule AddKey_ok) (use assms(1,2) in auto)
  then have ok: "store_ok sha store'" by (simp add: add)
  have pk: "presented_key (provider_of cfg path) (rq_Header rq) = Inr k"
    by (rule carries_key_presented [OF assms(4)]) (simp_all add: k visible_internal_key)
  have mem: "?r \<in> records store'" using records_AddKey(2) [OF add assms(2)] by simp
  have auth: "authenticated sha cfg store' route rq k ?r" if "path = route"
    using pk mem that by (simp add: authenticated_def k)
  have "\<nexists>k' a. authenticated sha cfg store' path rq k' a" if "path \<noteq> route"
  proof
    assume "\<exists>k' a. authenticated sha cfg store' path rq k' a"
    then obtain a where a: "a \<in> records store'" "kr_Route a = path"
        "hashInternalKey sha (kr_InternalKey a) = hashInternalKey sha k"
      using pk by (auto simp: authenticated_def)
    then have "a = ?r" by (intro ks.pool_digest [OF ok a(1) mem]) (simp add: k)
    with a(2) that show False by simp
  qed
  with auth authInterceptor_denied [OF ok, of cfg path rq env] show ?thesis by auto
qed

text \<open>
  An issued key works at once and on its route only: after the administrator added a key, a
  request that carries it is authenticated on the key's route, with the upstream key that was given,
  and every other route of the configuration refuses it with status 401.
\<close>

theorem issued_key_authenticates:
  assumes "store_ok sha store" "fresh_for sha uid bytes store"
    and "handle_AddKey sha cfg route realKey al (Inr uid) (Inr bytes) store = (Inr k, store')"
    and "carries_key cfg path rq k"
  shows "(path = route \<longrightarrow> (\<exists>a. authenticated sha cfg store' route rq k a \<and> kr_RealKey a = realKey))
    \<and> (path \<noteq> route \<longrightarrow> (\<exists>d. authInterceptor sha cfg store' env path rq = Inl d \<and> deny_status d = 401))"
  by (rule issued_key [OF assms])

definition second_request :: request where
  "second_request = sample_request\<lparr>rq_Header := [(''Authorization'', [''Bearer '' @ internal_key_of ''ab''])]\<rparr>"

lemma second_carries: "carries_key sample_config ''/a'' second_request (internal_key_of ''ab'')"
proof -
  have "auth_header_key (Some sample_provider) = (''Authorization'', False)"
    by (rule auth_header_plain) (simp add: sample_provider_def)
  then show ?thesis
    by (simp add: carries_key_def sample_provider_of second_request_def sample_request_def
        header_get_def header_values_def canonical_body_names)
qed

lemma issued_key_authenticates_witness:
  "\<exists>store' a. authenticated id sample_config store' ''/a'' second_request (internal_key_of ''ab'') a
    \<and> kr_RealKey a = ''k2''"
proof -
  have trim: "trim_space ''k2'' = ''k2''" by (rule trim_space_visible) (simp add: visible_def)
  have "\<forall>q \<in> records sample_store. \<not> (kr_Route q = ''/a'' \<and> kr_RealKey q = ''k2'')"
    by (simp add: sample_records sample_record_def)
  from AddKey_success [OF this, of id "''al''" "''v''" "''ab''"]
  obtain s2 where "handle_AddKey id sample_config ''/a'' ''k2'' ''al'' (Inr ''v'') (Inr ''ab'') sample_store
      = (Inr (internal_key_of ''ab''), s2)"
    by (auto simp: handle_AddKey_def trim)
  from issued_key_authenticates [OF sample_ok sample_fresh this second_carries]
  show ?thesis by blast
qed

text \<open>
  C9. From the administrator's terminal to the vendor: when \<open>ai.local.cli key add\<close> with a route reports a
  key, a request that carries this key is authenticated on the route with the upstream key that was
  typed at the prompt, and refused on every other route.
\<close>

theorem client_issues_key:
  assumes "store_ok (he_sha h) (cp_store s)" "fresh_for (he_sha h) uid bytes (cp_store s)"
    and "he_uuid h = Inr uid" "he_rand h = Inr bytes"
    and "parseCLIConfig (ci_getenv env) args = Inr (addr, [''key'', ''add'', route])"
    and "cli_main env (direct_client h) args s
      = ((0, Message (LF # ''Generated internal key successfully:'' @ [LF] @ k)), s')"
    and "carries_key (he_cfg h) path rq k"
  shows "(path = route \<longrightarrow> (\<exists>a. authenticated (he_sha h) (he_cfg h) (cp_store s') route rq k a
        \<and> ci_keyPrompt env = Inr (kr_RealKey a)))
    \<and> (path \<noteq> route \<longrightarrow> (\<exists>d. authInterceptor (he_sha h) (he_cfg h) (cp_store s') qenv path rq = Inl d
        \<and> deny_status d = 401))"
proof -
  obtain key al where p: "ci_keyPrompt env = Inr key" "ci_aliasPrompt env = Inr al"
    and "handle_AddKey (he_sha h) (he_cfg h) route key al (Inr uid) (Inr bytes) (cp_store s)
      = (Inr k, cp_store s')"
    by (rule key_add_reported [OF assms(5,6,3,4)])
  from issued_key [OF assms(1,2) this(3) assms(7)] show ?thesis by (auto simp: p(1))
qed

lemma client_issues_key_witness:
  "\<exists>s' a. cli_main sample_cli_env (direct_client sample_handlers)
      [''--addr=h:1'', ''key'', ''add'', ''/a''] sample_plane
      = ((0, Message (LF # ''Generated internal key successfully:'' @ [LF] @ internal_key_of ''ab'')), s')
    \<and> authenticated id sample_config (cp_store s') ''/a'' second_request (internal_key_of ''ab'') a
    \<and> kr_RealKey a = ''k2''"
proof -
  obtain store where store: "handle_AddKey id sample_config ''/a'' ''k2'' ''al'' (Inr ''v'') (Inr ''ab'')
      sample_store = (Inr (internal_key_of ''ab''), store)"
    using sample_key_added by blast
  have "dispatch [''key'', ''add'', ''/a''] = KeyAddCmd ''/a''" by (simp add: dispatch_def)
  then have run: "cli_main sample_cli_env (direct_client sample_handlers)
      [''--addr=h:1'', ''key'', ''add'', ''/a''] sample_plane
      = ((0, Message (LF # ''Generated internal key successfully:'' @ [LF] @ internal_key_of ''ab'')),
         sample_plane\<lparr>cp_store := store\<rparr>)"
    using store sample_cli_args [of "[''add'', ''/a'']"]
    by (simp add: cli_main_def newAdminClient_def sample_cli_env_def run_command_def handleKeyAdd_def answered_def)
       (simp add: direct_client_def sample_handlers_def sample_plane_def as_rpc_def)
  have args: "parseCLIConfig (ci_getenv sample_cli_env) [''--addr=h:1'', ''key'', ''add'', ''/a'']
      = Inr (''h:1'', [''key'', ''add'', ''/a''])"
    using sample_cli_args [of "[''add'', ''/a'']"] by (simp add: sample_cli_env_def)
  have h: "he_sha sample_handlers = id" "he_cfg sample_handlers = sample_config"
    "he_uuid sample_handlers = Inr ''v''" "he_rand sample_handlers = Inr ''ab''"
    "cp_store sample_plane = sample_store" "ci_keyPrompt sample_cli_env = Inr ''k2''"
    by (simp_all add: sample_handlers_def sample_plane_def sample_cli_env_def)
  have "\<exists>a. authenticated (he_sha sample_handlers) (he_cfg sample_handlers)
        (cp_store (sample_plane\<lparr>cp_store := store\<rparr>)) ''/a'' second_request (internal_key_of ''ab'') a
      \<and> ci_keyPrompt sample_cli_env = Inr (kr_RealKey a)"
    by (rule client_issues_key [THEN conjunct1, THEN mp, OF _ _ h(3,4) args run _ refl])
       (simp_all only: h sample_ok sample_fresh second_carries)
  then obtain a where "authenticated id sample_config (cp_store (sample_plane\<lparr>cp_store := store\<rparr>)) ''/a''
      second_request (internal_key_of ''ab'') a" "kr_RealKey a = ''k2''"
    unfolding h by auto
  with run show ?thesis by (intro exI conjI)
qed

text \<open>
  C16. A revoked key is dead at once: after the administrator deleted a record by its UUID, every
  request that presents its key, on any route and whatever the quota, is refused with status 401;
  requests with the keys of other records are treated as before.
\<close>

theorem revoked_key_is_refused:
  assumes "store_ok sha store" "a \<in> records store"
    and "handle_DeleteKey (kr_UUID a) store = (found, store')"
  shows "found
    \<and> (presented_key (provider_of cfg path) (rq_Header rq) = Inr (kr_InternalKey a) \<longrightarrow>
        (\<exists>d. authInterceptor sha cfg store' env path rq = Inl d \<and> deny_status d = 401))
    \<and> (\<forall>k. presented_key (provider_of cfg path) (rq_Header rq) = Inr k \<longrightarrow>
        hashInternalKey sha k \<noteq> hashInternalKey sha (kr_InternalKey a) \<longrightarrow>
        authInterceptor sha cfg store' env path rq = authInterceptor sha cfg store env path rq)"
proof (intro conjI impI allI)
  have del: "DeleteKey (kr_UUID a) store = (found, store')"
    using assms(3) by (simp add: handle_DeleteKey_def)
  show found using DeleteKey_found [OF assms(1), of "kr_UUID a"] assms(2) del by auto
  assume "presented_key (provider_of cfg path) (rq_Header rq) = Inr (kr_InternalKey a)"
  moreover have "GetKeyByInternal sha store' (kr_InternalKey a) = None"
    using ks.revoked_not_found [OF assms(1,2)] del by simp
  ultimately show "\<exists>d. authInterceptor sha cfg store' env path rq = Inl d \<and> deny_status d = 401"
    by (simp add: authInterceptor_def deny_status_def)
next
  fix k
  assume pk: "presented_key (provider_of cfg path) (rq_Header rq) = Inr k"
    and neq: "hashInternalKey sha k \<noteq> hashInternalKey sha (kr_InternalKey a)"
  have del: "snd (DeleteKey (kr_UUID a) store) = store'"
    using assms(3) by (simp add: handle_DeleteKey_def)
  have "GetKeyByInternal sha store' k = Some q \<longleftrightarrow> GetKeyByInternal sha store k = Some q" for q
  proof
    assume "GetKeyByInternal sha store k = Some q"
    moreover from this neq have "kr_UUID q \<noteq> kr_UUID a"
      using ks.lookup_iff [OF assms(1)] ks.pool_uuid [OF assms(1) _ assms(2)] by metis
    ultimately show "GetKeyByInternal sha store' k = Some q"
      using ks.revoke_frame [OF assms(1)] del by blast
  qed (use ks.revoke_only_shrinks [OF assms(1)] del in blast)
  then have "GetKeyByInternal sha store' k = GetKeyByInternal sha store k"
    by (metis option.exhaust)
  with pk show "authInterceptor sha cfg store' env path rq = authInterceptor sha cfg store env path rq"
    by (simp add: authInterceptor_def)
qed

lemma revoked_key_is_refused_witness:
  "\<exists>d. authInterceptor id sample_config (snd (handle_DeleteKey ''u'' sample_store)) sample_env ''/a''
      sample_request = Inl d \<and> deny_status d = 401"
proof -
  have "handle_DeleteKey (kr_UUID sample_record) sample_store
      = (fst (handle_DeleteKey ''u'' sample_store), snd (handle_DeleteKey ''u'' sample_store))"
    by (simp add: sample_record_def)
  moreover have "sample_record \<in> records sample_store" by (simp add: sample_records)
  moreover have "presented_key (provider_of sample_config ''/a'') (rq_Header sample_request)
      = Inr (kr_InternalKey sample_record)"
    using sample_authenticated by (simp add: authenticated_def sample_record_def)
  ultimately show ?thesis using revoked_key_is_refused [OF sample_ok] by blast
qed

section \<open>From the proxy to the quota\<close>

text \<open>
  C10. What was served counts against the quota: whatever the interleaving of producers and worker was,
  as long as the totals stay within 64 bits (\<open>fits\<close>, no count negative), the query of the quota check for
  a window returns the tokens charged in it before plus those of the records whose write committed,
  and nothing else; unless the query itself fails, then \<open>QuotaCheck\<close> lets the request pass (C1). The
  windows are the day and the month of the server's local clock (not of UTC). When no write failed
  the committed records are all records processed.
\<close>

theorem usage_feeds_quota:
  assumes "backend_run E (NewUsageBackend db) evs b" "ledger hist db"
    and "fits (hist @ map fst (attempts evs))"
  shows "queryTokens E query_fault (b_db b) mode localKey routePath ''daily'' (format_date now)
      = (case query_fault ''daily'' of Some m \<Rightarrow> Inl (EngineError m)
         | None \<Rightarrow> Inr (word_of_int (used_tokens mode localKey routePath format_date now hist
             + used_tokens mode localKey routePath format_date now (committed evs))))
    \<and> queryTokens E query_fault (b_db b) mode localKey routePath ''monthly'' (format_month now)
      = (case query_fault ''monthly'' of Some m \<Rightarrow> Inl (EngineError m)
         | None \<Rightarrow> Inr (word_of_int (used_tokens mode localKey routePath format_month now hist
             + used_tokens mode localKey routePath format_month now (committed evs))))
    \<and> ((\<forall>a \<in> set (attempts evs). snd a) \<longrightarrow> committed evs = map fst (attempts evs)
          \<and> map record_entry (committed evs) = map record_entry (processed evs))"
proof -
  have led: "ledger (hist @ committed evs) (b_db b)"
    using run_ledger [OF assms(1) _ assms(3)] assms(2) by (simp add: NewUsageBackend_def)
  have att: "map (record_entry \<circ> fst) (attempts evs) = map record_entry (processed evs)"
    by (induction evs rule: attempts.induct) simp_all
  note query = queryTokens_ledger [OF led fits_committed [OF assms(3)], of "\<lambda>p. None"]
  show ?thesis
    using query att
    by (auto simp: used_tokens_append committed_def queryTokens_no_fault [of query_fault]
        queryTokens_fault split: option.split)
qed

lemma usage_feeds_quota_witness:
  "queryTokens sample_engine no_query_fault (b_db sample_after) ''per_key'' ''k'' ''/a'' ''daily''
     (format_date sample_time) = Inr 7"
proof -
  have used: "used_tokens ''per_key'' ''k'' ''/a'' format_date sample_time (committed sample_events) = 7"
    by (simp add: committed_def sample_attempts used_tokens_def charged_def sample_usage_def)
  moreover have "used_tokens ''per_key'' ''k'' ''/a'' format_date sample_time [] = 0"
    by (simp add: used_tokens_def charged_def)
  ultimately show ?thesis
    using usage_feeds_quota [OF sample_run [unfolded sample_backend_def] ledger_empty,
        where query_fault = no_query_fault and mode = "''per_key''" and localKey = "''k''"
          and routePath = "''/a''" and now = sample_time]
      sample_usage_fits
    by (simp add: sample_attempts no_query_fault_def)
qed

end
